(* ===== verification/Deqs_Prelude.thy ===== *)
theory Deqs_Prelude
  imports Complex_Main "HOL-Library.Word" "HOL-Library.List_Lexorder" "HOL-Library.Product_Lexorder"
begin

text \<open>
  Shared vocabulary of the development: Rust's fixed-width integers and its \<open>Result\<close>
  type (with a third outcome for a panic), the operations of Rust's standard library that the
  sources use on them, decimal rendering of numbers for the messages of the error values,
  the named collections of simplification rules, and general lemmas on lists.
\<close>

section \<open>Machine integers\<close>

type_synonym u8 = "8 word"
type_synonym u32 = "32 word"
type_synonym u64 = "64 word"
type_synonym u128 = "128 word"
type_synonym bytes = "u8 list"

abbreviation u64_max :: u64 where
  "u64_max \<equiv> - 1"

text \<open>Rust's \<open>checked_sub\<close>, \<open>saturating_add\<close> and \<open>saturating_sub\<close> on \<open>u64\<close>.\<close>

definition checked_sub :: "u64 \<Rightarrow> u64 \<Rightarrow> u64 option" where
  "checked_sub a b = (if b \<le> a then Some (a - b) else None)"

definition saturating_add :: "u64 \<Rightarrow> u64 \<Rightarrow> u64" where
  "saturating_add a b = (if unat a + unat b < 2 ^ 64 then a + b else u64_max)"

definition saturating_sub :: "u64 \<Rightarrow> u64 \<Rightarrow> u64" where
  "saturating_sub a b = (if b \<le> a then a - b else 0)"

text \<open>Widening a \<open>u64\<close> to a \<open>u128\<close>, narrowing a \<open>u128\<close> to a \<open>u64\<close> (\<open>as\<close> casts),
  and the two's complement casts between \<open>u64\<close> and \<open>i64\<close> (an \<open>i64\<close> is an \<open>int\<close>
  between \<open>-2 ^ 63\<close> and \<open>2 ^ 63 - 1\<close>).\<close>

definition as_u128 :: "u64 \<Rightarrow> u128" where
  "as_u128 x = ucast x"

definition u128_as_u64 :: "u128 \<Rightarrow> u64" where
  "u128_as_u64 x = ucast x"

definition as_i64 :: "u64 \<Rightarrow> int" where
  "as_i64 x = sint x"

definition i64_as_u64 :: "int \<Rightarrow> u64" where
  "i64_as_u64 i = word_of_int i"

section \<open>Results\<close>

text \<open>
  A Rust function that returns \<open>Result<T, E>\<close> either returns \<open>Ok\<close> or \<open>Err\<close>, or it panics
  (a failed \<open>assert!\<close>, an index out of range, a division by zero, an \<open>expect\<close> that fails).
\<close>

datatype ('a, 'e) result = Ok 'a | Err 'e | Panic

text \<open>The \<open>?\<close> operator, \<open>map\<close> and \<open>map_err\<close>.\<close>

fun and_then :: "('a, 'e) result \<Rightarrow> ('a \<Rightarrow> ('b, 'e) result) \<Rightarrow> ('b, 'e) result" where
  "and_then (Ok a) f = f a"
| "and_then (Err e) f = Err e"
| "and_then Panic f = Panic"

fun map_ok :: "('a \<Rightarrow> 'b) \<Rightarrow> ('a, 'e) result \<Rightarrow> ('b, 'e) result" where
  "map_ok f (Ok a) = Ok (f a)"
| "map_ok f (Err e) = Err e"
| "map_ok f Panic = Panic"

fun map_err :: "('e \<Rightarrow> 'd) \<Rightarrow> ('a, 'e) result \<Rightarrow> ('a, 'd) result" where
  "map_err f (Ok a) = Ok a"
| "map_err f (Err e) = Err (f e)"
| "map_err f Panic = Panic"

fun is_ok :: "('a, 'e) result \<Rightarrow> bool" where
  "is_ok (Ok a) = True"
| "is_ok (Err e) = False"
| "is_ok Panic = False"

fun is_err :: "('a, 'e) result \<Rightarrow> bool" where
  "is_err (Ok a) = False"
| "is_err (Err e) = True"
| "is_err Panic = False"

fun ok_or :: "'e \<Rightarrow> 'a option \<Rightarrow> ('a, 'e) result" where
  "ok_or e None = Err e"
| "ok_or e (Some a) = Ok a"

text \<open>\<open>assert!(b)\<close> and \<open>xs[i]\<close>.\<close>

definition assert_that :: "bool \<Rightarrow> (unit, 'e) result" where
  "assert_that b = (if b then Ok () else Panic)"

definition index_at :: "'a list \<Rightarrow> nat \<Rightarrow> ('a, 'e) result" where
  "index_at xs i = (if i < length xs then Ok (xs ! i) else Panic)"

text \<open>\<open>expect\<close>: an error is a panic.\<close>

fun expect :: "('a, 'e) result \<Rightarrow> ('a, 'f) result" where
  "expect (Ok a) = Ok a"
| "expect (Err e) = Panic"
| "expect Panic = Panic"

text \<open>\<open>iter().map(f).collect::<Result<Vec<_>, _>>()\<close>: stops at the first error.\<close>

fun collect_results :: "('a \<Rightarrow> ('b, 'e) result) \<Rightarrow> 'a list \<Rightarrow> ('b list, 'e) result" where
  "collect_results f [] = Ok []"
| "collect_results f (x # xs) =
     and_then (f x) (\<lambda>y. and_then (collect_results f xs) (\<lambda>ys. Ok (y # ys)))"

text \<open>Sequencing of operations that return a result and a new state, and \<open>map_err\<close> on them.\<close>

fun then_do ::
  "('a, 'e) result \<times> 's \<Rightarrow> ('a \<Rightarrow> 's \<Rightarrow> ('b, 'e) result \<times> 's) \<Rightarrow> ('b, 'e) result \<times> 's" where
  "then_do (Ok a, s) f = f a s"
| "then_do (Err e, s) f = (Err e, s)"
| "then_do (Panic, s) f = (Panic, s)"

fun map_err_st :: "('e \<Rightarrow> 'd) \<Rightarrow> ('a, 'e) result \<times> 's \<Rightarrow> ('a, 'd) result \<times> 's" where
  "map_err_st f (r, s) = (map_err f r, s)"

section \<open>Decimal rendering\<close>

fun show_nat :: "nat \<Rightarrow> string" where
  "show_nat n =
     (if n < 10 then [char_of (48 + n)] else show_nat (n div 10) @ [char_of (48 + n mod 10)])"

declare show_nat.simps [simp del]

definition show_u64 :: "u64 \<Rightarrow> string" where
  "show_u64 x = show_nat (unat x)"

section \<open>Rule collections\<close>

named_theorems result_simps \<open>inversion rules for results\<close>
named_theorems book_simps \<open>unfolding rules of the quote books\<close>

section \<open>Lemmas on integers\<close>

lemma unat_u64_less: "unat (x :: u64) < 18446744073709551616"
  using unsigned_less [of x, where ?'a = nat] by simp

lemma checked_sub_Some: "checked_sub a b = Some c \<longleftrightarrow> b \<le> a \<and> c = a - b"
  by (auto simp: checked_sub_def)

lemma checked_sub_None: "checked_sub a b = None \<longleftrightarrow> a < b"
  by (auto simp: checked_sub_def)

lemma unat_as_u128 [simp]: "unat (as_u128 x) = unat x"
  using unat_u64_less [of x]
  by (simp add: as_u128_def unsigned_ucast_eq take_bit_nat_eq_self_iff)

lemma as_u128_eq_0 [simp]: "as_u128 x = 0 \<longleftrightarrow> x = 0"
  using unat_as_u128 [of x] by (metis unat_eq_zero)

lemma u64_product_bound: "unat (x :: u64) * unat (y :: u64) < 2 ^ 128"
proof -
  have "unat x * unat y \<le> (2 ^ 64 - 1) * (2 ^ 64 - 1)"
    by (rule mult_le_mono) (use unat_u64_less [of x] unat_u64_less [of y] in simp_all)
  also have "\<dots> < (2 ^ 128 :: nat)"
    by simp
  finally show ?thesis .
qed

text \<open>The product of two widened \<open>u64\<close> values never wraps around.\<close>

lemma unat_as_u128_mult [simp]: "unat (as_u128 x * as_u128 y) = unat x * unat y"
  using u64_product_bound [of x y] by (simp add: unat_word_ariths)

lemma as_u128_mult_le [simp]:
  "as_u128 a * as_u128 b \<le> as_u128 c * as_u128 d \<longleftrightarrow> unat a * unat b \<le> unat c * unat d"
  by (simp add: word_le_nat_alt)

lemma as_u128_mult_less [simp]:
  "as_u128 a * as_u128 b < as_u128 c * as_u128 d \<longleftrightarrow> unat a * unat b < unat c * unat d"
  by (simp add: word_less_nat_alt)

lemma as_u128_mult_eq [simp]:
  "as_u128 a * as_u128 b = as_u128 c * as_u128 d \<longleftrightarrow> unat a * unat b = unat c * unat d"
  by (metis unat_as_u128_mult unsigned_word_eqI)

lemma unat_u128_as_u64:
  assumes "unat z < 2 ^ 64"
  shows "unat (u128_as_u64 z) = unat z"
  using assms by (simp add: u128_as_u64_def unsigned_ucast_eq take_bit_nat_eq_self_iff)

lemma unat_saturating_add:
  "unat (saturating_add a b) = min (unat a + unat b) (2 ^ 64 - 1)"
proof (cases "unat a + unat b < 2 ^ 64")
  case True
  then show ?thesis by (simp add: saturating_add_def unat_word_ariths)
next
  case False
  then show ?thesis by (simp add: saturating_add_def unsigned_minus_1_eq_mask mask_eq_exp_minus_1)
qed

lemma unat_saturating_sub: "unat (saturating_sub a b) = unat a - unat b"
  by (simp add: saturating_sub_def unat_sub word_le_nat_alt)

lemma i64_as_u64_as_i64 [simp]: "i64_as_u64 (as_i64 x) = x"
  by (simp add: i64_as_u64_def as_i64_def)

lemma as_i64_inject [simp]: "as_i64 x = as_i64 y \<longleftrightarrow> x = y"
  by (metis i64_as_u64_as_i64)

lemma unat_less_iff_uint: "unat (x :: u64) < 2 ^ 63 \<longleftrightarrow> uint x < 2 ^ 63"
proof -
  have "unat x < 2 ^ 63 \<longleftrightarrow> int (unat x) < int (2 ^ 63)"
    by (rule of_nat_less_iff [symmetric])
  then show ?thesis by simp
qed

lemma as_i64_small:
  assumes "unat x < 2 ^ 63"
  shows "as_i64 x = int (unat x)"
proof -
  have "uint x < 2 ^ 63"
    using assms by (simp only: unat_less_iff_uint)
  moreover have "- (2 ^ 63) \<le> uint x"
    by (rule order_trans [OF _ unsigned_greater_eq]) simp
  ultimately have "signed_take_bit 63 (uint x) = uint x"
    by (intro signed_take_bit_int_eq_self)
  then show ?thesis
    by (simp add: as_i64_def sint_uint)
qed

lemma as_i64_nonneg_iff: "0 \<le> as_i64 x \<longleftrightarrow> unat x < 2 ^ 63"
proof
  assume nonneg: "0 \<le> as_i64 x"
  have lt: "sint x < 2 ^ 63"
    using sint_lt [of x] by simp
  have "uint x = take_bit 64 (sint x)"
    using uint_sint [of x] by simp
  also have "\<dots> = sint x"
    using nonneg lt by (simp add: take_bit_int_eq_self_iff as_i64_def)
  finally show "unat x < 2 ^ 63"
    using lt by (simp only: unat_less_iff_uint)
next
  assume "unat x < 2 ^ 63"
  then show "0 \<le> as_i64 x" by (simp only: as_i64_small of_nat_0_le_iff)
qed

section \<open>Lemmas on results\<close>

lemma and_then_eq_Ok [result_simps]:
  "and_then r f = Ok b \<longleftrightarrow> (\<exists>a. r = Ok a \<and> f a = Ok b)"
  by (cases r) auto

lemma and_then_eq_Err [result_simps]:
  "and_then r f = Err e \<longleftrightarrow> r = Err e \<or> (\<exists>a. r = Ok a \<and> f a = Err e)"
  by (cases r) auto

lemma and_then_eq_Panic [result_simps]:
  "and_then r f = Panic \<longleftrightarrow> r = Panic \<or> (\<exists>a. r = Ok a \<and> f a = Panic)"
  by (cases r) auto

lemma map_ok_eq_Ok [result_simps]: "map_ok f r = Ok b \<longleftrightarrow> (\<exists>a. r = Ok a \<and> b = f a)"
  by (cases r) auto

lemma map_err_eq_Ok [result_simps]: "map_err f r = Ok a \<longleftrightarrow> r = Ok a"
  by (cases r) auto

lemma map_err_eq_Err [result_simps]: "map_err f r = Err d \<longleftrightarrow> (\<exists>e. r = Err e \<and> d = f e)"
  by (cases r) auto

lemma map_err_eq_Panic [result_simps]: "map_err f r = Panic \<longleftrightarrow> r = Panic"
  by (cases r) auto

lemma ok_or_eq_Ok [result_simps]: "ok_or e x = Ok a \<longleftrightarrow> x = Some a"
  by (cases x) auto

lemma ok_or_eq_Err [result_simps]: "ok_or e x = Err d \<longleftrightarrow> x = None \<and> d = e"
  by (cases x) auto

lemma ok_or_not_Panic [result_simps]: "ok_or e x \<noteq> Panic"
  by (cases x) auto

lemma is_err_iff: "is_err r \<longleftrightarrow> (\<exists>e. r = Err e)"
  by (cases r) auto

lemma is_ok_iff: "is_ok r \<longleftrightarrow> (\<exists>a. r = Ok a)"
  by (cases r) auto

lemma assert_that_simps [simp]:
  "assert_that b = Ok u \<longleftrightarrow> b" "assert_that b \<noteq> Err e" "assert_that b = Panic \<longleftrightarrow> \<not> b"
  by (auto simp: assert_that_def)

lemma index_at_eq_Ok [result_simps]: "index_at xs i = Ok a \<longleftrightarrow> i < length xs \<and> a = xs ! i"
  by (auto simp: index_at_def)

lemma index_at_not_Err [result_simps]: "index_at xs i \<noteq> Err e"
  by (auto simp: index_at_def)

lemma index_at_eq_Panic [result_simps]: "index_at xs i = Panic \<longleftrightarrow> length xs \<le> i"
  by (auto simp: index_at_def)

lemma collect_results_eq_Ok:
  "collect_results f xs = Ok ys \<longleftrightarrow> list_all2 (\<lambda>x y. f x = Ok y) xs ys"
proof (induction xs arbitrary: ys)
  case Nil
  then show ?case by auto
next
  case (Cons x xs)
  then show ?case
    by (cases ys) (auto simp: result_simps)
qed

end
