(* ===== verification/P2P_Client.thy ===== *)
theory P2P_Client
  imports Deqs_Prelude
begin

text \<open>
  The client side of the crate \<open>p2p\<close>: the commands and the client handle of \<open>p2p/src/client.rs\<close>,
  the events of \<open>p2p/src/network.rs\<close> and the wire codec of \<open>p2p/src/rpc.rs\<close>.

  A client talks to the event loop through a queue of commands and gets each answer on a one-shot
  channel. The rest of the process is a state \<open>'n\<close> with the operations of \<open>client_env\<close>: creating a
  channel, sending a command (which fails when the event loop is gone), waiting on a channel
  (\<open>None\<close> when its sender was dropped), and the retry driver of the crate \<open>tokio_retry\<close>.
\<close>

section \<open>Types of libp2p\<close>

type_synonym peer_id = bytes
type_synonym topic = string
type_synonym message_id = bytes
type_synonym chan = nat
type_synonym response_channel = nat

datatype protocol = P2p bytes | OtherProtocol string

type_synonym multiaddr = "protocol list"

record gossip_message =
  gm_topic :: string
  gm_data :: bytes

section \<open>Commands and events\<close>

datatype ('req, 'resp) command =
    PeerList chan
  | Listen multiaddr chan
  | ListenAddrList chan
  | ConnectedPeerList chan
  | PublishGossip topic bytes chan
  | SubscribeGossip topic chan
  | RpcRequest peer_id 'req chan
  | RpcResponse 'resp response_channel

datatype client_error =
    ChannelSend
  | ChannelRecv
  | OutboundFailure string
  | GossipSubscription string
  | GossipPublish string
  | Transport string

datatype p2p_error =
    GossipsubBuild string
  | GossipsubNew string
  | Io string
  | Noise string
  | Dial string
  | Bootstrap string
  | TransportError string
  | Multihash string
  | InvalidPeerAddress multiaddr "protocol option"
  | MultiaddrError string
  | KadStore string
  | ClientError client_error

datatype 'req network_event =
    RpcRequestEvent peer_id 'req response_channel
  | ConnectionEstablished peer_id
  | NewListenAddr multiaddr
  | GossipMessage gossip_message

section \<open>The client\<close>

record ('req, 'resp, 'n) client_env =
  oneshot_channel :: "'n \<Rightarrow> chan \<times> 'n"
  mpsc_send :: "('req, 'resp) command \<Rightarrow> 'n \<Rightarrow> bool \<times> 'n"
  await_rpc :: "chan \<Rightarrow> 'n \<Rightarrow> (client_error + 'resp) option \<times> 'n"
  await_subscribe :: "chan \<Rightarrow> 'n \<Rightarrow> (string + bool) option \<times> 'n"
  await_publish :: "chan \<Rightarrow> 'n \<Rightarrow> (string + message_id) option \<times> 'n"
  await_listen :: "chan \<Rightarrow> 'n \<Rightarrow> (client_error + multiaddr) option \<times> 'n"
  await_peers :: "chan \<Rightarrow> 'n \<Rightarrow> peer_id list option \<times> 'n"
  await_addrs :: "chan \<Rightarrow> 'n \<Rightarrow> multiaddr list option \<times> 'n"
  retry_spawn :: "nat \<Rightarrow> ('n \<Rightarrow> ('resp, client_error) result \<times> 'n) \<Rightarrow> 'n \<Rightarrow>
    ('resp, client_error) result \<times> 'n"

fun from_sum :: "('e \<Rightarrow> client_error) \<Rightarrow> 'e + 'a \<Rightarrow> ('a, client_error) result" where
  "from_sum f (Inl e) = Err (f e)"
| "from_sum f (Inr a) = Ok a"

text \<open>Create a channel, send a command that carries its sender, and wait for the answer.\<close>

definition send_and_await ::
  "('req, 'resp, 'n) client_env \<Rightarrow> (chan \<Rightarrow> ('req, 'resp) command) \<Rightarrow>
     (chan \<Rightarrow> 'n \<Rightarrow> 'v option \<times> 'n) \<Rightarrow> 'n \<Rightarrow> ('v, client_error) result \<times> 'n" where
  "send_and_await env mk await n =
     (case oneshot_channel env n of (c, n1) \<Rightarrow>
      (case mpsc_send env (mk c) n1 of
         (False, n2) \<Rightarrow> (Err ChannelSend, n2)
       | (True, n2) \<Rightarrow>
           (case await c n2 of
              (None, n3) \<Rightarrow> (Err ChannelRecv, n3)
            | (Some v, n3) \<Rightarrow> (Ok v, n3))))"

definition rpc_request ::
  "('req, 'resp, 'n) client_env \<Rightarrow> peer_id \<Rightarrow> 'req \<Rightarrow> 'n \<Rightarrow> ('resp, client_error) result \<times> 'n" where
  "rpc_request env peer request n =
     then_do (send_and_await env (RpcRequest peer request) (await_rpc env) n)
       (\<lambda>r n. (from_sum (\<lambda>e. e) r, n))"

definition retrying_rpc_request ::
  "('req, 'resp, 'n) client_env \<Rightarrow> peer_id \<Rightarrow> 'req \<Rightarrow> 'n \<Rightarrow> ('resp, client_error) result \<times> 'n" where
  "retrying_rpc_request env peer request n = retry_spawn env 50 (rpc_request env peer request) n"

definition rpc_response ::
  "('req, 'resp, 'n) client_env \<Rightarrow> 'resp \<Rightarrow> response_channel \<Rightarrow> 'n \<Rightarrow> (unit, client_error) result \<times> 'n" where
  "rpc_response env response channel n =
     (case mpsc_send env (RpcResponse response channel) n of
        (False, n') \<Rightarrow> (Err ChannelSend, n')
      | (True, n') \<Rightarrow> (Ok (), n'))"

definition subscribe_gossip ::
  "('req, 'resp, 'n) client_env \<Rightarrow> topic \<Rightarrow> 'n \<Rightarrow> (bool, client_error) result \<times> 'n" where
  "subscribe_gossip env topic n =
     then_do (send_and_await env (SubscribeGossip topic) (await_subscribe env) n)
       (\<lambda>r n. (from_sum GossipSubscription r, n))"

definition publish_gossip ::
  "('req, 'resp, 'n) client_env \<Rightarrow> topic \<Rightarrow> bytes \<Rightarrow> 'n \<Rightarrow> (message_id, client_error) result \<times> 'n" where
  "publish_gossip env topic msg n =
     then_do (send_and_await env (PublishGossip topic msg) (await_publish env) n)
       (\<lambda>r n. (from_sum GossipPublish r, n))"

definition peer_list ::
  "('req, 'resp, 'n) client_env \<Rightarrow> 'n \<Rightarrow> (peer_id list, client_error) result \<times> 'n" where
  "peer_list env = send_and_await env PeerList (await_peers env)"

definition listen ::
  "('req, 'resp, 'n) client_env \<Rightarrow> multiaddr \<Rightarrow> 'n \<Rightarrow> (multiaddr, client_error) result \<times> 'n" where
  "listen env address n =
     then_do (send_and_await env (Listen address) (await_listen env) n)
       (\<lambda>r n. (from_sum (\<lambda>e. e) r, n))"

definition listen_addrs ::
  "('req, 'resp, 'n) client_env \<Rightarrow> 'n \<Rightarrow> (multiaddr list, client_error) result \<times> 'n" where
  "listen_addrs env = send_and_await env ListenAddrList (await_addrs env)"

definition connected_peers ::
  "('req, 'resp, 'n) client_env \<Rightarrow> 'n \<Rightarrow> (peer_id list, client_error) result \<times> 'n" where
  "connected_peers env = send_and_await env ConnectedPeerList (await_peers env)"

text \<open>
  What \<open>Retry::spawn\<close> documents: the action runs, and after each error it runs again as long as the
  strategy yields a delay; the last error is returned.
\<close>

definition retry_documented :: "('req, 'resp, 'n) client_env \<Rightarrow> bool" where
  "retry_documented env \<longleftrightarrow>
     (\<forall>k f n. retry_spawn env k f n =
        (case f n of
           (Err e, n') \<Rightarrow> if k = 0 then (Err e, n') else retry_spawn env (k - 1) f n'
         | other \<Rightarrow> other))"

fun retry_times ::
  "nat \<Rightarrow> ('n \<Rightarrow> ('a, 'e) result \<times> 'n) \<Rightarrow> 'n \<Rightarrow> ('a, 'e) result \<times> 'n" where
  "retry_times 0 f n = f n"
| "retry_times (Suc k) f n =
     (case f n of (Err e, n') \<Rightarrow> retry_times k f n' | other \<Rightarrow> other)"

lemma retry_times_unfold:
  "retry_times k f n =
     (case f n of
        (Err e, n') \<Rightarrow> if k = 0 then (Err e, n') else retry_times (k - 1) f n'
      | other \<Rightarrow> other)"
  by (cases k) (auto split: result.splits prod.splits)

lemma retry_documented_eq:
  assumes "retry_documented env"
  shows "retry_spawn env k f n = retry_times k f n"
proof (induction k arbitrary: n)
  case 0
  have "retry_spawn env 0 f n = (case f n of (Err e, n') \<Rightarrow> (Err e, n') | other \<Rightarrow> other)"
    using assms [unfolded retry_documented_def, rule_format, of 0 f n]
    by (simp cong: result.case_cong split: prod.splits)
  then show ?case by (auto split: result.splits prod.splits)
next
  case (Suc k)
  have "retry_spawn env (Suc k) f n =
      (case f n of (Err e, n') \<Rightarrow> retry_spawn env k f n' | other \<Rightarrow> other)"
    using assms [unfolded retry_documented_def, rule_format, of "Suc k" f n]
    by (cases "f n"; cases "fst (f n)") simp_all
  then show ?case using Suc.IH by (simp split: result.splits prod.splits)
qed

text \<open>Every result of a retried action is a result of some run of the action.\<close>

lemma retry_times_result:
  assumes "retry_times k f n = (r, n')"
  shows "\<exists>m. f m = (r, n')"
  using assms
proof (induction k arbitrary: n)
  case (Suc k)
  show ?case
  proof (cases "f n")
    case (Pair r1 n1)
    with Suc show ?thesis by (cases r1) auto
  qed
qed auto

lemma retry_times_ok: "f n = (Ok a, n') \<Longrightarrow> retry_times k f n = (Ok a, n')"
  by (cases k) auto

section \<open>The wire codec\<close>

text \<open>
  \<open>RpcCodec\<close> reads and writes one length-prefixed frame. The framing of libp2p and the serializer are
  the parameter \<open>wire_lib\<close>; a stream is the bytes it carries.
\<close>

datatype io_error = UnexpectedEof | InvalidInput string | OtherIo string

record 'm wire_lib =
  wire_serialize :: "'m \<Rightarrow> (bytes, string) result"
  wire_deserialize :: "bytes \<Rightarrow> ('m, string) result"
  write_length_prefixed :: "bytes \<Rightarrow> (bytes, string) result"
  read_length_prefixed :: "nat \<Rightarrow> bytes \<Rightarrow> (bytes, string) result"

definition read_frame :: "'m wire_lib \<Rightarrow> nat \<Rightarrow> bytes \<Rightarrow> ('m, io_error) result" where
  "read_frame wl limit io =
     and_then (map_err OtherIo (read_length_prefixed wl limit io)) (\<lambda>vec.
       if vec = [] then Err UnexpectedEof
       else map_err InvalidInput (wire_deserialize wl vec))"

definition write_frame :: "string \<Rightarrow> 'm wire_lib \<Rightarrow> 'm \<Rightarrow> (bytes, io_error) result" where
  "write_frame what wl m =
     and_then (map_err (\<lambda>e. OtherIo (''Failed to serialize '' @ what @ '': '' @ e)) (wire_serialize wl m))
       (\<lambda>data. map_err OtherIo (write_length_prefixed wl data))"

definition read_request :: "'req wire_lib \<Rightarrow> bytes \<Rightarrow> ('req, io_error) result" where
  "read_request wl = read_frame wl 1000000"

definition read_response :: "'resp wire_lib \<Rightarrow> bytes \<Rightarrow> ('resp, io_error) result" where
  "read_response wl = read_frame wl 500000000"

definition write_request :: "'req wire_lib \<Rightarrow> 'req \<Rightarrow> (bytes, io_error) result" where
  "write_request wl = write_frame ''request'' wl"

definition write_response :: "'resp wire_lib \<Rightarrow> 'resp \<Rightarrow> (bytes, io_error) result" where
  "write_response wl = write_frame ''response'' wl"

text \<open>
  What the codec relies on: deserializing inverts serializing, and reading a frame of at most the
  given length returns what was written, while a longer frame is an error.
\<close>

definition wire_lib_ok :: "'m wire_lib \<Rightarrow> bool" where
  "wire_lib_ok wl \<longleftrightarrow>
     (\<forall>m bs. wire_serialize wl m = Ok bs \<longrightarrow> wire_deserialize wl bs = Ok m) \<and>
     (\<forall>bs limit io. write_length_prefixed wl bs = Ok io \<longrightarrow>
        (if length bs \<le> limit then read_length_prefixed wl limit io = Ok bs
         else is_err (read_length_prefixed wl limit io)))"

lemma read_write_frame:
  assumes "wire_lib_ok wl" and "write_frame what wl m = Ok io"
  shows "\<exists>data. wire_serialize wl m = Ok data \<and>
    (if limit < length data then is_err (read_frame wl limit io)
     else if data = [] then read_frame wl limit io = Err UnexpectedEof
     else read_frame wl limit io = Ok m)"
proof -
  obtain data where d: "wire_serialize wl m = Ok data" "write_length_prefixed wl data = Ok io"
    using assms(2) by (auto simp: write_frame_def result_simps)
  have rd: "if length data \<le> limit then read_length_prefixed wl limit io = Ok data
      else is_err (read_length_prefixed wl limit io)"
    using assms(1) d(2) by (simp add: wire_lib_ok_def)
  have de: "wire_deserialize wl data = Ok m"
    using assms(1) d(1) by (simp add: wire_lib_ok_def)
  show ?thesis
    using d(1) rd de by (auto simp: read_frame_def is_err_iff)
qed

section \<open>Properties\<close>

text \<open>A frame whose length fits a byte, and a serializer for lists of bytes.\<close>

definition sample_wire :: "bytes wire_lib" where
  "sample_wire =
     \<lparr>wire_serialize = Ok, wire_deserialize = Ok,
      write_length_prefixed = (\<lambda>bs. if length bs < 256 then Ok (of_nat (length bs) # bs) else Err ''''),
      read_length_prefixed = (\<lambda>limit io. case io of [] \<Rightarrow> Err '''' | n # bs \<Rightarrow>
        if limit < unat n then Err '''' else if length bs < unat n then Err '''' else Ok (take (unat n) bs))\<rparr>"

lemma sample_wire_ok: "wire_lib_ok sample_wire"
proof -
  have "unat (of_nat k :: u8) = k" if "k < 256" for k
    using that by (simp add: unat_of_nat)
  then show ?thesis
    by (auto simp: wire_lib_ok_def sample_wire_def is_err_iff split: if_splits)
qed

text \<open>
  C28: The wire codec is a round trip. A request that is written and read back arrives unchanged when
  its encoding has between 1 and 1,000,000 bytes, a response when it has at most 500,000,000; a
  longer one is an error on the receiving side, never a truncated message.
\<close>

theorem codec_round_trip:
  assumes "wire_lib_ok wq" and "wire_lib_ok wr"
    and "write_request wq q = Ok io" and "write_response wr r = Ok io'"
  shows "(\<exists>data. wire_serialize wq q = Ok data \<and>
      (if 1000000 < length data then is_err (read_request wq io)
       else if data = [] then read_request wq io = Err UnexpectedEof
       else read_request wq io = Ok q)) \<and>
    (\<exists>data. wire_serialize wr r = Ok data \<and>
      (if 500000000 < length data then is_err (read_response wr io')
       else if data = [] then read_response wr io' = Err UnexpectedEof
       else read_response wr io' = Ok r))"
  using read_write_frame [OF assms(1) assms(3) [unfolded write_request_def], of 1000000]
    read_write_frame [OF assms(2) assms(4) [unfolded write_response_def], of 500000000]
  unfolding read_request_def read_response_def by (rule conjI)

theorem codec_round_trip_witness:
  "read_request sample_wire [2, 7, 9] = Ok [7, 9] \<and> read_response sample_wire [1, 5] = Ok [5]"
proof -
  have w: "write_request sample_wire [7, 9] = Ok [2, 7, 9]" "write_response sample_wire [5] = Ok [1, 5]"
    by (simp_all add: write_request_def write_response_def write_frame_def sample_wire_def)
  show ?thesis
    using codec_round_trip [OF sample_wire_ok sample_wire_ok w]
    by (simp add: sample_wire_def)
qed

end
