(* ===== verification/Quote.thy ===== *)
theory Quote
  imports Deqs_Prelude
begin

text \<open>
  The crate \<open>quote-book/api\<close>: trading pairs and quote identifiers (\<open>basic_types.rs\<close>), the
  errors of a quote book (\<open>error.rs\<close>), and quotes (\<open>quote.rs\<close>): how a quote is derived from a
  signed contingent input (SCI), what a partial fill of it costs, and how quotes are ordered.

  SCIs come from the MobileCoin crates, which are not part of the repository. Their types are
  records with the fields the sources read, and one more field for the rest of their content.
  Their methods are the fields of the record \<open>mc_lib\<close>, an argument of every definition that
  uses them; what the sources rely on is collected in the predicate \<open>mc_lib_ok\<close>.
\<close>

section \<open>Types of the MobileCoin crates\<close>

type_synonym token_id = u64
type_synonym block_index = u64
type_synonym key_image = bytes

record amount =
  amount_value :: u64
  amount_token_id :: token_id

record tx_out =
  public_key :: bytes
  target_key :: bytes
  tx_out_rest :: bytes

record revealed_tx_out =
  revealed_output :: tx_out
  revealed_rest :: bytes

record input_rules =
  required_outputs :: "tx_out list"
  max_tombstone_block :: block_index
  partial_fill_outputs :: "revealed_tx_out list"
  partial_fill_change :: "revealed_tx_out option"
  min_partial_fill_value :: u64

record sci =
  ring :: "tx_out list"
  sci_input_rules :: "input_rules option"
  tx_out_global_indices :: "u64 list"
  pseudo_output_amount :: amount
  required_output_amounts :: "amount list"
  sci_key_image :: key_image
  sci_rest :: bytes

record mc_lib =
  sci_validate :: "sci \<Rightarrow> (unit, string) result"
  reveal_amount :: "revealed_tx_out \<Rightarrow> (amount, string) result"
  sci_digest32 :: "sci \<Rightarrow> bytes"
  validate_tombstone :: "block_index \<Rightarrow> block_index \<Rightarrow> string option"
  hex_encode :: "bytes \<Rightarrow> string"

text \<open>
  What the sources rely on: validation and amount recovery return, a validated SCI lists one
  amount per required output, and the digest has 32 bytes.
\<close>

definition mc_lib_ok :: "mc_lib \<Rightarrow> bool" where
  "mc_lib_ok lib \<longleftrightarrow>
     (\<forall>s. sci_validate lib s \<noteq> Panic) \<and>
     (\<forall>r. reveal_amount lib r \<noteq> Panic) \<and>
     (\<forall>s rules. sci_validate lib s = Ok () \<longrightarrow> sci_input_rules s = Some rules \<longrightarrow>
        length (required_output_amounts s) = length (required_outputs rules)) \<and>
     (\<forall>s. length (sci_digest32 lib s) = 32)"

section \<open>Pairs and identifiers\<close>

datatype pair = Pair (base_token_id: token_id) (counter_token_id: token_id)

instantiation pair :: linorder
begin

definition less_eq_pair :: "pair \<Rightarrow> pair \<Rightarrow> bool" where
  "less_eq_pair p q \<longleftrightarrow>
     (base_token_id p, counter_token_id p) \<le> (base_token_id q, counter_token_id q)"

definition less_pair :: "pair \<Rightarrow> pair \<Rightarrow> bool" where
  "less_pair p q \<longleftrightarrow>
     (base_token_id p, counter_token_id p) < (base_token_id q, counter_token_id q)"

instance
  by standard (auto simp: less_eq_pair_def less_pair_def intro: pair.expand)

end

type_synonym quote_id = bytes

definition quote_id_from_sci :: "mc_lib \<Rightarrow> sci \<Rightarrow> quote_id" where
  "quote_id_from_sci lib s = sci_digest32 lib s"

definition quote_id_try_from :: "bytes \<Rightarrow> quote_id option" where
  "quote_id_try_from bs = (if length bs = 32 then Some bs else None)"

definition quote_id_display :: "mc_lib \<Rightarrow> quote_id \<Rightarrow> string" where
  "quote_id_display lib i = hex_encode lib i"

section \<open>Quotes and errors\<close>

record quote =
  q_sci :: sci
  q_id :: quote_id
  q_pair :: pair
  q_base_range :: "u64 \<times> u64"
  q_max_counter_tokens :: u64
  q_timestamp :: u64

datatype error =
    Sci string
  | UnsupportedSci string
  | QuoteAlreadyExists quote
  | QuoteNotFound
  | QuoteIsStale
  | InsufficientBaseTokens u64
  | InvalidRing string
  | ImplementationSpecific string
  | RevealedTxOut string
  | LockPoisoned
  | Time

fun error_display :: "error \<Rightarrow> string" where
  "error_display (Sci e) = ''SCI: '' @ e"
| "error_display (UnsupportedSci e) = ''Unsupported SCI: '' @ e"
| "error_display (QuoteAlreadyExists q) = ''Quote already exists in book''"
| "error_display QuoteNotFound = ''Quote not found''"
| "error_display QuoteIsStale = ''Quote has a spent keyimage''"
| "error_display (InsufficientBaseTokens n) =
     ''Quote cannot fulfill the desired amount ('' @ show_u64 n @ '') of base tokens''"
| "error_display (InvalidRing e) = ''Quote has an invalid ring: '' @ e"
| "error_display (ImplementationSpecific e) = ''Implementation specific error: '' @ e"
| "error_display (RevealedTxOut e) = ''RevealedTxOut: '' @ e"
| "error_display LockPoisoned = ''LockPoisoned''"
| "error_display Time = ''Time conversion error''"

definition max_base_tokens :: "quote \<Rightarrow> u64" where
  "max_base_tokens q = snd (q_base_range q)"

definition range_contains :: "u64 \<times> u64 \<Rightarrow> u64 \<Rightarrow> bool" where
  "range_contains r n \<longleftrightarrow> fst r \<le> n \<and> n \<le> snd r"

definition quote_tombstone :: "quote \<Rightarrow> block_index" where
  "quote_tombstone q =
     (case sci_input_rules (q_sci q) of Some rules \<Rightarrow> max_tombstone_block rules | None \<Rightarrow> 0)"

abbreviation quote_key_image :: "quote \<Rightarrow> key_image" where
  "quote_key_image q \<equiv> sci_key_image (q_sci q)"

definition unsupported_outputs :: "input_rules \<Rightarrow> error" where
  "unsupported_outputs rules =
     UnsupportedSci (''Unsupported number of required/partial outputs '' @
       show_nat (length (required_outputs rules)) @ ''/'' @
       show_nat (length (partial_fill_outputs rules)))"

section \<open>Creating a quote\<close>

text \<open>The clock: nanoseconds since the Unix epoch, negative before it.\<close>

definition system_time_nanos :: "int \<Rightarrow> (u64, error) result" where
  "system_time_nanos now =
     (if now < 0 then Err Time else if 2 ^ 64 \<le> now then Err Time else Ok (word_of_int now))"

text \<open>The counter token, the range of base tokens and the counter amount a validated SCI
  offers.\<close>

definition quote_terms ::
  "mc_lib \<Rightarrow> sci \<Rightarrow> input_rules \<Rightarrow> (token_id \<times> (u64 \<times> u64) \<times> u64, error) result" where
  "quote_terms lib s rules =
     (let base = amount_token_id (pseudo_output_amount s);
          offered = amount_value (pseudo_output_amount s);
          num_required = length (required_outputs rules);
          num_partial = length (partial_fill_outputs rules)
      in if num_required = 0 \<and> num_partial = 0
         then Err (UnsupportedSci ''No required/partial outputs'')
         else if num_required = 1 \<and> num_partial = 0
         then and_then (index_at (required_output_amounts s) 0) (\<lambda>a.
           Ok (amount_token_id a, (offered, offered), amount_value a))
         else if num_required \<le> 1 \<and> num_partial = 1
         then and_then (map_err RevealedTxOut (reveal_amount lib (partial_fill_outputs rules ! 0)))
           (\<lambda>a. and_then
             (if num_required = 1
              then and_then (index_at (required_output_amounts s) 0) (\<lambda>change.
                if amount_token_id change \<noteq> base
                then Err (UnsupportedSci
                  (''Suspected required-change-output token id '' @
                   show_u64 (amount_token_id change) @
                   '' does not match partial output token id '' @
                   show_u64 (amount_token_id a)))
                else ok_or
                  (UnsupportedSci (''max base amount '' @ show_u64 offered @
                     '' is lower than required change '' @ show_u64 (amount_value change)))
                  (checked_sub offered (amount_value change)))
              else Ok offered)
             (\<lambda>max_base. Ok (amount_token_id a, (min_partial_fill_value rules, max_base),
                amount_value a)))
         else Err (unsupported_outputs rules))"

definition new_from_fields ::
  "sci \<Rightarrow> quote_id \<Rightarrow> pair \<Rightarrow> u64 \<times> u64 \<Rightarrow> u64 \<Rightarrow> u64 \<Rightarrow> quote" where
  "new_from_fields s i p r m t =
     \<lparr>q_sci = s, q_id = i, q_pair = p, q_base_range = r, q_max_counter_tokens = m,
      q_timestamp = t\<rparr>"

definition quote_new :: "mc_lib \<Rightarrow> int \<Rightarrow> sci \<Rightarrow> u64 option \<Rightarrow> (quote, error) result" where
  "quote_new lib now s timestamp =
     and_then (case timestamp of Some t \<Rightarrow> Ok t | None \<Rightarrow> system_time_nanos now) (\<lambda>t.
     and_then (map_err Sci (sci_validate lib s)) (\<lambda>_.
     case sci_input_rules s of
       None \<Rightarrow> Err (UnsupportedSci ''Missing input rules'')
     | Some rules \<Rightarrow>
         and_then (quote_terms lib s rules) (\<lambda>(counter, range, max_counter).
           Ok \<lparr>q_sci = s, q_id = quote_id_from_sci lib s,
               q_pair = Pair (amount_token_id (pseudo_output_amount s)) counter,
               q_base_range = range, q_max_counter_tokens = max_counter,
               q_timestamp = t\<rparr>)))"

definition quote_try_from_sci :: "mc_lib \<Rightarrow> int \<Rightarrow> sci \<Rightarrow> (quote, error) result" where
  "quote_try_from_sci lib now s = quote_new lib now s None"

section \<open>The cost of a fill\<close>

text \<open>Unsigned division panics on a zero divisor.\<close>

definition checked_div_u128 :: "u128 \<Rightarrow> u128 \<Rightarrow> (u128, error) result" where
  "checked_div_u128 a b = (if b = 0 then Panic else Ok (a div b))"

definition counter_tokens_cost :: "mc_lib \<Rightarrow> quote \<Rightarrow> u64 \<Rightarrow> (u64, error) result" where
  "counter_tokens_cost lib q base_tokens =
     (if \<not> range_contains (q_base_range q) base_tokens
      then Err (InsufficientBaseTokens base_tokens)
      else case sci_input_rules (q_sci q) of
        None \<Rightarrow> Err (UnsupportedSci ''Missing input rules'')
      | Some rules \<Rightarrow>
        (let s = q_sci q;
             offered = amount_value (pseudo_output_amount s);
             num_required = length (required_outputs rules);
             num_partial = length (partial_fill_outputs rules)
         in if num_required = 0 \<and> num_partial = 0
            then Err (UnsupportedSci ''No required/partial outputs'')
            else if num_required = 1 \<and> num_partial = 0
            then and_then (assert_that (base_tokens = offered)) (\<lambda>_.
              and_then (index_at (required_output_amounts s) 0) (\<lambda>a. Ok (amount_value a)))
            else if num_required \<le> 1 \<and> num_partial = 1
            then
              and_then (assert_that (min_partial_fill_value rules \<le> base_tokens)) (\<lambda>_.
              and_then
                (if num_required = 1
                 then and_then (index_at (required_output_amounts s) 0) (\<lambda>change.
                   and_then (assert_that (amount_value change < offered)) (\<lambda>_.
                     Ok (offered - amount_value change)))
                 else Ok offered) (\<lambda>max_available.
              and_then (assert_that (base_tokens \<le> max_available)) (\<lambda>_.
              and_then
                (map_err RevealedTxOut (reveal_amount lib (partial_fill_outputs rules ! 0))) (\<lambda>a.
              and_then
                (checked_div_u128 (as_u128 (amount_value a) * as_u128 base_tokens)
                   (as_u128 offered)) (\<lambda>r.
              Ok (u128_as_u64 r))))))
            else Err (unsupported_outputs rules)))"

section \<open>The order on quotes\<close>

datatype ordering = Less | Equal | Greater

definition ord_cmp :: "'a::linorder \<Rightarrow> 'a \<Rightarrow> ordering" where
  "ord_cmp a b = (if a < b then Less else if a = b then Equal else Greater)"

definition quote_cmp :: "quote \<Rightarrow> quote \<Rightarrow> ordering" where
  "quote_cmp self other =
     (let self_rate = as_u128 (max_base_tokens other) * as_u128 (q_max_counter_tokens self);
          other_rate = as_u128 (max_base_tokens self) * as_u128 (q_max_counter_tokens other)
      in ord_cmp (q_pair self, self_rate, q_timestamp self, q_id self)
                 (q_pair other, other_rate, q_timestamp other, q_id other))"

section \<open>Well-formed quotes\<close>

text \<open>A quote is well formed when it is the one its own SCI and timestamp give.\<close>

definition quote_wf :: "mc_lib \<Rightarrow> quote \<Rightarrow> bool" where
  "quote_wf lib q \<longleftrightarrow> quote_new lib 0 (q_sci q) (Some (q_timestamp q)) = Ok q"

text \<open>The quote can be filled in parts: its SCI has a partial fill output.\<close>

definition is_partial :: "quote \<Rightarrow> bool" where
  "is_partial q \<longleftrightarrow>
     (case sci_input_rules (q_sci q) of
        None \<Rightarrow> False | Some rules \<Rightarrow> length (partial_fill_outputs rules) = 1)"

text \<open>The change in base tokens the SCI demands back.\<close>

definition required_change :: "quote \<Rightarrow> u64" where
  "required_change q =
     (if is_partial q
      then (case required_output_amounts (q_sci q) of [] \<Rightarrow> 0 | a # _ \<Rightarrow> amount_value a) else 0)"

definition offered_value :: "quote \<Rightarrow> u64" where
  "offered_value q = amount_value (pseudo_output_amount (q_sci q))"

lemma mc_lib_okD:
  assumes "mc_lib_ok lib"
  shows "sci_validate lib s \<noteq> Panic" "reveal_amount lib r \<noteq> Panic"
    "length (sci_digest32 lib s) = 32"
    "sci_validate lib s = Ok () \<Longrightarrow> sci_input_rules s = Some rules \<Longrightarrow>
       length (required_output_amounts s) = length (required_outputs rules)"
  using assms by (auto simp: mc_lib_ok_def)

lemma quote_terms_no_panic:
  assumes "mc_lib_ok lib" and "sci_validate lib s = Ok ()" and "sci_input_rules s = Some rules"
  shows "quote_terms lib s rules \<noteq> Panic"
  using mc_lib_okD(4) [OF assms] assms(1)
  by (auto simp: quote_terms_def Let_def result_simps mc_lib_okD split: if_splits)

lemma system_time_nanos_no_panic [simp]: "system_time_nanos now \<noteq> Panic"
  by (simp add: system_time_nanos_def)

text \<open>The three shapes of SCI that are accepted: one required output; one partial fill output;
  one partial fill output and one required output, taken as change.\<close>

lemma quote_terms_cases:
  assumes "quote_terms lib s rules = Ok (c, r, m)"
  obtains
    (full) a as where "length (required_outputs rules) = 1" "partial_fill_outputs rules = []"
      "required_output_amounts s = a # as" "c = amount_token_id a"
      "r = (amount_value (pseudo_output_amount s), amount_value (pseudo_output_amount s))"
      "m = amount_value a"
  | (partial) p a where "required_outputs rules = []" "partial_fill_outputs rules = [p]"
      "reveal_amount lib p = Ok a" "c = amount_token_id a"
      "r = (min_partial_fill_value rules, amount_value (pseudo_output_amount s))"
      "m = amount_value a"
  | (change) p a ch as where "length (required_outputs rules) = 1"
      "partial_fill_outputs rules = [p]" "reveal_amount lib p = Ok a" "c = amount_token_id a"
      "required_output_amounts s = ch # as"
      "amount_token_id ch = amount_token_id (pseudo_output_amount s)"
      "amount_value ch \<le> amount_value (pseudo_output_amount s)"
      "r = (min_partial_fill_value rules,
            amount_value (pseudo_output_amount s) - amount_value ch)"
      "m = amount_value a"
proof -
  have hd: "length xs = Suc 0 \<Longrightarrow> \<exists>x. xs = [x]" for xs :: "'z list"
    by (cases xs) auto
  have ne: "xs \<noteq> [] \<Longrightarrow> \<exists>y ys. xs = y # ys" for xs :: "'z list"
    by (cases xs) auto
  show ?thesis
    using assms that
    by (auto simp: quote_terms_def Let_def result_simps checked_sub_Some le_Suc_eq
        split: if_splits dest!: hd ne)
qed

lemma quote_new_eq_Ok:
  "quote_new lib now s ts = Ok q \<longleftrightarrow>
     (\<exists>t rules c r m. (case ts of Some t' \<Rightarrow> Ok t' | None \<Rightarrow> system_time_nanos now) = Ok t \<and>
        sci_validate lib s = Ok () \<and> sci_input_rules s = Some rules \<and>
        quote_terms lib s rules = Ok (c, r, m) \<and>
        q = \<lparr>q_sci = s, q_id = quote_id_from_sci lib s,
             q_pair = Pair (amount_token_id (pseudo_output_amount s)) c,
             q_base_range = r, q_max_counter_tokens = m, q_timestamp = t\<rparr>)"
  by (auto simp: quote_new_def result_simps split: option.splits)

lemma quote_terms_err: "quote_terms lib s rules = Err e \<Longrightarrow> e \<noteq> QuoteAlreadyExists x"
  unfolding quote_terms_def Let_def unsupported_outputs_def
  by (auto simp: result_simps simp del: append.simps split: if_splits)

lemma quote_new_err: "quote_new lib now s ts = Err e \<Longrightarrow> e \<noteq> QuoteAlreadyExists x"
  by (auto simp: quote_new_def result_simps system_time_nanos_def
      split: option.splits if_splits dest: quote_terms_err)

lemma quote_terms_err_kind:
  "quote_terms lib s rules = Err e \<Longrightarrow> (\<exists>m. e = Sci m \<or> e = UnsupportedSci m \<or> e = RevealedTxOut m)"
  unfolding quote_terms_def Let_def unsupported_outputs_def
  by (auto simp: result_simps simp del: append.simps split: if_splits)

lemma quote_new_err_kind:
  "quote_new lib now s ts = Err e \<Longrightarrow>
     e = Time \<or> (\<exists>m. e = Sci m \<or> e = UnsupportedSci m \<or> e = RevealedTxOut m)"
  by (auto simp: quote_new_def system_time_nanos_def result_simps dest!: quote_terms_err_kind
      split: option.splits if_splits)

lemma quote_new_no_panic:
  assumes "mc_lib_ok lib"
  shows "quote_new lib now s ts \<noteq> Panic"
  using mc_lib_okD [OF assms] quote_terms_no_panic [OF assms, of s]
  by (auto simp: quote_new_def result_simps split: option.splits)

lemma quote_new_sci:
  assumes "quote_new lib now s ts = Ok q"
  shows "q_sci q = s" "q_id q = quote_id_from_sci lib s"
  using assms by (auto simp: quote_new_eq_Ok)

lemma quote_new_wf:
  assumes "quote_new lib now s ts = Ok q"
  shows "quote_wf lib q"
  using assms by (auto simp: quote_wf_def quote_new_eq_Ok)

section \<open>Lemmas on the cost of a fill\<close>

lemma quote_wf_cases:
  assumes "quote_wf lib q"
  obtains rules c where "sci_validate lib (q_sci q) = Ok ()" "sci_input_rules (q_sci q) = Some rules"
    "quote_terms lib (q_sci q) rules = Ok (c, q_base_range q, q_max_counter_tokens q)"
    "q_pair q = Pair (amount_token_id (pseudo_output_amount (q_sci q))) c"
    "q_id q = quote_id_from_sci lib (q_sci q)"
  using assms unfolding quote_wf_def quote_new_eq_Ok by (cases q) auto

lemma max_base_tokens_wf:
  assumes wf: "quote_wf lib q" and lib: "mc_lib_ok lib"
  shows "required_change q \<le> offered_value q"
    and "max_base_tokens q = offered_value q - required_change q"
    and "\<not> is_partial q \<Longrightarrow> q_base_range q = (offered_value q, offered_value q)"
proof -
  obtain rules c where r: "sci_validate lib (q_sci q) = Ok ()"
      "sci_input_rules (q_sci q) = Some rules"
      "quote_terms lib (q_sci q) rules = Ok (c, q_base_range q, q_max_counter_tokens q)"
    using wf by (rule quote_wf_cases)
  have len: "length (required_output_amounts (q_sci q)) = length (required_outputs rules)"
    using mc_lib_okD(4) [OF lib r(1,2)] .
  show "required_change q \<le> offered_value q"
    and "max_base_tokens q = offered_value q - required_change q"
    and "\<not> is_partial q \<Longrightarrow> q_base_range q = (offered_value q, offered_value q)"
    using r(3) len
    by (cases rule: quote_terms_cases;
        simp add: is_partial_def required_change_def offered_value_def max_base_tokens_def r(2)
          split: list.splits; fail)+
qed

lemma max_base_tokens_le_offered:
  assumes "quote_wf lib q" and "mc_lib_ok lib"
  shows "max_base_tokens q \<le> offered_value q"
  using max_base_tokens_wf(1,2) [OF assms]
  by (simp add: word_le_nat_alt unat_sub)

lemma counter_tokens_cost_full:
  assumes "quote_wf lib q" and "\<not> is_partial q"
  shows "counter_tokens_cost lib q n =
    (if n = offered_value q then Ok (q_max_counter_tokens q) else Err (InsufficientBaseTokens n))"
proof -
  obtain rules c where r: "sci_input_rules (q_sci q) = Some rules"
      "quote_terms lib (q_sci q) rules = Ok (c, q_base_range q, q_max_counter_tokens q)"
    using assms(1) by (rule quote_wf_cases)
  from r(2) show ?thesis
    by (cases rule: quote_terms_cases)
      (use assms(2) r(1) in
        \<open>auto simp: counter_tokens_cost_def is_partial_def offered_value_def range_contains_def
          assert_that_def index_at_def\<close>)
qed

lemma counter_tokens_cost_partial:
  assumes "quote_wf lib q" and "is_partial q"
  shows "counter_tokens_cost lib q n =
    (if \<not> range_contains (q_base_range q) n then Err (InsufficientBaseTokens n)
     else if max_base_tokens q = 0 then Panic
     else Ok (u128_as_u64 (as_u128 (q_max_counter_tokens q) * as_u128 n
                             div as_u128 (offered_value q))))"
proof -
  obtain rules c where r: "sci_input_rules (q_sci q) = Some rules"
      "quote_terms lib (q_sci q) rules = Ok (c, q_base_range q, q_max_counter_tokens q)"
    using assms(1) by (rule quote_wf_cases)
  from r(2) show ?thesis
  proof (cases rule: quote_terms_cases)
    case (full a as)
    then show ?thesis using assms(2) r(1) by (simp add: is_partial_def)
  next
    case (partial p a)
    then show ?thesis
      using r(1)
      by (simp add: counter_tokens_cost_def offered_value_def range_contains_def max_base_tokens_def
          assert_that_def checked_div_u128_def)
  next
    case (change p a ch as)
    then show ?thesis
      using r(1)
      by (auto simp: counter_tokens_cost_def offered_value_def range_contains_def
          max_base_tokens_def assert_that_def index_at_def checked_div_u128_def Let_def
          order_less_le)
  qed
qed

text \<open>The quotient always fits in 64 bits: a fill never asks for more than the whole SCI offers.\<close>

lemma fill_le:
  assumes "n \<le> (d :: nat)"
  shows "m * n div d \<le> m"
proof (cases "d = 0")
  case False
  have "m * n div d \<le> m * d div d"
    using assms by (intro div_le_mono mult_le_mono2)
  with False show ?thesis by simp
qed simp

lemma mod_sum_div: "(a mod b + a' mod b) div (b :: nat) \<le> 1"
proof (cases "b = 0")
  case False
  then have "a mod b + a' mod b < 2 * b"
    using mod_less_divisor [of b a] mod_less_divisor [of b a'] by linarith
  then have "(a mod b + a' mod b) div b < 2"
    using False by (simp add: div_less_iff_less_mult)
  then show ?thesis by simp
qed simp

lemma counter_tokens_cost_value:
  assumes wf: "quote_wf lib q" and lib: "mc_lib_ok lib" and p: "is_partial q"
    and n: "range_contains (q_base_range q) n" and nz: "max_base_tokens q \<noteq> 0"
  obtains c where "counter_tokens_cost lib q n = Ok c"
    "unat c = unat (q_max_counter_tokens q) * unat n div unat (offered_value q)"
    "c \<le> q_max_counter_tokens q"
proof -
  let ?m = "q_max_counter_tokens q" and ?o = "offered_value q"
  have "unat n \<le> unat ?o"
    using n max_base_tokens_le_offered [OF wf lib]
    by (simp add: range_contains_def max_base_tokens_def word_le_nat_alt)
  then have le: "unat ?m * unat n div unat ?o \<le> unat ?m"
    by (rule fill_le)
  have "unat (as_u128 ?m * as_u128 n div as_u128 ?o) = unat ?m * unat n div unat ?o"
    by (simp add: unat_div_distrib)
  then have "unat (u128_as_u64 (as_u128 ?m * as_u128 n div as_u128 ?o)) =
      unat ?m * unat n div unat ?o"
    using le unat_u64_less [of ?m] by (simp add: unat_u128_as_u64)
  then show ?thesis
    using le that counter_tokens_cost_partial [OF wf p, of n] n nz
    by (simp add: word_le_nat_alt)
qed

section \<open>Lemmas on the order of quotes\<close>

text \<open>A rate is meaningful unless both sides are zero.\<close>

definition rated :: "quote \<Rightarrow> bool" where
  "rated q \<longleftrightarrow> max_base_tokens q \<noteq> 0 \<or> q_max_counter_tokens q \<noteq> 0"

definition rate_le :: "quote \<Rightarrow> quote \<Rightarrow> bool" where
  "rate_le a b \<longleftrightarrow>
     unat (max_base_tokens b) * unat (q_max_counter_tokens a) \<le>
     unat (max_base_tokens a) * unat (q_max_counter_tokens b)"

lemma ord_cmp_simps [simp]:
  "ord_cmp a b = Less \<longleftrightarrow> a < b" "ord_cmp a b = Equal \<longleftrightarrow> a = b" "ord_cmp a b = Greater \<longleftrightarrow> b < a"
  by (auto simp: ord_cmp_def)

lemma rate_le_total: "rate_le a b \<or> rate_le b a"
  by (auto simp: rate_le_def)

lemma cross_multiplication_trans:
  fixes ba bb bc :: nat
  assumes "bb * ca \<le> ba * cb" and "bc * cb \<le> bb * cc" and "bb \<noteq> 0 \<or> cb \<noteq> 0"
  shows "bc * ca \<le> ba * cc"
proof (cases "bb = 0")
  case True
  with assms show ?thesis by simp
next
  case False
  have "bb * (bc * ca) = bc * (bb * ca)" by (simp add: ac_simps)
  also have "\<dots> \<le> bc * (ba * cb)" using assms(1) by (rule mult_le_mono2)
  also have "\<dots> = ba * (bc * cb)" by (simp add: ac_simps)
  also have "\<dots> \<le> ba * (bb * cc)" using assms(2) by (rule mult_le_mono2)
  also have "\<dots> = bb * (ba * cc)" by (simp add: ac_simps)
  finally show ?thesis using False by simp
qed

lemma cross_multiplication_rat:
  fixes a b c d :: nat
  assumes "0 < c" and "0 < d"
  shows "(of_nat b / of_nat d :: rat) < of_nat a / of_nat c \<longleftrightarrow> b * c < a * d"
proof -
  have "(of_nat b / of_nat d :: rat) < of_nat a / of_nat c \<longleftrightarrow>
      (of_nat b * of_nat c :: rat) < of_nat a * of_nat d"
    using assms by (simp add: divide_simps)
  also have "\<dots> \<longleftrightarrow> b * c < a * d"
    by (simp only: of_nat_mult [symmetric] of_nat_less_iff)
  finally show ?thesis .
qed

lemma rate_le_trans:
  assumes "rate_le a b" and "rate_le b c" and "rated b"
  shows "rate_le a c"
  using cross_multiplication_trans [OF assms(1,2) [unfolded rate_le_def]] assms(3)
  by (simp add: rate_le_def rated_def unat_eq_zero)

text \<open>The comparison, written with the rate preorder.\<close>

lemma quote_cmp_Less:
  "quote_cmp a b = Less \<longleftrightarrow>
     q_pair a < q_pair b \<or> q_pair a = q_pair b \<and>
       (\<not> rate_le b a \<or> rate_le a b \<and> rate_le b a \<and>
          (q_timestamp a, q_id a) < (q_timestamp b, q_id b))"
  by (auto simp: quote_cmp_def Let_def rate_le_def less_prod_def' mult.commute)

lemma quote_cmp_Equal:
  "quote_cmp a b = Equal \<longleftrightarrow>
     q_pair a = q_pair b \<and> rate_le a b \<and> rate_le b a \<and> q_timestamp a = q_timestamp b \<and>
     q_id a = q_id b"
  by (auto simp: quote_cmp_def Let_def rate_le_def mult.commute)

lemma quote_cmp_swap: "quote_cmp a b = Greater \<longleftrightarrow> quote_cmp b a = Less"
  by (simp add: quote_cmp_def Let_def)

lemma quote_cmp_refl [simp]: "quote_cmp a a = Equal"
  by (simp add: quote_cmp_Equal rate_le_def mult.commute)

lemma quote_cmp_Less_trans:
  assumes "quote_cmp a b = Less" and "quote_cmp b c = Less" and "rated a" "rated b" "rated c"
  shows "quote_cmp a c = Less"
proof (cases "q_pair a = q_pair b \<and> q_pair b = q_pair c")
  case True
  have "(q_timestamp a, q_id a) < (q_timestamp b, q_id b) \<Longrightarrow>
      (q_timestamp b, q_id b) < (q_timestamp c, q_id c) \<Longrightarrow>
      (q_timestamp a, q_id a) < (q_timestamp c, q_id c)"
    by (rule order.strict_trans)
  with True assms show ?thesis
    unfolding quote_cmp_Less
    using rate_le_trans [of a b c] rate_le_trans [of c a b] rate_le_trans [of b c a]
      rate_le_trans [of c b a] rate_le_total [of a b] rate_le_total [of b c] rate_le_total [of a c]
    by (auto simp del: less_prod_simp)
next
  case False
  with assms(1,2) have "q_pair a < q_pair c"
    unfolding quote_cmp_Less by (auto dest: order.strict_trans)
  then show ?thesis
    by (simp add: quote_cmp_Less)
qed

section \<open>Sample data\<close>

text \<open>A concrete library and concrete SCIs, on which the theorems with hypotheses are applied.\<close>

definition sample_lib :: mc_lib where
  "sample_lib =
     \<lparr>sci_validate = (\<lambda>s. case sci_input_rules s of
        None \<Rightarrow> Ok ()
      | Some rules \<Rightarrow>
          if length (required_output_amounts s) = length (required_outputs rules)
          then Ok () else Err ''WrongNumberOfRequiredOutputAmounts''),
      reveal_amount = (\<lambda>r. case revealed_rest r of
        [t, v] \<Rightarrow> Ok \<lparr>amount_value = ucast v, amount_token_id = ucast t\<rparr>
      | _ \<Rightarrow> Err ''InvalidAmountShare''),
      sci_digest32 = (\<lambda>s. take 32 (sci_key_image s @ replicate 32 0)),
      validate_tombstone = (\<lambda>current tombstone.
        if tombstone \<le> current then Some ''TombstoneBlockExceeded''
        else if current + 20160 < tombstone then Some ''TombstoneBlockTooFar'' else None),
      hex_encode = concat \<circ> map (\<lambda>b. show_nat (unat b))\<rparr>"

definition sample_tx_out :: "u8 \<Rightarrow> tx_out" where
  "sample_tx_out n = \<lparr>public_key = [n], target_key = [n, 1], tx_out_rest = []\<rparr>"

text \<open>An SCI on key image \<open>[k]\<close> offering \<open>offered\<close> of token 0 for \<open>counter\<close> of token 1, whole
  (\<open>sample_full\<close>) or in parts of at least \<open>least\<close> with optional change (\<open>sample_partial\<close>).\<close>

definition sample_full :: "u8 \<Rightarrow> u64 \<Rightarrow> u64 \<Rightarrow> sci" where
  "sample_full k offered counter =
     \<lparr>ring = [sample_tx_out k],
      sci_input_rules = Some \<lparr>required_outputs = [sample_tx_out 0], max_tombstone_block = 100,
        partial_fill_outputs = [], partial_fill_change = None, min_partial_fill_value = 0\<rparr>,
      tx_out_global_indices = [ucast k],
      pseudo_output_amount = \<lparr>amount_value = offered, amount_token_id = 0\<rparr>,
      required_output_amounts = [\<lparr>amount_value = counter, amount_token_id = 1\<rparr>],
      sci_key_image = [k], sci_rest = []\<rparr>"

definition sample_partial :: "u8 \<Rightarrow> u64 \<Rightarrow> u64 \<Rightarrow> u8 \<Rightarrow> u64 option \<Rightarrow> sci" where
  "sample_partial k least offered counter change =
     \<lparr>ring = [sample_tx_out k],
      sci_input_rules = Some
        \<lparr>required_outputs = (case change of None \<Rightarrow> [] | Some _ \<Rightarrow> [sample_tx_out 0]),
         max_tombstone_block = 100,
         partial_fill_outputs = [\<lparr>revealed_output = sample_tx_out 1, revealed_rest = [1, counter]\<rparr>],
         partial_fill_change = None, min_partial_fill_value = least\<rparr>,
      tx_out_global_indices = [ucast k],
      pseudo_output_amount = \<lparr>amount_value = offered, amount_token_id = 0\<rparr>,
      required_output_amounts = (case change of None \<Rightarrow> []
        | Some c \<Rightarrow> [\<lparr>amount_value = c, amount_token_id = 0\<rparr>]),
      sci_key_image = [k], sci_rest = []\<rparr>"

text \<open>The quotes these SCIs give.\<close>

definition sample_full_quote :: "u8 \<Rightarrow> u64 \<Rightarrow> u64 \<Rightarrow> u64 \<Rightarrow> quote" where
  "sample_full_quote k offered counter t =
     \<lparr>q_sci = sample_full k offered counter, q_id = k # replicate 31 0, q_pair = Pair 0 1,
      q_base_range = (offered, offered), q_max_counter_tokens = counter, q_timestamp = t\<rparr>"

definition sample_partial_quote :: "u8 \<Rightarrow> u64 \<Rightarrow> u64 \<Rightarrow> u8 \<Rightarrow> u64 option \<Rightarrow> u64 \<Rightarrow> quote" where
  "sample_partial_quote k least offered counter change t =
     \<lparr>q_sci = sample_partial k least offered counter change, q_id = k # replicate 31 0,
      q_pair = Pair 0 1,
      q_base_range = (least, case change of None \<Rightarrow> offered | Some c \<Rightarrow> offered - c),
      q_max_counter_tokens = ucast counter, q_timestamp = t\<rparr>"

lemma sample_full_quote_simps [simp]:
  "q_pair (sample_full_quote k a c t) = Pair 0 1"
  "q_base_range (sample_full_quote k a c t) = (a, a)"
  "max_base_tokens (sample_full_quote k a c t) = a"
  "q_max_counter_tokens (sample_full_quote k a c t) = c"
  "q_timestamp (sample_full_quote k a c t) = t"
  "q_id (sample_full_quote k a c t) = k # replicate 31 0"
  "q_sci (sample_full_quote k a c t) = sample_full k a c"
  "sci_key_image (sample_full k a c) = [k]"
  "quote_tombstone (sample_full_quote k a c t) = 100"
  by (simp_all add: sample_full_quote_def sample_full_def max_base_tokens_def quote_tombstone_def)

lemma sample_full_quote_eq_iff [simp]:
  "sample_full_quote k a c t = sample_full_quote k' a' c' t' \<longleftrightarrow>
     k = k' \<and> a = a' \<and> c = c' \<and> t = t'"
  by (auto simp: sample_full_quote_def)

lemma sample_lib_ok: "mc_lib_ok sample_lib"
  by (auto simp: mc_lib_ok_def sample_lib_def split: option.splits list.splits if_splits)

lemma sample_full_quote_new:
  "quote_new sample_lib now (sample_full k offered counter) (Some t) =
     Ok (sample_full_quote k offered counter t)"
  by (simp add: quote_new_def sample_lib_def sample_full_def sample_full_quote_def quote_terms_def
      index_at_def quote_id_from_sci_def)

lemma sample_partial_quote_new:
  assumes "\<And>c. change = Some c \<Longrightarrow> c \<le> offered"
  shows "quote_new sample_lib now (sample_partial k least offered counter change) (Some t) =
     Ok (sample_partial_quote k least offered counter change t)"
  using assms
  by (simp add: quote_new_def sample_lib_def sample_partial_def sample_partial_quote_def
      quote_terms_def index_at_def quote_id_from_sci_def checked_sub_def split: option.splits)

lemmas sample_quotes_wf =
  quote_new_wf [OF sample_full_quote_new] quote_new_wf [OF sample_partial_quote_new]

section \<open>Properties\<close>

text \<open>
  A quote is determined by its SCI and timestamp: building it again from the SCI it carries
  and its timestamp, at any later time, gives the same quote. This is what lets a peer that
  receives a quote check it by rebuilding it.
\<close>

lemma quote_new_rebuild:
  assumes "quote_new lib now s ts = Ok q"
  shows "quote_new lib later (q_sci q) (Some (q_timestamp q)) = Ok q \<and> q_sci q = s \<and>
    q_id q = quote_id_from_sci lib s \<and> (\<forall>t. ts = Some t \<longrightarrow> q_timestamp q = t)"
  using assms by (auto simp: quote_new_eq_Ok split: option.splits)

lemma quote_new_rebuild_witness:
  "quote_new sample_lib 9 (sample_partial 1 10 100 20 (Some 7)) (Some 3) =
     Ok (sample_partial_quote 1 10 100 20 (Some 7) 3)"
  using quote_new_rebuild [OF sample_partial_quote_new [of "Some 7" 100 0 1 10 20 3], of 9]
  by (simp add: sample_partial_quote_def)

text \<open>
  The terms of a quote. The base token is the token of the pseudo output. The most base
  tokens it can provide is the offered amount less the required change, which never exceeds it. A
  quote without partial fill offers exactly the whole amount.
\<close>

lemma quote_new_terms:
  assumes "mc_lib_ok lib" and "quote_new lib now s ts = Ok q"
  shows "base_token_id (q_pair q) = amount_token_id (pseudo_output_amount s) \<and>
    required_change q \<le> offered_value q \<and>
    max_base_tokens q = offered_value q - required_change q \<and>
    (\<not> is_partial q \<longrightarrow> q_base_range q = (offered_value q, offered_value q))"
  using max_base_tokens_wf [OF quote_new_wf [OF assms(2)] assms(1)] assms(2)
  by (auto simp: quote_new_eq_Ok)

lemma quote_new_terms_witness:
  "max_base_tokens (sample_partial_quote 1 10 100 20 (Some 7) 3) = 93"
  using quote_new_terms [OF sample_lib_ok sample_partial_quote_new [of "Some 7" 100 0 1 10 20 3]]
  by (simp add: offered_value_def required_change_def is_partial_def sample_partial_quote_def
      sample_partial_def)

text \<open>
  C9: Creating a quote is total and well-typed. Whatever the SCI, the clock and the optional
  timestamp, \<open>Quote::new\<close> does not panic. A quote it returns satisfies the invariant of quotes,
  has a 32-byte identifier and offers the token of the SCI; the most base tokens it can provide is the
  amount the SCI holds less the required change, which does not exceed it, and without partial fill
  the quote is for exactly the whole amount. An error it returns is one of the four kinds about the
  SCI or the clock.
\<close>

theorem quote_new_typed:
  assumes "mc_lib_ok lib"
  shows "case quote_new lib now s ts of
      Ok q \<Rightarrow> quote_wf lib q \<and> q_sci q = s \<and> length (q_id q) = 32 \<and>
        base_token_id (q_pair q) = amount_token_id (pseudo_output_amount s) \<and>
        required_change q \<le> offered_value q \<and>
        max_base_tokens q = offered_value q - required_change q \<and>
        (\<not> is_partial q \<longrightarrow> q_base_range q = (offered_value q, offered_value q))
    | Err e \<Rightarrow> e = Time \<or> (\<exists>m. e = Sci m \<or> e = UnsupportedSci m \<or> e = RevealedTxOut m)
    | Panic \<Rightarrow> False"
proof (cases "quote_new lib now s ts")
  case (Ok q)
  then have "q_sci q = s" "q_id q = quote_id_from_sci lib s"
    by (auto simp: quote_new_eq_Ok)
  then show ?thesis
    using Ok quote_new_wf [OF Ok] quote_new_terms [OF assms Ok] assms
    by (simp add: mc_lib_ok_def quote_id_from_sci_def)
next
  case (Err e)
  then show ?thesis using quote_new_err_kind [OF Err] by simp
next
  case Panic
  then show ?thesis using quote_new_no_panic [OF assms] by blast
qed

theorem quote_new_typed_witness:
  "let q = sample_partial_quote 1 10 100 20 (Some 7) 3
   in length (q_id q) = 32 \<and> max_base_tokens q = offered_value q - required_change q"
proof -
  have "quote_new sample_lib 9 (sample_partial 1 10 100 20 (Some 7)) (Some 3) =
      Ok (sample_partial_quote 1 10 100 20 (Some 7) 3)"
    by (rule sample_partial_quote_new) simp
  then show ?thesis
    using quote_new_typed [OF sample_lib_ok, where now = 9 and ts = "Some 3" and
        s = "sample_partial 1 10 100 20 (Some 7)"] by simp
qed

text \<open>
  C2: The cost of a fill, on every branch. Outside the range of the quote it is the error
  \<open>InsufficientBaseTokens\<close>; a quote without partial fill costs its counter amount; a partial
  fill costs the fraction of the counter amount, rounded down, computed exactly: neither the
  128-bit product nor the narrowing to 64 bits loses anything. The one fill that panics is the
  empty fill of a partial quote that has nothing left to offer.
\<close>

theorem counter_tokens_cost_exact:
  assumes "mc_lib_ok lib" and "quote_wf lib q"
  shows "counter_tokens_cost lib q n =
    (if \<not> range_contains (q_base_range q) n then Err (InsufficientBaseTokens n)
     else if \<not> is_partial q then Ok (q_max_counter_tokens q)
     else if max_base_tokens q = 0 then Panic
     else Ok (of_nat (unat (q_max_counter_tokens q) * unat n div unat (offered_value q))))"
proof (cases "is_partial q")
  case False
  then show ?thesis
    using counter_tokens_cost_full [OF assms(2)] max_base_tokens_wf(3) [OF assms(2,1)]
    by (auto simp: range_contains_def)
next
  case True
  show ?thesis
  proof (cases "range_contains (q_base_range q) n \<and> max_base_tokens q \<noteq> 0")
    case in_range: True
    then obtain c where c: "counter_tokens_cost lib q n = Ok c"
        "unat c = unat (q_max_counter_tokens q) * unat n div unat (offered_value q)"
      using counter_tokens_cost_value [OF assms(2,1) True, of n] by blast
    have "c = of_nat (unat c)" by simp
    with c True in_range show ?thesis by simp
  qed (use counter_tokens_cost_partial [OF assms(2) True, of n] True in auto)
qed

theorem counter_tokens_cost_exact_witness:
  "counter_tokens_cost sample_lib (sample_partial_quote 1 10 100 20 (Some 7) 3) 33 = Ok 6"
  using counter_tokens_cost_exact [OF sample_lib_ok sample_quotes_wf(2), of "Some 7" 100 1 10 20 3 33]
  by (simp add: range_contains_def sample_partial_quote_def sample_partial_def is_partial_def
      max_base_tokens_def offered_value_def)

text \<open>
  C7: Fair partial fills. Taking more base tokens never costs less; no fill costs more than the
  counter amount of the quote; and splitting a fill in two saves at most one counter token, and
  never costs more than taking it at once.
\<close>

theorem counter_tokens_cost_fair:
  assumes "mc_lib_ok lib" and "quote_wf lib q" and "is_partial q"
    and "counter_tokens_cost lib q m = Ok c" and "counter_tokens_cost lib q n = Ok d"
  shows "(m \<le> n \<longrightarrow> c \<le> d) \<and> c \<le> q_max_counter_tokens q \<and>
    (\<forall>e. unat m + unat n < 2 ^ 64 \<and> counter_tokens_cost lib q (m + n) = Ok e \<longrightarrow>
       unat c + unat d \<le> unat e \<and> unat e \<le> unat c + unat d + 1)"
proof -
  let ?M = "unat (q_max_counter_tokens q)" and ?O = "unat (offered_value q)"
  have val: "unat y = ?M * unat x div ?O \<and> y \<le> q_max_counter_tokens q"
    if "counter_tokens_cost lib q x = Ok y" for x y
    using that counter_tokens_cost_partial [OF assms(2,3), of x]
      counter_tokens_cost_value [OF assms(2,1,3), of x]
    by (auto split: if_splits)
  have "m \<le> n \<longrightarrow> c \<le> d"
    using val [OF assms(4)] val [OF assms(5)]
    by (simp add: word_le_nat_alt div_le_mono)
  moreover have "unat c + unat d \<le> unat e \<and> unat e \<le> unat c + unat d + 1"
    if "unat m + unat n < 2 ^ 64" "counter_tokens_cost lib q (m + n) = Ok e" for e
  proof -
    have "unat (m + n) = unat m + unat n"
      using that(1) by (simp add: unat_word_ariths)
    then have "unat e = (?M * unat m + ?M * unat n) div ?O"
      using val [OF that(2)] by (simp add: algebra_simps)
    also have "\<dots> = ?M * unat m div ?O + ?M * unat n div ?O +
        (?M * unat m mod ?O + ?M * unat n mod ?O) div ?O"
      by (rule div_add1_eq)
    finally have "unat e = unat c + unat d + (?M * unat m mod ?O + ?M * unat n mod ?O) div ?O"
      using val [OF assms(4)] val [OF assms(5)] by simp
    then show ?thesis
      using mod_sum_div [of "?M * unat m" ?O "?M * unat n"] by simp
  qed
  ultimately show ?thesis
    using val [OF assms(4)] by blast
qed

theorem counter_tokens_cost_fair_witness:
  "counter_tokens_cost sample_lib (sample_partial_quote 1 10 100 20 (Some 7) 3) 34 = Ok 6 \<and>
   counter_tokens_cost sample_lib (sample_partial_quote 1 10 100 20 (Some 7) 3) 68 = Ok 13 \<and>
   unat (6 :: u64) + unat (6 :: u64) \<le> unat (13 :: u64)"
proof -
  let ?q = "sample_partial_quote 1 10 100 20 (Some 7) 3"
  have wf: "quote_wf sample_lib ?q"
    by (rule sample_quotes_wf(2)) simp
  have p: "is_partial ?q"
    by (simp add: is_partial_def sample_partial_quote_def sample_partial_def)
  have cost: "counter_tokens_cost sample_lib ?q 34 = Ok 6"
      "counter_tokens_cost sample_lib ?q 68 = Ok 13"
    unfolding counter_tokens_cost_partial [OF wf p]
    by (simp_all add: u128_as_u64_def as_u128_def range_contains_def sample_partial_quote_def
        sample_partial_def max_base_tokens_def offered_value_def)
  show ?thesis
    using counter_tokens_cost_fair [OF sample_lib_ok wf p cost(1) cost(1)] cost by simp
qed

text \<open>
  C5: The order on quotes. On quotes whose rate is meaningful (not 0 for 0) the comparison is a
  strict order: transitive, asymmetric, and two quotes that compare equal have the same pair,
  timestamp and identifier. It puts a quote of the same pair that gives strictly more base tokens
  for each counter token first, with no rounding and no overflow in the products.
\<close>

theorem quote_cmp_order:
  assumes "rated a" and "rated b" and "rated c"
  shows "(quote_cmp a b = Less \<and> quote_cmp b c = Less \<longrightarrow> quote_cmp a c = Less) \<and>
    (quote_cmp a b = Less \<longleftrightarrow> quote_cmp b a = Greater) \<and>
    (quote_cmp a b = Equal \<longrightarrow>
       q_pair a = q_pair b \<and> q_timestamp a = q_timestamp b \<and> q_id a = q_id b) \<and>
    (q_pair a = q_pair b \<and> q_max_counter_tokens a \<noteq> 0 \<and> q_max_counter_tokens b \<noteq> 0 \<and>
     (of_nat (unat (max_base_tokens b)) / of_nat (unat (q_max_counter_tokens b)) :: rat) <
       of_nat (unat (max_base_tokens a)) / of_nat (unat (q_max_counter_tokens a)) \<longrightarrow>
     quote_cmp a b = Less)"
proof -
  have "quote_cmp a b = Less"
    if "q_pair a = q_pair b" "q_max_counter_tokens a \<noteq> 0" "q_max_counter_tokens b \<noteq> 0"
      "(of_nat (unat (max_base_tokens b)) / of_nat (unat (q_max_counter_tokens b)) :: rat) <
         of_nat (unat (max_base_tokens a)) / of_nat (unat (q_max_counter_tokens a))"
  proof -
    have "0 < unat (q_max_counter_tokens a)" "0 < unat (q_max_counter_tokens b)"
      using that(2,3) by (simp_all add: unat_gt_0)
    then have "\<not> rate_le b a"
      using that(4) by (simp only: cross_multiplication_rat rate_le_def not_le)
    with that(1) show ?thesis by (simp add: quote_cmp_Less)
  qed
  then show ?thesis
    using quote_cmp_Less_trans [OF _ _ assms] quote_cmp_swap [of b a] by (auto simp: quote_cmp_Equal)
qed

theorem quote_cmp_order_witness:
  "quote_cmp (sample_full_quote 1 100 10 5) (sample_full_quote 2 100 20 4) = Less"
  using quote_cmp_order [of "sample_full_quote 1 100 10 5" "sample_full_quote 2 100 20 4"
      "sample_full_quote 2 100 20 4"]
  by (simp add: rated_def sample_full_quote_def max_base_tokens_def)

section \<open>Divergences\<close>

text \<open>\<open>Quote::new\<close> accepts an SCI whose required change equals the amount it offers, but asking
  what the only possible fill costs trips the assertion in \<open>counter_tokens_cost\<close>.\<close>

theorem counter_tokens_cost_panics:
  "quote_new sample_lib 0 (sample_partial 1 0 100 20 (Some 100)) (Some 3) =
     Ok (sample_partial_quote 1 0 100 20 (Some 100) 3) \<and>
   counter_tokens_cost sample_lib (sample_partial_quote 1 0 100 20 (Some 100) 3) 0 = Panic"
proof
  show "counter_tokens_cost sample_lib (sample_partial_quote 1 0 100 20 (Some 100) 3) 0 = Panic"
    using counter_tokens_cost_partial [OF sample_quotes_wf(2), of "Some 100" 100 1 0 20 3 0]
    by (simp add: is_partial_def range_contains_def max_base_tokens_def sample_partial_quote_def
        sample_partial_def)
qed (rule sample_partial_quote_new, simp)

text \<open>\<open>max_counter_tokens\<close> is documented as the price of all available base tokens. With required
  change it is more than that: here 50 base tokens are available, they cost 10 counter tokens, and
  \<open>max_counter_tokens\<close> is 20.\<close>

theorem max_counter_tokens_overstated:
  "max_base_tokens (sample_partial_quote 1 0 100 20 (Some 50) 3) = 50 \<and>
   q_max_counter_tokens (sample_partial_quote 1 0 100 20 (Some 50) 3) = 20 \<and>
   counter_tokens_cost sample_lib (sample_partial_quote 1 0 100 20 (Some 50) 3) 50 = Ok 10"
  using counter_tokens_cost_partial [OF sample_quotes_wf(2), of "Some 50" 100 1 0 20 3 50]
  by (simp add: is_partial_def range_contains_def max_base_tokens_def offered_value_def
      sample_partial_quote_def sample_partial_def u128_as_u64_def as_u128_def)

text \<open>A quote for nothing against nothing ties with every rate, so the comparison is not
  transitive once such a quote is present.\<close>

theorem quote_cmp_unrated_cycle:
  "quote_cmp (sample_full_quote 1 100 20 1) (sample_full_quote 2 0 0 2) = Less \<and>
   quote_cmp (sample_full_quote 2 0 0 2) (sample_full_quote 3 100 10 3) = Less \<and>
   quote_cmp (sample_full_quote 3 100 10 3) (sample_full_quote 1 100 20 1) = Less"
  by (simp add: quote_cmp_Less rate_le_def sample_full_quote_def max_base_tokens_def)

end
