(* ===== verification/Quote_Book_Spec.thy ===== *)
theory Quote_Book_Spec
  imports Quote
begin

text \<open>
  The trait \<open>QuoteBook\<close> (\<open>quote-book/api/src/quote_book.rs\<close>). A value of the record
  \<open>quote_book_ops\<close> is an implementation of the trait: one field per required method, each taking
  the state of the book and, when it changes the book, returning the new state. The provided
  method \<open>add_sci\<close> is a definition over the record.

  The contract of the trait is stated on the set of quotes a book holds: what each method may
  answer and how the set changes. The locale \<open>quote_book\<close> collects the laws; the locale
  \<open>reliable_quote_book\<close> adds that a method fails only for the reasons the trait names.
\<close>

section \<open>The trait\<close>

datatype bound = Included u64 | Excluded u64 | Unbounded

type_synonym range_bounds = "bound \<times> bound"

record 's quote_book_ops =
  add_quote :: "quote \<Rightarrow> 's \<Rightarrow> (unit, error) result \<times> 's"
  remove_quote_by_id :: "quote_id \<Rightarrow> 's \<Rightarrow> (quote, error) result \<times> 's"
  remove_quotes_by_key_image :: "key_image \<Rightarrow> 's \<Rightarrow> (quote list, error) result \<times> 's"
  remove_quotes_by_tombstone_block :: "block_index \<Rightarrow> 's \<Rightarrow> (quote list, error) result \<times> 's"
  get_quotes :: "pair \<Rightarrow> range_bounds \<Rightarrow> nat \<Rightarrow> 's \<Rightarrow> (quote list, error) result"
  get_quote_ids :: "pair option \<Rightarrow> 's \<Rightarrow> (quote_id list, error) result"
  get_quote_by_id :: "quote_id \<Rightarrow> 's \<Rightarrow> (quote option, error) result"
  num_scis :: "'s \<Rightarrow> (u64, error) result"

definition add_sci ::
  "mc_lib \<Rightarrow> 's quote_book_ops \<Rightarrow> int \<Rightarrow> sci \<Rightarrow> u64 option \<Rightarrow> 's \<Rightarrow> (quote, error) result \<times> 's" where
  "add_sci lib ops now s timestamp st =
     (case quote_new lib now s timestamp of
        Ok q \<Rightarrow> (case add_quote ops q st of
           (Ok _, st') \<Rightarrow> (Ok q, st')
         | (Err e, st') \<Rightarrow> (Err e, st')
         | (Panic, st') \<Rightarrow> (Panic, st'))
      | Err e \<Rightarrow> (Err e, st)
      | Panic \<Rightarrow> (Panic, st))"

section \<open>Ranges\<close>

fun bound_start :: "bound \<Rightarrow> u64" where
  "bound_start (Included n) = n"
| "bound_start (Excluded n) = saturating_add n 1"
| "bound_start Unbounded = 0"

fun bound_end :: "bound \<Rightarrow> u64" where
  "bound_end (Included n) = n"
| "bound_end (Excluded n) = saturating_sub n 1"
| "bound_end Unbounded = u64_max"

text \<open>Membership in a range, as \<open>RangeBounds::contains\<close> defines it.\<close>

fun above_start :: "bound \<Rightarrow> u64 \<Rightarrow> bool" where
  "above_start (Included n) x \<longleftrightarrow> n \<le> x"
| "above_start (Excluded n) x \<longleftrightarrow> n < x"
| "above_start Unbounded x \<longleftrightarrow> True"

fun below_end :: "bound \<Rightarrow> u64 \<Rightarrow> bool" where
  "below_end (Included n) x \<longleftrightarrow> x \<le> n"
| "below_end (Excluded n) x \<longleftrightarrow> x < n"
| "below_end Unbounded x \<longleftrightarrow> True"

definition in_range :: "range_bounds \<Rightarrow> u64 \<Rightarrow> bool" where
  "in_range r x \<longleftrightarrow> above_start (fst r) x \<and> below_end (snd r) x"

definition range_overlaps :: "range_bounds \<Rightarrow> range_bounds \<Rightarrow> bool" where
  "range_overlaps x y \<longleftrightarrow>
     bound_start (fst x) \<le> bound_end (snd y) \<and> bound_start (fst y) \<le> bound_end (snd x)"

definition range_inclusive :: "u64 \<times> u64 \<Rightarrow> range_bounds" where
  "range_inclusive r = (Included (fst r), Included (snd r))"

lemma above_start_iff:
  assumes "above_start b y"
  shows "above_start b x \<longleftrightarrow> bound_start b \<le> x"
  using assms
proof (cases b)
  case (Excluded n)
  with assms have "unat n + 1 < 2 ^ 64"
    using unat_u64_less [of y] by (simp add: word_less_nat_alt)
  then have "unat (saturating_add n 1) = unat n + 1"
    by (simp add: unat_saturating_add)
  with Excluded show ?thesis
    by (simp add: word_less_nat_alt word_le_nat_alt Suc_le_eq)
qed simp_all

lemma below_end_iff:
  assumes "below_end b y"
  shows "below_end b x \<longleftrightarrow> x \<le> bound_end b"
  using assms
proof (cases b)
  case (Excluded n)
  with assms have "0 < unat n"
    by (simp add: word_less_nat_alt)
  with Excluded show ?thesis
    by (auto simp: word_less_nat_alt word_le_nat_alt unat_saturating_sub)
qed simp_all

lemma in_range_iff:
  assumes "in_range r y"
  shows "in_range r x \<longleftrightarrow> bound_start (fst r) \<le> x \<and> x \<le> bound_end (snd r)"
  using assms above_start_iff [of "fst r" y x] below_end_iff [of "snd r" y x]
  by (simp add: in_range_def)

section \<open>The contract\<close>

text \<open>A quote has expired when it has a tombstone block and that has been reached.\<close>

definition expired_at :: "block_index \<Rightarrow> quote \<Rightarrow> bool" where
  "expired_at n q \<longleftrightarrow> quote_tombstone q \<noteq> 0 \<and> quote_tombstone q \<le> n"

text \<open>The library's own test. It also rejects a tombstone block that is too far ahead.\<close>

definition past_tombstone :: "mc_lib \<Rightarrow> block_index \<Rightarrow> quote \<Rightarrow> bool" where
  "past_tombstone lib current q \<longleftrightarrow>
     quote_tombstone q \<noteq> 0 \<and> validate_tombstone lib current (quote_tombstone q) \<noteq> None"

text \<open>Block indexes at which the two tests agree, in the range of a signed 64-bit integer.\<close>

definition tombstones_regular :: "mc_lib \<Rightarrow> block_index \<Rightarrow> quote set \<Rightarrow> bool" where
  "tombstones_regular lib n B \<longleftrightarrow> unat n < 2 ^ 63 \<and>
     (\<forall>x\<in>B. unat (quote_tombstone x) < 2 ^ 63 \<and> (past_tombstone lib n x \<longleftrightarrow> expired_at n x))"

text \<open>Two quotes clash when they spend the same input for the same pair.\<close>

definition clash :: "quote \<Rightarrow> quote \<Rightarrow> bool" where
  "clash q x \<longleftrightarrow> q_pair q = q_pair x \<and> quote_key_image q = quote_key_image x"

definition book_inv :: "quote set \<Rightarrow> bool" where
  "book_inv B \<longleftrightarrow> finite B \<and> (\<forall>x\<in>B. rated x \<and> length (q_id x) = 32) \<and> inj_on q_id B \<and>
     (\<forall>x\<in>B. \<forall>y\<in>B. clash x y \<longrightarrow> x = y)"

text \<open>A quote may be offered to a book when its rate is meaningful and its identifier, the 32-byte
  hash of its SCI, does not collide with the one of another input or pair.\<close>

definition admissible :: "quote \<Rightarrow> quote set \<Rightarrow> bool" where
  "admissible q B \<longleftrightarrow>
     rated q \<and> length (q_id q) = 32 \<and> (\<forall>x\<in>B. q_id x = q_id q \<longrightarrow> clash q x)"

text \<open>A set of quotes any of which may be offered to a book that holds any others.\<close>

definition coherent :: "quote set \<Rightarrow> bool" where
  "coherent U \<longleftrightarrow> (\<forall>x\<in>U. rated x \<and> length (q_id x) = 32) \<and>
     (\<forall>x\<in>U. \<forall>y\<in>U. q_id x = q_id y \<longrightarrow> clash x y)"

lemma coherent_subset: "coherent U \<Longrightarrow> V \<subseteq> U \<Longrightarrow> coherent V"
  unfolding coherent_def by blast

lemma coherent_admissible: "coherent U \<Longrightarrow> B \<subseteq> U \<Longrightarrow> q \<in> U \<Longrightarrow> admissible q B"
  by (auto simp: coherent_def admissible_def)

text \<open>Well-formed quotes are coherent when the hash does not collide on their SCIs.\<close>

lemma coherent_digest:
  assumes "mc_lib_ok lib" and "\<forall>x\<in>U. quote_wf lib x \<and> rated x" and "inj_on (sci_digest32 lib) (q_sci ` U)"
  shows "coherent U"
proof -
  have id: "q_id x = sci_digest32 lib (q_sci x)" if "x \<in> U" for x
  proof -
    have "quote_wf lib x" using that assms(2) by blast
    then show ?thesis by (rule quote_wf_cases) (simp add: quote_id_from_sci_def)
  qed
  have "clash x y" if "x \<in> U" "y \<in> U" "q_id x = q_id y" for x y
  proof -
    have sci: "q_sci x = q_sci y"
      using that id assms(3) by (auto simp: inj_on_def)
    moreover have "q_pair x = q_pair y"
    proof -
      have wf: "quote_wf lib x" "quote_wf lib y" using that(1,2) assms(2) by blast+
      obtain rules c where x: "sci_input_rules (q_sci x) = Some rules"
          "quote_terms lib (q_sci x) rules = Ok (c, q_base_range x, q_max_counter_tokens x)"
          "q_pair x = Pair (amount_token_id (pseudo_output_amount (q_sci x))) c"
        using wf(1) by (rule quote_wf_cases)
      obtain rules' c' where y: "sci_input_rules (q_sci y) = Some rules'"
          "quote_terms lib (q_sci y) rules' = Ok (c', q_base_range y, q_max_counter_tokens y)"
          "q_pair y = Pair (amount_token_id (pseudo_output_amount (q_sci y))) c'"
        using wf(2) by (rule quote_wf_cases)
      show ?thesis using x y sci by simp
    qed
    ultimately show ?thesis by (simp add: clash_def)
  qed
  then show ?thesis
    using assms(1,2) id by (simp add: coherent_def mc_lib_okD(3))
qed

definition add_spec ::
  "quote \<Rightarrow> quote set \<Rightarrow> (unit, error) result \<Rightarrow> quote set \<Rightarrow> bool" where
  "add_spec q B r B' \<longleftrightarrow>
     (case r of
        Ok _ \<Rightarrow> (\<forall>x\<in>B. \<not> clash q x) \<and> B' = insert q B
      | Err e \<Rightarrow> B' = B \<and> (\<forall>x. e = QuoteAlreadyExists x \<longrightarrow> x \<in> B \<and> clash q x)
      | Panic \<Rightarrow> False)"

definition remove_id_spec ::
  "quote_id \<Rightarrow> quote set \<Rightarrow> (quote, error) result \<Rightarrow> quote set \<Rightarrow> bool" where
  "remove_id_spec i B r B' \<longleftrightarrow>
     (case r of
        Ok q \<Rightarrow> q \<in> B \<and> q_id q = i \<and> B' = B - {q}
      | Err e \<Rightarrow> B' = B \<and> (e = QuoteNotFound \<longrightarrow> (\<forall>x\<in>B. q_id x \<noteq> i))
      | Panic \<Rightarrow> False)"

definition remove_where_spec ::
  "(quote \<Rightarrow> bool) \<Rightarrow> quote set \<Rightarrow> (quote list, error) result \<Rightarrow> quote set \<Rightarrow> bool" where
  "remove_where_spec P B r B' \<longleftrightarrow>
     (case r of
        Ok qs \<Rightarrow> distinct qs \<and> set qs = {x \<in> B. P x} \<and> B' = {x \<in> B. \<not> P x}
      | Err e \<Rightarrow> B' = B
      | Panic \<Rightarrow> False)"

definition limited :: "nat \<Rightarrow> 'a list \<Rightarrow> 'a list" where
  "limited limit xs = (if limit = 0 then xs else take limit xs)"

definition get_quotes_spec ::
  "pair \<Rightarrow> range_bounds \<Rightarrow> nat \<Rightarrow> quote set \<Rightarrow> (quote list, error) result \<Rightarrow> bool" where
  "get_quotes_spec p rng limit B r \<longleftrightarrow>
     (case r of
        Ok qs \<Rightarrow> (\<exists>full. qs = limited limit full \<and>
          sorted_wrt (\<lambda>a b. quote_cmp a b = Less) full \<and>
          set full =
            {x \<in> B. q_pair x = p \<and> range_overlaps rng (range_inclusive (q_base_range x))})
      | Err e \<Rightarrow> True
      | Panic \<Rightarrow> False)"

definition get_quote_ids_spec ::
  "pair option \<Rightarrow> quote set \<Rightarrow> (quote_id list, error) result \<Rightarrow> bool" where
  "get_quote_ids_spec po B r \<longleftrightarrow>
     (case r of
        Ok is \<Rightarrow> distinct is \<and> set is = q_id ` {x \<in> B. po = None \<or> po = Some (q_pair x)}
      | Err e \<Rightarrow> True
      | Panic \<Rightarrow> False)"

definition get_quote_by_id_spec ::
  "quote_id \<Rightarrow> quote set \<Rightarrow> (quote option, error) result \<Rightarrow> bool" where
  "get_quote_by_id_spec i B r \<longleftrightarrow>
     (case r of
        Ok None \<Rightarrow> (\<forall>x\<in>B. q_id x \<noteq> i)
      | Ok (Some q) \<Rightarrow> q \<in> B \<and> q_id q = i
      | Err e \<Rightarrow> True
      | Panic \<Rightarrow> False)"

definition num_scis_spec :: "quote set \<Rightarrow> (u64, error) result \<Rightarrow> bool" where
  "num_scis_spec B r \<longleftrightarrow>
     (case r of Ok n \<Rightarrow> n = of_nat (card B) | Err e \<Rightarrow> True | Panic \<Rightarrow> False)"

lemmas book_specs = add_spec_def remove_id_spec_def remove_where_spec_def get_quotes_spec_def
  get_quote_ids_spec_def get_quote_by_id_spec_def num_scis_spec_def

locale quote_book =
  fixes lib :: mc_lib
    and ops :: "'s quote_book_ops"
    and abs :: "'s \<Rightarrow> quote set"
    and inv :: "'s \<Rightarrow> bool"
  assumes inv_book: "inv s \<Longrightarrow> book_inv (abs s)"
    and add_law: "\<lbrakk>inv s; admissible q (abs s); add_quote ops q s = (r, s')\<rbrakk>
      \<Longrightarrow> inv s' \<and> add_spec q (abs s) r (abs s')"
    and remove_id_law: "\<lbrakk>inv s; remove_quote_by_id ops i s = (r1, s')\<rbrakk>
      \<Longrightarrow> inv s' \<and> remove_id_spec i (abs s) r1 (abs s')"
    and remove_key_image_law: "\<lbrakk>inv s; remove_quotes_by_key_image ops k s = (r2, s')\<rbrakk>
      \<Longrightarrow> inv s' \<and> remove_where_spec (\<lambda>x. quote_key_image x = k) (abs s) r2 (abs s')"
    and remove_tombstone_law: "\<lbrakk>inv s; tombstones_regular lib n (abs s);
        remove_quotes_by_tombstone_block ops n s = (r2, s')\<rbrakk>
      \<Longrightarrow> inv s' \<and> remove_where_spec (expired_at n) (abs s) r2 (abs s')"
    and get_quotes_law: "inv s \<Longrightarrow> get_quotes_spec p rng limit (abs s) (get_quotes ops p rng limit s)"
    and get_quote_ids_law: "inv s \<Longrightarrow> get_quote_ids_spec po (abs s) (get_quote_ids ops po s)"
    and get_quote_by_id_law: "inv s \<Longrightarrow> get_quote_by_id_spec i (abs s) (get_quote_by_id ops i s)"
    and num_scis_law: "inv s \<Longrightarrow> num_scis_spec (abs s) (num_scis ops s)"

locale reliable_quote_book = quote_book +
  assumes add_reliable: "\<lbrakk>inv s; admissible q (abs s); add_quote ops q s = (Err e, s')\<rbrakk>
      \<Longrightarrow> \<exists>x. e = QuoteAlreadyExists x"
    and remove_id_reliable: "\<lbrakk>inv s; remove_quote_by_id ops i s = (Err e, s')\<rbrakk> \<Longrightarrow> e = QuoteNotFound"
    and remove_key_image_reliable: "inv s \<Longrightarrow> \<not> is_err (fst (remove_quotes_by_key_image ops k s))"
    and remove_tombstone_reliable:
      "inv s \<Longrightarrow> \<not> is_err (fst (remove_quotes_by_tombstone_block ops n s))"
    and getters_reliable: "inv s \<Longrightarrow> \<not> is_err (get_quotes ops p rng limit s)"
      "inv s \<Longrightarrow> \<not> is_err (get_quote_ids ops po s)"
      "inv s \<Longrightarrow> \<not> is_err (get_quote_by_id ops i s)" "inv s \<Longrightarrow> \<not> is_err (num_scis ops s)"

section \<open>Clients of the contract\<close>

text \<open>One call of a method that changes the book; adding is restricted to admissible quotes and
  expiry to block indexes at which the tombstone tests agree.\<close>

inductive book_step ::
  "mc_lib \<Rightarrow> 's quote_book_ops \<Rightarrow> ('s \<Rightarrow> quote set) \<Rightarrow> 's \<Rightarrow> 's \<Rightarrow> bool"
  for lib :: mc_lib and ops :: "'s quote_book_ops" and abs :: "'s \<Rightarrow> quote set" where
  step_add: "\<lbrakk>admissible q (abs s); add_quote ops q s = (r, s')\<rbrakk> \<Longrightarrow> book_step lib ops abs s s'"
| step_remove_id: "remove_quote_by_id ops i s = (r, s') \<Longrightarrow> book_step lib ops abs s s'"
| step_remove_key_image:
    "remove_quotes_by_key_image ops k s = (r, s') \<Longrightarrow> book_step lib ops abs s s'"
| step_remove_tombstone:
    "\<lbrakk>tombstones_regular lib n (abs s); remove_quotes_by_tombstone_block ops n s = (r, s')\<rbrakk>
      \<Longrightarrow> book_step lib ops abs s s'"

abbreviation book_steps ::
  "mc_lib \<Rightarrow> 's quote_book_ops \<Rightarrow> ('s \<Rightarrow> quote set) \<Rightarrow> 's \<Rightarrow> 's \<Rightarrow> bool" where
  "book_steps lib ops absf \<equiv> (book_step lib ops absf)\<^sup>*\<^sup>*"

lemma remove_where_spec_cong:
  assumes "\<And>x. x \<in> B \<Longrightarrow> P x \<longleftrightarrow> Q x"
  shows "remove_where_spec P B r B' \<longleftrightarrow> remove_where_spec Q B r B'"
proof -
  have "{x \<in> B. P x} = {x \<in> B. Q x}" "{x \<in> B. \<not> P x} = {x \<in> B. \<not> Q x}"
    using assms by auto
  then show ?thesis by (cases r) (simp_all add: remove_where_spec_def)
qed

lemma remove_where_spec_mono:
  "remove_where_spec P B r B' \<Longrightarrow> B' \<subseteq> B"
  by (auto simp: remove_where_spec_def split: result.splits)

lemma remove_where_spec_result:
  "remove_where_spec P B r B' \<Longrightarrow>
     r \<noteq> Panic \<and> (\<forall>qs. r = Ok qs \<longrightarrow> (\<forall>x\<in>B'. \<not> P x) \<and> set qs = B - B' \<and> distinct qs)"
  by (auto simp: remove_where_spec_def split: result.splits)

context quote_book
begin

lemma book_step_inv: "book_step lib ops abs s s' \<Longrightarrow> inv s \<Longrightarrow> inv s'"
  by (induction rule: book_step.induct)
    (blast dest: add_law remove_id_law remove_key_image_law remove_tombstone_law)+

lemma book_steps_inv:
  assumes "book_steps lib ops abs s s'" and "inv s"
  shows "inv s'"
  using assms by (induction rule: rtranclp_induct) (auto intro: book_step_inv)

lemma no_panic:
  assumes "inv s"
  shows "admissible q (abs s) \<Longrightarrow> fst (add_quote ops q s) \<noteq> Panic"
    and "fst (remove_quote_by_id ops i s) \<noteq> Panic"
    and "fst (remove_quotes_by_key_image ops k s) \<noteq> Panic"
    and "tombstones_regular lib n (abs s) \<Longrightarrow>
      fst (remove_quotes_by_tombstone_block ops n s) \<noteq> Panic"
    and "get_quotes ops p rng limit s \<noteq> Panic"
    and "get_quote_ids ops po s \<noteq> Panic"
    and "get_quote_by_id ops i s \<noteq> Panic"
    and "num_scis ops s \<noteq> Panic"
proof -
  show "admissible q (abs s) \<Longrightarrow> fst (add_quote ops q s) \<noteq> Panic"
    using add_law [OF assms, of q] by (cases "add_quote ops q s") (auto simp: add_spec_def)
  show "fst (remove_quote_by_id ops i s) \<noteq> Panic"
    using remove_id_law [OF assms, of i]
    by (cases "remove_quote_by_id ops i s") (auto simp: remove_id_spec_def)
  show "fst (remove_quotes_by_key_image ops k s) \<noteq> Panic"
    using remove_key_image_law [OF assms, of k]
    by (cases "remove_quotes_by_key_image ops k s") (auto simp: remove_where_spec_def)
  show "tombstones_regular lib n (abs s) \<Longrightarrow>
      fst (remove_quotes_by_tombstone_block ops n s) \<noteq> Panic"
    using remove_tombstone_law [OF assms, of n]
    by (cases "remove_quotes_by_tombstone_block ops n s") (auto simp: remove_where_spec_def)
  show "get_quotes ops p rng limit s \<noteq> Panic"
    using get_quotes_law [OF assms, of p rng limit] by (auto simp: get_quotes_spec_def)
  show "get_quote_ids ops po s \<noteq> Panic"
    using get_quote_ids_law [OF assms, of po] by (auto simp: get_quote_ids_spec_def)
  show "get_quote_by_id ops i s \<noteq> Panic"
    using get_quote_by_id_law [OF assms, of i] by (auto simp: get_quote_by_id_spec_def)
  show "num_scis ops s \<noteq> Panic"
    using num_scis_law [OF assms] by (auto simp: num_scis_spec_def)
qed

lemma get_quote_by_id_found:
  assumes "inv s" and "q \<in> abs s" and "get_quote_by_id ops (q_id q) s = Ok res"
  shows "res = Some q"
  using get_quote_by_id_law [OF assms(1), of "q_id q"] inv_book [OF assms(1)] assms(2,3)
  by (auto simp: get_quote_by_id_spec_def book_inv_def inj_on_def split: option.splits)

lemma get_quote_by_id_missing:
  assumes "inv s" and "\<forall>x\<in>abs s. q_id x \<noteq> i" and "get_quote_by_id ops i s = Ok res"
  shows "res = None"
  using get_quote_by_id_law [OF assms(1), of i] assms(2,3)
  by (auto simp: get_quote_by_id_spec_def split: option.splits)

text \<open>What is added can be looked up, and what is removed cannot any more.\<close>

lemma add_then_get:
  assumes "inv s" and "admissible q (abs s)" and "add_quote ops q s = (Ok u, s')"
    and "get_quote_by_id ops (q_id q) s' = Ok res"
  shows "res = Some q"
  using get_quote_by_id_found [of s' q] add_law [OF assms(1-3)] assms(4)
  by (simp add: add_spec_def)

lemma remove_then_get:
  assumes "inv s" and "remove_quote_by_id ops i s = (Ok q, s')" and "get_quote_by_id ops i s' = Ok res"
  shows "res = None"
proof -
  have "inv s'" and rm: "q \<in> abs s" "q_id q = i" "abs s' = abs s - {q}"
    using remove_id_law [OF assms(1,2)] by (simp_all add: remove_id_spec_def)
  moreover have "\<forall>x\<in>abs s'. q_id x \<noteq> i"
    using rm inv_book [OF assms(1)] by (auto simp: book_inv_def inj_on_def)
  ultimately show ?thesis
    using get_quote_by_id_missing assms(3) by blast
qed

end

text \<open>The quotes that can be created from SCIs with a timestamp.\<close>

definition offered_quotes :: "mc_lib \<Rightarrow> int \<Rightarrow> u64 \<Rightarrow> sci set \<Rightarrow> quote set" where
  "offered_quotes lib now t S = {q. \<exists>s\<in>S. quote_new lib now s (Some t) = Ok q}"

lemma clash_refl [simp]: "clash q q"
  by (simp add: clash_def)

context quote_book
begin

lemma add_sci_law:
  assumes lib: "mc_lib_ok lib" and b: "inv b" and U: "coherent U" "abs b \<subseteq> U"
      "offered_quotes lib now t {s} \<subseteq> U"
    and run: "add_sci lib ops now s (Some t) b = (r, b')"
  shows "inv b' \<and> r \<noteq> Panic \<and>
    (\<forall>q. r = Ok q \<longrightarrow> quote_new lib now s (Some t) = Ok q \<and> q \<notin> abs b \<and> abs b' = insert q (abs b)) \<and>
    (\<forall>e. r = Err e \<longrightarrow> abs b' = abs b \<and>
       (\<forall>x. e = QuoteAlreadyExists x \<longrightarrow> x \<in> abs b \<and> (\<exists>q. quote_new lib now s (Some t) = Ok q \<and> clash q x)))"
proof (cases "quote_new lib now s (Some t)")
  case (Ok q)
  then have q: "admissible q (abs b)"
    using coherent_admissible [OF U(1,2)] U(3) by (auto simp: offered_quotes_def)
  obtain ra ba where a: "add_quote ops q b = (ra, ba)" by (cases "add_quote ops q b")
  show ?thesis
    using add_law [OF b q a] run Ok a
    by (cases ra) (auto simp: add_sci_def add_spec_def)
next
  case (Err e)
  have "e \<noteq> QuoteAlreadyExists x" for x
    using quote_new_err [OF Err] .
  with Err run b show ?thesis by (auto simp: add_sci_def)
next
  case Panic
  with quote_new_no_panic [OF lib] show ?thesis by blast
qed

end

context reliable_quote_book
begin

lemma add_decided:
  assumes "inv s" and "admissible q (abs s)"
  shows "fst (add_quote ops q s) = Ok () \<longleftrightarrow> (\<forall>x\<in>abs s. \<not> clash q x)"
proof (cases "add_quote ops q s")
  case (Pair r s')
  then show ?thesis
    using add_law [OF assms Pair] add_reliable [OF assms]
    by (cases r) (auto simp: add_spec_def)
qed

lemma remove_id_decided:
  assumes "inv s"
  shows "is_ok (fst (remove_quote_by_id ops i s)) \<longleftrightarrow> i \<in> q_id ` abs s"
proof (cases "remove_quote_by_id ops i s")
  case (Pair r s')
  then show ?thesis
    using remove_id_law [OF assms Pair] remove_id_reliable [OF assms, of i]
    by (cases r) (auto simp: remove_id_spec_def)
qed

lemma get_quote_by_id_ok: "inv s \<Longrightarrow> \<exists>res. get_quote_by_id ops i s = Ok res"
  using getters_reliable(3) [of s i] no_panic(7) [of s i]
  by (cases "get_quote_by_id ops i s") auto

lemma get_quotes_ok: "inv s \<Longrightarrow> \<exists>res. get_quotes ops p rng limit s = Ok res"
  using getters_reliable(1) [of s p rng limit] no_panic(5) [of s p rng limit]
  by (cases "get_quotes ops p rng limit s") auto

end

section \<open>Properties\<close>

text \<open>
  C10: Range filtering is exact. For two ranges that are not empty, whatever mixture of
  included, excluded and open bounds they have, the overlap test answers true if and only if some
  amount lies in both; the saturating bound arithmetic loses nothing.
\<close>

theorem range_overlaps_exact:
  assumes "in_range a x" and "in_range b y"
  shows "range_overlaps a b \<longleftrightarrow> (\<exists>z. in_range a z \<and> in_range b z)"
proof -
  let ?m = "max (bound_start (fst a)) (bound_start (fst b))"
  have "bound_start (fst a) \<le> bound_end (snd a)" "bound_start (fst b) \<le> bound_end (snd b)"
    using in_range_iff [OF assms(1)] in_range_iff [OF assms(2)] assms order_trans by blast+
  then have "range_overlaps a b \<Longrightarrow> in_range a ?m \<and> in_range b ?m"
    unfolding in_range_iff [OF assms(1)] in_range_iff [OF assms(2)] by (simp add: range_overlaps_def)
  moreover have "range_overlaps a b" if "in_range a z" "in_range b z" for z
    using that unfolding in_range_iff [OF assms(1)] in_range_iff [OF assms(2)] range_overlaps_def
    by (meson order_trans)
  ultimately show ?thesis by blast
qed

theorem range_overlaps_exact_witness:
  "range_overlaps (Excluded 5, Unbounded) (Included 2, Included 6)"
proof -
  have "in_range (Excluded 5, Unbounded) 6" "in_range (Included 2, Included 6) 6"
    by (simp_all add: in_range_def)
  with range_overlaps_exact [OF this] show ?thesis by blast
qed

text \<open>The test answers true for a query range that holds no amount at all.\<close>

theorem range_overlaps_empty_range:
  "(\<nexists>z. in_range (Included 5, Excluded 5) z) \<and>
   range_overlaps (Included 5, Excluded 5) (Included 0, Included 9)"
  by (auto simp: in_range_def range_overlaps_def saturating_sub_def)

end
