(* ===== verification/P2P_Rpc.thy ===== *)
theory P2P_Rpc
  imports P2P_Client Quote_Book_Spec
begin

text \<open>
  The requests peers make of each other (\<open>server/src/p2p/rpc.rs\<close>, \<open>rpc_error.rs\<close> and the request
  handler of \<open>server/src/p2p/mod.rs\<close>), with the request counters of \<open>server/src/p2p/metrics.rs\<close> and
  the error type of \<open>server/src/error.rs\<close>.
\<close>

section \<open>Messages and errors\<close>

datatype request = GetAllQuoteIds | GetQuotesById "quote_id list"

datatype rpc_quote_book_error =
    RpcSci string
  | RpcUnsupportedSci string
  | RpcQuoteAlreadyExists
  | RpcQuoteNotFound
  | RpcQuoteIsStale
  | RpcOther string

datatype rpc_error =
    RpcQuoteBook rpc_quote_book_error
  | UnexpectedResponse
  | TooManyQuotesRequested

datatype response =
    AllQuoteIds "quote_id list"
  | MaybeQuotes "(rpc_error + quote option) list"
  | ErrorResponse rpc_error

datatype server_error =
    ServerGrpc string
  | ServerDecode string
  | ServerEncode string
  | ServerP2PClient client_error
  | ServerP2P p2p_error
  | ServerP2PRpc rpc_error
  | ServerQuoteBook error
  | ServerTaskJoin string

fun rpc_quote_book_error_from :: "error \<Rightarrow> rpc_quote_book_error" where
  "rpc_quote_book_error_from (Sci e) = RpcSci e"
| "rpc_quote_book_error_from (UnsupportedSci e) = RpcUnsupportedSci e"
| "rpc_quote_book_error_from (QuoteAlreadyExists _) = RpcQuoteAlreadyExists"
| "rpc_quote_book_error_from QuoteNotFound = RpcQuoteNotFound"
| "rpc_quote_book_error_from QuoteIsStale = RpcQuoteIsStale"
| "rpc_quote_book_error_from err = RpcOther (error_display err)"

definition rpc_error_from :: "error \<Rightarrow> rpc_error" where
  "rpc_error_from err = RpcQuoteBook (rpc_quote_book_error_from err)"

definition MAX_QUOTES_PER_REQUEST :: nat where
  "MAX_QUOTES_PER_REQUEST = 100"

section \<open>Request counters\<close>

fun metrics_method_name :: "request \<Rightarrow> string" where
  "metrics_method_name GetAllQuoteIds = ''get_all_quote_ids''"
| "metrics_method_name (GetQuotesById _) = ''get_quotes_by_id''"

record rpc_metrics =
  num_req :: "string \<Rightarrow> nat"
  num_success :: "string \<Rightarrow> nat"
  num_error :: "string \<Rightarrow> nat"

definition metrics_req :: "request \<Rightarrow> rpc_metrics \<Rightarrow> rpc_metrics" where
  "metrics_req req m =
     (let name = metrics_method_name req
      in m\<lparr>num_req := (num_req m)(name := Suc (num_req m name))\<rparr>)"

definition metrics_resp :: "string \<Rightarrow> response \<Rightarrow> rpc_metrics \<Rightarrow> rpc_metrics" where
  "metrics_resp name resp m =
     (case resp of
        ErrorResponse _ \<Rightarrow> m\<lparr>num_error := (num_error m)(name := num_error m name + 1)\<rparr>
      | _ \<Rightarrow> m\<lparr>num_success := (num_success m)(name := num_success m name + 1)\<rparr>)"

section \<open>Answering a request\<close>

text \<open>The state of a server's \<open>P2P\<close> object: the shared book, the network behind the client, the
  counters, and the peers for which a task that syncs quotes was started.\<close>

record ('b, 'n) p2p =
  p2p_book :: 'b
  p2p_net :: 'n
  p2p_metrics :: rpc_metrics
  p2p_sync_tasks :: "peer_id list"

fun maybe_quote :: "(quote option, error) result \<Rightarrow> (rpc_error + quote option, unit) result" where
  "maybe_quote (Ok q) = Ok (Inr q)"
| "maybe_quote (Err e) = Ok (Inl (rpc_error_from e))"
| "maybe_quote Panic = Panic"

definition rpc_answer :: "'b quote_book_ops \<Rightarrow> 'b \<Rightarrow> request \<Rightarrow> (response, unit) result" where
  "rpc_answer ops b req =
     (case req of
        GetAllQuoteIds \<Rightarrow>
          (case get_quote_ids ops None b of
             Ok ids \<Rightarrow> Ok (AllQuoteIds ids)
           | Err e \<Rightarrow> Ok (ErrorResponse (rpc_error_from e))
           | Panic \<Rightarrow> Panic)
      | GetQuotesById quote_ids \<Rightarrow>
          if length quote_ids \<le> MAX_QUOTES_PER_REQUEST
          then map_ok MaybeQuotes
            (collect_results (\<lambda>i. maybe_quote (get_quote_by_id ops i b)) quote_ids)
          else Ok (ErrorResponse TooManyQuotesRequested))"

definition handle_rpc_request ::
  "'b quote_book_ops \<Rightarrow> (request, response, 'n) client_env \<Rightarrow> peer_id \<Rightarrow> request \<Rightarrow> response_channel \<Rightarrow>
     ('b, 'n) p2p \<Rightarrow> (unit, server_error) result \<times> ('b, 'n) p2p" where
  "handle_rpc_request ops env peer_id req channel st =
     (let method_name = metrics_method_name req;
          st1 = st\<lparr>p2p_metrics := metrics_req req (p2p_metrics st)\<rparr>
      in case rpc_answer ops (p2p_book st1) req of
           Ok resp \<Rightarrow>
             (let st2 = st1\<lparr>p2p_metrics := metrics_resp method_name resp (p2p_metrics st1)\<rparr>;
                  (r, n) = rpc_response env resp channel (p2p_net st2)
              in (map_err ServerP2PClient r, st2\<lparr>p2p_net := n\<rparr>))
         | _ \<Rightarrow> (Panic, st1))"

section \<open>Asking a peer\<close>

definition get_all_quote_ids ::
  "(request, response, 'n) client_env \<Rightarrow> peer_id \<Rightarrow> 'n \<Rightarrow> (quote_id list, server_error) result \<times> 'n" where
  "get_all_quote_ids env peer_id n =
     (case retrying_rpc_request env peer_id GetAllQuoteIds n of
        (Ok (AllQuoteIds quote_ids), n') \<Rightarrow> (Ok quote_ids, n')
      | (Ok (ErrorResponse err), n') \<Rightarrow> (Err (ServerP2PRpc err), n')
      | (Ok (MaybeQuotes _), n') \<Rightarrow> (Err (ServerP2PRpc UnexpectedResponse), n')
      | (Err err, n') \<Rightarrow> (Err (ServerP2PClient err), n')
      | (Panic, n') \<Rightarrow> (Panic, n'))"

definition get_quotes_by_id ::
  "(request, response, 'n) client_env \<Rightarrow> peer_id \<Rightarrow> quote_id list \<Rightarrow> 'n \<Rightarrow>
     ((rpc_error + quote option) list, server_error) result \<times> 'n" where
  "get_quotes_by_id env peer_id quote_ids n =
     (case retrying_rpc_request env peer_id (GetQuotesById quote_ids) n of
        (Ok (MaybeQuotes quotes), n') \<Rightarrow>
          (if length quote_ids = length quotes then (Ok quotes, n')
           else (Err (ServerP2PRpc UnexpectedResponse), n'))
      | (Ok (ErrorResponse err), n') \<Rightarrow> (Err (ServerP2PRpc err), n')
      | (Ok (AllQuoteIds _), n') \<Rightarrow> (Err (ServerP2PRpc UnexpectedResponse), n')
      | (Err err, n') \<Rightarrow> (Err (ServerP2PClient err), n')
      | (Panic, n') \<Rightarrow> (Panic, n'))"

lemma get_quotes_by_id_length:
  "get_quotes_by_id env peer ids n = (Ok quotes, n') \<Longrightarrow> length quotes = length ids"
  by (auto simp: get_quotes_by_id_def split: prod.splits result.splits response.splits if_splits)

lemma get_quotes_by_id_response:
  assumes "get_quotes_by_id env peer ids n = (Ok quotes, n')"
  shows "retrying_rpc_request env peer (GetQuotesById ids) n = (Ok (MaybeQuotes quotes), n')"
  using assms
  by (auto simp: get_quotes_by_id_def split: prod.splits result.splits response.splits if_splits)

section \<open>Lemmas\<close>

context quote_book
begin

lemma rpc_answer_total:
  assumes "inv b"
  shows "\<exists>resp. rpc_answer ops b req = Ok resp"
proof (cases req)
  case GetAllQuoteIds
  then show ?thesis
    using no_panic(6) [OF assms, of None] by (auto simp: rpc_answer_def split: result.splits)
next
  case (GetQuotesById ids)
  have "\<exists>x. maybe_quote (get_quote_by_id ops i b) = Ok x" for i
    using no_panic(7) [OF assms, of i] by (cases "get_quote_by_id ops i b") auto
  then have "\<exists>xs. collect_results (\<lambda>i. maybe_quote (get_quote_by_id ops i b)) ids = Ok xs"
    by (induction ids) (simp_all, metis and_then.simps(1))
  with GetQuotesById show ?thesis by (auto simp: rpc_answer_def)
qed

end

context reliable_quote_book
begin

text \<open>The answer of a reliable book: all its identifiers, or what it holds for each.\<close>

lemma rpc_answer_quotes:
  assumes "inv b" and "length ids \<le> MAX_QUOTES_PER_REQUEST"
    and "rpc_answer ops b (GetQuotesById ids) = Ok resp"
  shows "\<exists>xs. resp = MaybeQuotes xs \<and>
    list_all2 (\<lambda>i x. \<exists>res. x = Inr res \<and> get_quote_by_id ops i b = Ok res) ids xs"
proof -
  have "\<exists>res. x = Inr res \<and> get_quote_by_id ops i b = Ok res"
    if "maybe_quote (get_quote_by_id ops i b) = Ok x" for i x
    using that get_quote_by_id_ok [OF assms(1), of i] by auto
  then show ?thesis
    using assms(2,3)
    by (auto simp: rpc_answer_def result_simps collect_results_eq_Ok elim!: list_all2_mono)
qed

lemma rpc_answer_ids:
  assumes "inv b" and "rpc_answer ops b GetAllQuoteIds = Ok resp"
  shows "\<exists>ids. resp = AllQuoteIds ids \<and> distinct ids \<and> set ids = q_id ` abs b"
  using get_quote_ids_law [OF assms(1), of None] getters_reliable(2) [OF assms(1), of None] assms(2)
  by (auto simp: rpc_answer_def get_quote_ids_spec_def split: result.splits)

end

lemma metrics_balanced:
  assumes "num_req m k = num_success m k + num_error m k"
  shows "num_req (metrics_resp (metrics_method_name req) resp (metrics_req req m)) k =
    num_success (metrics_resp (metrics_method_name req) resp (metrics_req req m)) k +
    num_error (metrics_resp (metrics_method_name req) resp (metrics_req req m)) k"
  using assms by (cases resp) (auto simp: metrics_resp_def metrics_req_def Let_def)

end
