(* ===== verification/In_Memory.thy ===== *)
theory In_Memory
  imports Quote_Book_Spec
begin

text \<open>
  The crate \<open>quote-book/in-memory\<close>: a hash map from pairs to ordered sets of quotes, behind a
  read-write lock. A \<open>BTreeSet<Quote>\<close> is the list of its elements in increasing order, kept by
  insertion and removal along \<open>Quote::cmp\<close>; the hash map is the list of its entries in the order
  its iterators visit them. A panic while the write lock is held poisons the lock, and every
  later call then answers \<open>LockPoisoned\<close>.

  The main results: every method keeps the book's representation invariant and implements the
  contract of the trait on the set of quotes in the book, and the book is reliable.
\<close>

section \<open>Ordered sets\<close>

fun btree_insert :: "quote \<Rightarrow> quote list \<Rightarrow> bool \<times> quote list" where
  "btree_insert q [] = (True, [q])"
| "btree_insert q (x # xs) =
     (case quote_cmp q x of
        Less \<Rightarrow> (True, q # x # xs)
      | Equal \<Rightarrow> (False, x # xs)
      | Greater \<Rightarrow> (let (b, ys) = btree_insert q xs in (b, x # ys)))"

fun btree_remove :: "quote \<Rightarrow> quote list \<Rightarrow> bool \<times> quote list" where
  "btree_remove q [] = (False, [])"
| "btree_remove q (x # xs) =
     (case quote_cmp q x of
        Less \<Rightarrow> (False, x # xs)
      | Equal \<Rightarrow> (True, xs)
      | Greater \<Rightarrow> (let (b, ys) = btree_remove q xs in (b, x # ys)))"

section \<open>The book\<close>

type_synonym scis_map = "(pair \<times> quote list) list"

record in_memory_quote_book =
  scis :: scis_map
  poisoned :: bool

definition in_memory_default :: in_memory_quote_book where
  "in_memory_default = \<lparr>scis = [], poisoned = False\<rparr>"

text \<open>The entry of a pair, empty when there is none yet, and the map with an entry replaced.\<close>

definition scis_get :: "scis_map \<Rightarrow> pair \<Rightarrow> quote list" where
  "scis_get m p = (case map_of m p of Some qs \<Rightarrow> qs | None \<Rightarrow> [])"

fun scis_set :: "scis_map \<Rightarrow> pair \<Rightarrow> quote list \<Rightarrow> scis_map" where
  "scis_set [] p qs = [(p, qs)]"
| "scis_set ((p', qs') # m) p qs =
     (if p' = p then (p, qs) # m else (p', qs') # scis_set m p qs)"

definition mem_add_quote ::
  "quote \<Rightarrow> in_memory_quote_book \<Rightarrow> (unit, error) result \<times> in_memory_quote_book" where
  "mem_add_quote q s =
     (if poisoned s then (Err LockPoisoned, s)
      else
        (let quotes = scis_get (scis s) (q_pair q);
             entered = s\<lparr>scis := scis_set (scis s) (q_pair q) quotes\<rparr>
         in case List.find (\<lambda>entry. quote_key_image entry = quote_key_image q) quotes of
              Some existing_quote \<Rightarrow> (Err (QuoteAlreadyExists existing_quote), entered)
            | None \<Rightarrow>
                (case btree_insert q quotes of
                   (True, quotes') \<Rightarrow> (Ok (), s\<lparr>scis := scis_set (scis s) (q_pair q) quotes'\<rparr>)
                 | (False, quotes') \<Rightarrow> (Panic, entered\<lparr>poisoned := True\<rparr>))))"

fun remove_from_first :: "quote_id \<Rightarrow> scis_map \<Rightarrow> (quote, error) result \<times> scis_map" where
  "remove_from_first i [] = (Err QuoteNotFound, [])"
| "remove_from_first i ((p, entries) # m) =
     (case List.find (\<lambda>entry. q_id entry = i) entries of
        Some element \<Rightarrow>
          (case btree_remove element entries of
             (True, entries') \<Rightarrow> (Ok element, (p, entries') # m)
           | (False, entries') \<Rightarrow> (Panic, (p, entries') # m))
      | None \<Rightarrow> (let (r, m') = remove_from_first i m in (r, (p, entries) # m')))"

definition mem_remove_quote_by_id ::
  "quote_id \<Rightarrow> in_memory_quote_book \<Rightarrow> (quote, error) result \<times> in_memory_quote_book" where
  "mem_remove_quote_by_id i s =
     (if poisoned s then (Err LockPoisoned, s)
      else (let (r, m) = remove_from_first i (scis s)
            in (r, s\<lparr>scis := m, poisoned := (r = Panic)\<rparr>)))"

text \<open>\<open>drain_filter\<close> on every entry: the removed quotes, in order, and the entries that stay.\<close>

definition drain_filter_all :: "(quote \<Rightarrow> bool) \<Rightarrow> scis_map \<Rightarrow> quote list \<times> scis_map" where
  "drain_filter_all P m =
     (concat (map (\<lambda>(p, entries). filter P entries) m),
      map (\<lambda>(p, entries). (p, filter (\<lambda>x. \<not> P x) entries)) m)"

definition mem_remove_quotes_by_key_image ::
  "key_image \<Rightarrow> in_memory_quote_book \<Rightarrow> (quote list, error) result \<times> in_memory_quote_book" where
  "mem_remove_quotes_by_key_image k s =
     (if poisoned s then (Err LockPoisoned, s)
      else (let (removed, m) = drain_filter_all (\<lambda>entry. quote_key_image entry = k) (scis s)
            in (Ok removed, s\<lparr>scis := m\<rparr>)))"

definition mem_remove_quotes_by_tombstone_block ::
  "mc_lib \<Rightarrow> block_index \<Rightarrow> in_memory_quote_book \<Rightarrow>
     (quote list, error) result \<times> in_memory_quote_book" where
  "mem_remove_quotes_by_tombstone_block lib current_block_index s =
     (if poisoned s then (Err LockPoisoned, s)
      else (let (removed, m) =
                  drain_filter_all
                    (\<lambda>entry. case sci_input_rules (q_sci entry) of
                       Some rules \<Rightarrow> max_tombstone_block rules \<noteq> 0 \<and>
                         validate_tombstone lib current_block_index (max_tombstone_block rules)
                           \<noteq> None
                     | None \<Rightarrow> False) (scis s)
            in (Ok removed, s\<lparr>scis := m\<rparr>)))"

text \<open>The loop of \<open>get_quotes\<close>: it stops as soon as the number of results equals the limit.\<close>

fun collect_overlapping :: "range_bounds \<Rightarrow> nat \<Rightarrow> quote list \<Rightarrow> quote list \<Rightarrow> quote list" where
  "collect_overlapping rng limit results [] = results"
| "collect_overlapping rng limit results (q # qs) =
     (if range_overlaps rng (range_inclusive (q_base_range q))
      then (let results' = results @ [q]
            in if length results' = limit then results'
               else collect_overlapping rng limit results' qs)
      else collect_overlapping rng limit results qs)"

definition mem_get_quotes ::
  "pair \<Rightarrow> range_bounds \<Rightarrow> nat \<Rightarrow> in_memory_quote_book \<Rightarrow> (quote list, error) result" where
  "mem_get_quotes p rng limit s =
     (if poisoned s then Err LockPoisoned
      else case map_of (scis s) p of
        Some quotes \<Rightarrow> Ok (collect_overlapping rng limit [] quotes)
      | None \<Rightarrow> Ok [])"

definition mem_get_quote_ids ::
  "pair option \<Rightarrow> in_memory_quote_book \<Rightarrow> (quote_id list, error) result" where
  "mem_get_quote_ids po s =
     (if poisoned s then Err LockPoisoned
      else case po of
        Some p \<Rightarrow> (case map_of (scis s) p of Some quotes \<Rightarrow> Ok (map q_id quotes) | None \<Rightarrow> Ok [])
      | None \<Rightarrow> Ok (concat (map (\<lambda>(p, quotes). map q_id quotes) (scis s))))"

fun find_in_entries :: "quote_id \<Rightarrow> scis_map \<Rightarrow> quote option" where
  "find_in_entries i [] = None"
| "find_in_entries i ((p, entries) # m) =
     (case List.find (\<lambda>entry. q_id entry = i) entries of
        Some element \<Rightarrow> Some element | None \<Rightarrow> find_in_entries i m)"

definition mem_get_quote_by_id ::
  "quote_id \<Rightarrow> in_memory_quote_book \<Rightarrow> (quote option, error) result" where
  "mem_get_quote_by_id i s =
     (if poisoned s then Err LockPoisoned else Ok (find_in_entries i (scis s)))"

definition mem_num_scis :: "in_memory_quote_book \<Rightarrow> (u64, error) result" where
  "mem_num_scis s =
     (if poisoned s then Err LockPoisoned
      else Ok (sum_list (map (\<lambda>(p, entries). of_nat (length entries)) (scis s))))"

definition in_memory_ops :: "mc_lib \<Rightarrow> in_memory_quote_book quote_book_ops" where
  "in_memory_ops lib =
     \<lparr>add_quote = mem_add_quote,
      remove_quote_by_id = mem_remove_quote_by_id,
      remove_quotes_by_key_image = mem_remove_quotes_by_key_image,
      remove_quotes_by_tombstone_block = mem_remove_quotes_by_tombstone_block lib,
      get_quotes = mem_get_quotes,
      get_quote_ids = mem_get_quote_ids,
      get_quote_by_id = mem_get_quote_by_id,
      num_scis = mem_num_scis\<rparr>"

section \<open>Lemmas on ordered sets\<close>

abbreviation quotes_sorted :: "quote list \<Rightarrow> bool" where
  "quotes_sorted \<equiv> sorted_wrt (\<lambda>a b. quote_cmp a b = Less)"

lemma quote_cmp_asym: "quote_cmp a b = Less \<Longrightarrow> quote_cmp b a = Greater"
  by (simp add: quote_cmp_swap)

lemma quotes_sorted_distinct: "quotes_sorted xs \<Longrightarrow> distinct xs"
  by (induction xs) auto

lemma quotes_sorted_cmp_Equal:
  assumes "quotes_sorted xs" and "a \<in> set xs" and "b \<in> set xs"
  shows "quote_cmp a b = Equal \<longleftrightarrow> a = b"
  using assms
  by (induction xs) (auto simp: quote_cmp_asym)

lemma btree_insert_spec:
  assumes "quotes_sorted xs" and "\<forall>x\<in>set xs. rated x" and "rated q"
    and "\<forall>x\<in>set xs. quote_cmp q x \<noteq> Equal"
  shows "\<exists>ys. btree_insert q xs = (True, ys) \<and> set ys = insert q (set xs) \<and> quotes_sorted ys"
  using assms
proof (induction xs)
  case (Cons x xs)
  show ?case
  proof (cases "quote_cmp q x")
    case Less
    with Cons.prems show ?thesis
      by (auto intro: quote_cmp_Less_trans [of q x])
  next
    case Greater
    then have "quote_cmp x q = Less"
      by (simp add: quote_cmp_swap)
    with Greater Cons show ?thesis by auto
  qed (use Cons.prems in simp)
qed simp

lemma btree_remove_spec:
  assumes "quotes_sorted xs" and "q \<in> set xs"
  shows "btree_remove q xs = (True, filter (\<lambda>x. x \<noteq> q) xs)"
  using assms
proof (induction xs)
  case (Cons x xs)
  show ?case
  proof (cases "q = x")
    case True
    with quotes_sorted_distinct [OF Cons.prems(1)] have "filter (\<lambda>y. y \<noteq> q) xs = xs"
      by (intro filter_True) auto
    with True show ?thesis by simp
  next
    case False
    with Cons.prems have "quote_cmp q x = Greater"
      by (simp add: quote_cmp_swap)
    with False Cons show ?thesis by auto
  qed
qed simp

section \<open>Lemmas on the map\<close>

text \<open>What holds of every entry of the map.\<close>

definition entry_inv :: "pair \<times> quote list \<Rightarrow> bool" where
  "entry_inv e \<longleftrightarrow> quotes_sorted (snd e) \<and> (\<forall>q\<in>set (snd e). q_pair q = fst e)"

definition map_quotes :: "scis_map \<Rightarrow> quote set" where
  "map_quotes m = (\<Union>e\<in>set m. set (snd e))"

definition map_inv :: "scis_map \<Rightarrow> bool" where
  "map_inv m \<longleftrightarrow> distinct (map fst m) \<and> (\<forall>e\<in>set m. entry_inv e)"

lemma map_quotes_simps [simp]:
  "map_quotes [] = {}" "map_quotes (e # m) = set (snd e) \<union> map_quotes m"
  by (auto simp: map_quotes_def)

lemma map_inv_Cons [simp]:
  "map_inv ((p, qs) # m) \<longleftrightarrow> p \<notin> fst ` set m \<and> entry_inv (p, qs) \<and> map_inv m"
  by (auto simp: map_inv_def)

lemma map_inv_Nil [simp]: "map_inv []"
  by (simp add: map_inv_def)

lemma finite_map_quotes [simp]: "finite (map_quotes m)"
  by (simp add: map_quotes_def)

lemma map_quotes_pair:
  assumes "map_inv m" and "q \<in> map_quotes m"
  shows "q_pair q \<in> fst ` set m"
proof -
  from assms(2) obtain e where e: "e \<in> set m" "q \<in> set (snd e)"
    by (auto simp: map_quotes_def)
  with assms(1) have "q_pair q = fst e"
    by (simp add: map_inv_def entry_inv_def)
  with e(1) show ?thesis by simp
qed

lemma map_quotes_other_pair:
  "map_inv m \<Longrightarrow> p \<notin> fst ` set m \<Longrightarrow> q \<in> map_quotes m \<Longrightarrow> q_pair q \<noteq> p"
  using map_quotes_pair by blast

lemma scis_get_simps [simp]:
  "scis_get [] p = []" "scis_get ((p', qs) # m) p = (if p' = p then qs else scis_get m p)"
  by (simp_all add: scis_get_def)

lemma set_scis_get:
  assumes "map_inv m"
  shows "set (scis_get m p) = {q \<in> map_quotes m. q_pair q = p}"
  using assms
proof (induction m)
  case (Cons e m)
  obtain p' qs where e: "e = (p', qs)" by (cases e)
  have other: "\<forall>q\<in>map_quotes m. q_pair q \<noteq> p'"
    using Cons.prems map_quotes_other_pair [of m p'] by (simp add: e)
  have here: "\<forall>q\<in>set qs. q_pair q = p'"
    using Cons.prems by (simp add: e entry_inv_def)
  show ?case
    using Cons other here by (auto simp: e)
qed simp

lemma scis_get_sorted: "map_inv m \<Longrightarrow> quotes_sorted (scis_get m p)"
proof (induction m)
  case (Cons e m)
  then show ?case
    by (cases e) (simp add: entry_inv_def)
qed simp

lemma fst_scis_set [simp]: "fst ` set (scis_set m p qs) = insert p (fst ` set m)"
  by (induction m p qs rule: scis_set.induct) auto

lemma scis_set_spec:
  assumes "map_inv m" and "entry_inv (p, qs)"
  shows "map_inv (scis_set m p qs) \<and>
    map_quotes (scis_set m p qs) = {q \<in> map_quotes m. q_pair q \<noteq> p} \<union> set qs"
  using assms
proof (induction m p qs rule: scis_set.induct)
  case (2 p' qs' m p qs)
  have other: "\<forall>q\<in>map_quotes m. q_pair q \<noteq> p'"
    using 2(2) map_quotes_other_pair [of m p'] by simp
  have here: "\<forall>q\<in>set qs'. q_pair q = p'"
    using 2(2) by (simp add: entry_inv_def)
  show ?case
    using 2 other here by auto
qed simp

lemma scis_set_get:
  assumes "map_inv m"
  shows "map_inv (scis_set m p (scis_get m p))"
    and "map_quotes (scis_set m p (scis_get m p)) = map_quotes m"
proof -
  have "entry_inv (p, scis_get m p)"
    using assms by (simp add: entry_inv_def scis_get_sorted set_scis_get)
  from scis_set_spec [OF assms this]
  show "map_inv (scis_set m p (scis_get m p))"
    and "map_quotes (scis_set m p (scis_get m p)) = map_quotes m"
    by (auto simp: set_scis_get [OF assms])
qed

section \<open>The operations implement the contract\<close>

definition mem_abs :: "in_memory_quote_book \<Rightarrow> quote set" where
  "mem_abs s = map_quotes (scis s)"

definition mem_inv :: "in_memory_quote_book \<Rightarrow> bool" where
  "mem_inv s \<longleftrightarrow> \<not> poisoned s \<and> map_inv (scis s) \<and> book_inv (mem_abs s)"

lemma mem_invD:
  assumes "mem_inv s"
  shows "\<not> poisoned s" "map_inv (scis s)" "book_inv (mem_abs s)"
  using assms by (simp_all add: mem_inv_def)

lemma book_invD:
  assumes "book_inv B"
  shows "finite B" "x \<in> B \<Longrightarrow> rated x" "inj_on q_id B"
    "x \<in> B \<Longrightarrow> y \<in> B \<Longrightarrow> clash x y \<Longrightarrow> x = y"
  using assms by (auto simp: book_inv_def)

lemma book_inv_subset: "book_inv B \<Longrightarrow> B' \<subseteq> B \<Longrightarrow> book_inv B'"
  unfolding book_inv_def by (meson finite_subset inj_on_subset subsetD)

lemma book_inv_insert:
  assumes "book_inv B" and "admissible q B" and "\<forall>x\<in>B. \<not> clash q x"
  shows "book_inv (insert q B)"
  using assms by (auto simp: book_inv_def admissible_def clash_def inj_on_def)

lemma find_Some_set: "List.find P xs = Some x \<Longrightarrow> x \<in> set xs \<and> P x"
  by (auto simp: find_Some_iff)

lemma find_None_set: "List.find P xs = None \<longleftrightarrow> (\<forall>x\<in>set xs. \<not> P x)"
  by (auto simp: find_None_iff)

lemma mem_add_law:
  assumes inv: "mem_inv s" and q: "admissible q (mem_abs s)" and add: "mem_add_quote q s = (r, s')"
  shows "mem_inv s' \<and> add_spec q (mem_abs s) r (mem_abs s')"
proof -
  let ?qs = "scis_get (scis s) (q_pair q)"
  note m = mem_invD(2) [OF inv] and np = mem_invD(1) [OF inv] and B = mem_invD(3) [OF inv]
  have qs: "set ?qs = {x \<in> mem_abs s. q_pair x = q_pair q}"
    using set_scis_get [OF m] by (simp add: mem_abs_def)
  show ?thesis
  proof (cases "List.find (\<lambda>entry. quote_key_image entry = quote_key_image q) ?qs")
    case (Some x)
    then have "x \<in> mem_abs s" "clash q x"
      using qs find_Some_set [OF Some] by (auto simp: clash_def)
    with Some add np show ?thesis
      using scis_set_get [OF m, of "q_pair q"] B
      by (auto simp: mem_add_quote_def Let_def add_spec_def mem_inv_def mem_abs_def)
  next
    case None
    then have fresh: "\<forall>x\<in>mem_abs s. \<not> clash q x"
      using qs by (auto simp: clash_def find_None_set)
    then have ids: "\<forall>x\<in>mem_abs s. q_id x \<noteq> q_id q"
      using q by (auto simp: admissible_def)
    have "\<forall>x\<in>set ?qs. quote_cmp q x \<noteq> Equal"
      using qs ids by (auto simp: quote_cmp_Equal)
    moreover have "\<forall>x\<in>set ?qs. rated x" "rated q"
      using qs q B by (auto simp: admissible_def book_inv_def)
    ultimately obtain ys where ys: "btree_insert q ?qs = (True, ys)"
        "set ys = insert q (set ?qs)" "quotes_sorted ys"
      using btree_insert_spec [OF scis_get_sorted [OF m, of "q_pair q"], of q] by blast
    have "entry_inv (q_pair q, ys)"
      using ys qs by (auto simp: entry_inv_def)
    from scis_set_spec [OF m this] have s': "map_inv (scis_set (scis s) (q_pair q) ys)"
        "map_quotes (scis_set (scis s) (q_pair q) ys) = insert q (mem_abs s)"
      using ys(2) qs by (auto simp: mem_abs_def)
    show ?thesis
      using add None ys(1) np s' fresh book_inv_insert [OF B q fresh]
      by (auto simp: mem_add_quote_def Let_def add_spec_def mem_inv_def mem_abs_def)
  qed
qed

lemma remove_from_first_spec:
  assumes "map_inv m" and "remove_from_first i m = (r, m')"
  shows "map_inv m' \<and> map fst m' = map fst m \<and>
    ((\<exists>q. r = Ok q \<and> q \<in> map_quotes m \<and> q_id q = i \<and> map_quotes m' = map_quotes m - {q}) \<or>
     (r = Err QuoteNotFound \<and> m' = m \<and> (\<forall>q\<in>map_quotes m. q_id q \<noteq> i)))"
  using assms
proof (induction i m arbitrary: r m' rule: remove_from_first.induct)
  case (2 i p entries m)
  have e: "entry_inv (p, entries)" and m: "map_inv m"
    using 2(2) by simp_all
  show ?case
  proof (cases "List.find (\<lambda>entry. q_id entry = i) entries")
    case None
    obtain r1 m1 where rm: "remove_from_first i m = (r1, m1)" by (cases "remove_from_first i m")
    have none: "\<forall>q\<in>set entries. q_id q \<noteq> i"
      using None by (simp add: find_None_set)
    have ih: "map_inv m1" "map fst m1 = map fst m"
      using 2(1) [OF None m rm] by blast+
    then have "fst ` set m1 = fst ` set m"
      by (metis list.set_map)
    with 2(2) ih(1) have inv1: "map_inv ((p, entries) # m1)" by simp
    have r: "r = r1" "m' = (p, entries) # m1"
      using 2(3) None rm by auto
    from 2(1) [OF None m rm] show ?thesis
    proof (elim conjE disjE exE)
      fix q
      assume "r1 = Ok q" "q \<in> map_quotes m" "q_id q = i" "map_quotes m1 = map_quotes m - {q}"
      with r inv1 ih(2) none show ?thesis by auto
    next
      assume "r1 = Err QuoteNotFound" "m1 = m" "\<forall>q\<in>map_quotes m. q_id q \<noteq> i"
      with r 2(2) none show ?thesis by auto
    qed
  next
    case (Some q)
    then have q: "q \<in> set entries" "q_id q = i"
      using find_Some_set [OF Some] by auto
    have rm: "btree_remove q entries = (True, filter (\<lambda>x. x \<noteq> q) entries)"
      using btree_remove_spec q(1) e by (simp add: entry_inv_def)
    have "q \<notin> map_quotes m"
      using map_quotes_other_pair [OF m, of p q] 2(2) q(1) e by (auto simp: entry_inv_def)
    moreover have "r = Ok q" "m' = (p, filter (\<lambda>x. x \<noteq> q) entries) # m"
      using 2(3) Some rm by auto
    moreover have "entry_inv (p, filter (\<lambda>x. x \<noteq> q) entries)"
      using e by (simp add: entry_inv_def sorted_wrt_filter)
    ultimately show ?thesis
      using q 2(2) by auto
  qed
qed simp

lemma mem_remove_id_law:
  assumes "mem_inv s" and "mem_remove_quote_by_id i s = (r, s')"
  shows "mem_inv s' \<and> remove_id_spec i (mem_abs s) r (mem_abs s')"
proof -
  obtain r1 m1 where rm: "remove_from_first i (scis s) = (r1, m1)"
    by (cases "remove_from_first i (scis s)")
  have s': "r = r1" "s' = s\<lparr>scis := m1, poisoned := (r1 = Panic)\<rparr>"
    using assms(2) mem_invD(1) [OF assms(1)] rm by (auto simp: mem_remove_quote_by_id_def)
  from remove_from_first_spec [OF mem_invD(2) [OF assms(1)] rm] show ?thesis
  proof (elim conjE disjE exE)
    fix q
    assume *: "map_inv m1" "r1 = Ok q" "q \<in> map_quotes (scis s)" "q_id q = i"
      "map_quotes m1 = map_quotes (scis s) - {q}"
    have "book_inv (map_quotes (scis s) - {q})"
      using book_inv_subset [OF mem_invD(3) [OF assms(1)]] by (simp add: mem_abs_def)
    with * s' show ?thesis
      by (simp add: mem_inv_def mem_abs_def remove_id_spec_def)
  next
    assume "map_inv m1" "r1 = Err QuoteNotFound" "m1 = scis s" "\<forall>q\<in>map_quotes (scis s). q_id q \<noteq> i"
    with s' mem_invD [OF assms(1)] show ?thesis
      by (simp add: mem_inv_def mem_abs_def remove_id_spec_def)
  qed
qed

lemma drain_filter_all_quotes:
  "map_quotes (snd (drain_filter_all P m)) = {x \<in> map_quotes m. \<not> P x}"
  "set (fst (drain_filter_all P m)) = {x \<in> map_quotes m. P x}"
  by (induction m) (auto simp: drain_filter_all_def)

lemma drain_filter_all_inv: "map_inv m \<Longrightarrow> map_inv (snd (drain_filter_all P m))"
proof (induction m)
  case (Cons e m)
  have "fst ` set (snd (drain_filter_all P m)) = fst ` set m"
    by (force simp: drain_filter_all_def image_image split_beta)
  with Cons show ?case
    by (cases e) (auto simp: drain_filter_all_def entry_inv_def sorted_wrt_filter)
qed (simp add: drain_filter_all_def)

lemma drain_filter_all_distinct: "map_inv m \<Longrightarrow> distinct (fst (drain_filter_all P m))"
proof (induction m)
  case (Cons e m)
  obtain p qs where e: "e = (p, qs)" by (cases e)
  have "set (filter P qs) \<inter> set (fst (drain_filter_all P m)) = {}"
    using Cons.prems map_quotes_other_pair [of m p]
    by (auto simp: e drain_filter_all_quotes entry_inv_def)
  with Cons show ?case
    using quotes_sorted_distinct [of qs] by (simp add: e drain_filter_all_def entry_inv_def)
qed (simp add: drain_filter_all_def)

lemma mem_drain_law:
  assumes inv: "mem_inv s" and drain: "drain_filter_all P (scis s) = (removed, m)"
  shows "mem_inv (s\<lparr>scis := m\<rparr>) \<and>
    remove_where_spec P (mem_abs s) (Ok removed) (mem_abs (s\<lparr>scis := m\<rparr>))"
proof -
  have "book_inv {x \<in> map_quotes (scis s). \<not> P x}"
    using book_inv_subset [OF mem_invD(3) [OF inv]] by (auto simp: mem_abs_def)
  then show ?thesis
    using drain_filter_all_quotes [of P "scis s"] drain_filter_all_inv [OF mem_invD(2) [OF inv], of P]
      drain_filter_all_distinct [OF mem_invD(2) [OF inv], of P] mem_invD(1) [OF inv] drain
    by (simp add: mem_inv_def mem_abs_def remove_where_spec_def)
qed

lemma mem_remove_key_image_law:
  assumes "mem_inv s" and "mem_remove_quotes_by_key_image k s = (r, s')"
  shows "mem_inv s' \<and> remove_where_spec (\<lambda>x. quote_key_image x = k) (mem_abs s) r (mem_abs s')"
  using assms(2) mem_invD(1) [OF assms(1)] mem_drain_law [OF assms(1)]
  by (auto simp: mem_remove_quotes_by_key_image_def split: prod.splits)

lemma past_tombstone_fun:
  "past_tombstone lib n = (\<lambda>entry. case sci_input_rules (q_sci entry) of
     Some rules \<Rightarrow> max_tombstone_block rules \<noteq> 0 \<and>
       validate_tombstone lib n (max_tombstone_block rules) \<noteq> None
   | None \<Rightarrow> False)"
  by (auto simp: past_tombstone_def quote_tombstone_def fun_eq_iff split: option.splits)

lemma mem_remove_past_tombstone:
  assumes "mem_inv s" and "mem_remove_quotes_by_tombstone_block lib n s = (r, s')"
  shows "mem_inv s' \<and> remove_where_spec (past_tombstone lib n) (mem_abs s) r (mem_abs s')"
  using assms(2) mem_invD(1) [OF assms(1)] mem_drain_law [OF assms(1)]
  unfolding mem_remove_quotes_by_tombstone_block_def past_tombstone_fun [symmetric]
  by (auto split: prod.splits)

lemma mem_remove_tombstone_law:
  assumes "mem_inv s" and "tombstones_regular lib n (mem_abs s)"
    and "mem_remove_quotes_by_tombstone_block lib n s = (r, s')"
  shows "mem_inv s' \<and> remove_where_spec (expired_at n) (mem_abs s) r (mem_abs s')"
  using mem_remove_past_tombstone [OF assms(1,3)] assms(2)
    remove_where_spec_cong [of "mem_abs s" "past_tombstone lib n" "expired_at n"]
  by (simp add: tombstones_regular_def)

lemma collect_overlapping_limited:
  assumes "limit = 0 \<or> length results < limit"
  shows "collect_overlapping rng limit results qs =
    limited limit (results @ filter (\<lambda>q. range_overlaps rng (range_inclusive (q_base_range q))) qs)"
  using assms
  by (induction rng limit results qs rule: collect_overlapping.induct)
    (auto simp: limited_def Let_def)

lemma mem_get_quotes_law:
  assumes "mem_inv s"
  shows "get_quotes_spec p rng limit (mem_abs s) (mem_get_quotes p rng limit s)"
proof -
  let ?P = "\<lambda>q. range_overlaps rng (range_inclusive (q_base_range q))"
  let ?full = "filter ?P (scis_get (scis s) p)"
  note m = mem_invD(2) [OF assms]
  have "mem_get_quotes p rng limit s = Ok (limited limit ?full)"
    using mem_invD(1) [OF assms] collect_overlapping_limited [of limit "[]" rng]
    by (auto simp: mem_get_quotes_def scis_get_def limited_def split: option.splits)
  moreover have "quotes_sorted ?full"
    by (simp add: scis_get_sorted [OF m] sorted_wrt_filter)
  moreover have "set ?full = {x \<in> mem_abs s. q_pair x = p \<and> ?P x}"
    by (auto simp: set_scis_get [OF m] mem_abs_def)
  ultimately show ?thesis
    by (auto simp: get_quotes_spec_def)
qed

definition all_quotes :: "scis_map \<Rightarrow> quote list" where
  "all_quotes m = concat (map snd m)"

lemma set_all_quotes: "set (all_quotes m) = map_quotes m"
  by (auto simp: all_quotes_def map_quotes_def)

lemma distinct_all_quotes: "map_inv m \<Longrightarrow> distinct (all_quotes m)"
  using drain_filter_all_distinct [of m "\<lambda>_. True"]
  by (simp add: drain_filter_all_def all_quotes_def split_def)

lemma mem_get_quote_ids_law:
  assumes "mem_inv s"
  shows "get_quote_ids_spec po (mem_abs s) (mem_get_quote_ids po s)"
proof -
  note m = mem_invD(2) [OF assms]
  have inj: "inj_on q_id (map_quotes (scis s))"
    using mem_invD(3) [OF assms] by (simp add: book_inv_def mem_abs_def)
  show ?thesis
  proof (cases po)
    case None
    have "mem_get_quote_ids None s = Ok (map q_id (all_quotes (scis s)))"
      using mem_invD(1) [OF assms]
      by (simp add: mem_get_quote_ids_def all_quotes_def map_concat comp_def split_def)
    with None show ?thesis
      using distinct_all_quotes [OF m] inj
      by (simp add: get_quote_ids_spec_def distinct_map set_all_quotes mem_abs_def)
  next
    case (Some p)
    have "mem_get_quote_ids (Some p) s = Ok (map q_id (scis_get (scis s) p))"
      using mem_invD(1) [OF assms]
      by (simp add: mem_get_quote_ids_def scis_get_def split: option.splits)
    moreover have "inj_on q_id (set (scis_get (scis s) p))"
      by (rule inj_on_subset [OF inj]) (auto simp: set_scis_get [OF m])
    ultimately show ?thesis
      using Some quotes_sorted_distinct [OF scis_get_sorted [OF m, of p]]
      by (auto simp: get_quote_ids_spec_def distinct_map set_scis_get [OF m] mem_abs_def)
  qed
qed

lemma find_in_entries_eq: "find_in_entries i m = List.find (\<lambda>q. q_id q = i) (all_quotes m)"
proof -
  have "List.find P (xs @ ys) =
      (case List.find P xs of Some x \<Rightarrow> Some x | None \<Rightarrow> List.find P ys)" for P and xs ys :: "quote list"
    by (induction xs) auto
  then show ?thesis
    by (induction i m rule: find_in_entries.induct)
      (auto simp: all_quotes_def split: option.splits)
qed

lemma mem_get_quote_by_id_law:
  assumes "mem_inv s"
  shows "get_quote_by_id_spec i (mem_abs s) (mem_get_quote_by_id i s)"
proof -
  have "mem_get_quote_by_id i s = Ok (List.find (\<lambda>q. q_id q = i) (all_quotes (scis s)))"
    using mem_invD(1) [OF assms] by (simp add: mem_get_quote_by_id_def find_in_entries_eq)
  then show ?thesis
    by (auto simp: get_quote_by_id_spec_def find_None_set set_all_quotes [symmetric] mem_abs_def
        split: option.split dest!: find_Some_set)
qed

lemma mem_num_scis_law:
  assumes "mem_inv s"
  shows "num_scis_spec (mem_abs s) (mem_num_scis s)"
proof -
  have "sum_list (map (\<lambda>(p, entries). of_nat (length entries)) m) =
      (of_nat (length (all_quotes m)) :: u64)" for m :: scis_map
    by (induction m) (auto simp: all_quotes_def)
  moreover have "length (all_quotes (scis s)) = card (mem_abs s)"
    using distinct_card [OF distinct_all_quotes [OF mem_invD(2) [OF assms]]]
    by (simp add: set_all_quotes mem_abs_def)
  ultimately show ?thesis
    using mem_invD(1) [OF assms] by (simp add: mem_num_scis_def num_scis_spec_def)
qed

lemma in_memory_ops_simps [simp]:
  "add_quote (in_memory_ops lib) = mem_add_quote"
  "remove_quote_by_id (in_memory_ops lib) = mem_remove_quote_by_id"
  "remove_quotes_by_key_image (in_memory_ops lib) = mem_remove_quotes_by_key_image"
  "remove_quotes_by_tombstone_block (in_memory_ops lib) = mem_remove_quotes_by_tombstone_block lib"
  "get_quotes (in_memory_ops lib) = mem_get_quotes"
  "get_quote_ids (in_memory_ops lib) = mem_get_quote_ids"
  "get_quote_by_id (in_memory_ops lib) = mem_get_quote_by_id"
  "num_scis (in_memory_ops lib) = mem_num_scis"
  by (simp_all add: in_memory_ops_def)

lemma mem_add_reliable:
  "mem_inv s \<Longrightarrow> mem_add_quote q s = (Err e, s') \<Longrightarrow> \<exists>x. e = QuoteAlreadyExists x"
  by (auto simp: mem_add_quote_def mem_inv_def Let_def split: option.splits prod.splits bool.splits)

lemma mem_remove_id_reliable:
  assumes "mem_inv s" and "mem_remove_quote_by_id i s = (Err e, s')"
  shows "e = QuoteNotFound"
proof -
  have "fst (remove_from_first i (scis s)) = Err e"
    using assms mem_invD(1) by (auto simp: mem_remove_quote_by_id_def split: prod.splits)
  then show ?thesis
    using remove_from_first_spec [OF mem_invD(2) [OF assms(1)], of i]
    by (cases "remove_from_first i (scis s)") auto
qed

interpretation mem: reliable_quote_book lib "in_memory_ops lib" mem_abs mem_inv for lib
proof (unfold_locales, unfold in_memory_ops_simps)
  show "mem_inv s \<Longrightarrow> book_inv (mem_abs s)" for s
    by (rule mem_invD)
  show "mem_inv s \<Longrightarrow> admissible q (mem_abs s) \<Longrightarrow> mem_add_quote q s = (Err e, s') \<Longrightarrow>
      \<exists>x. e = QuoteAlreadyExists x" for s q e s'
    by (rule mem_add_reliable)
qed (fact mem_add_law mem_remove_id_law mem_remove_key_image_law mem_remove_tombstone_law
    mem_get_quotes_law mem_get_quote_ids_law mem_get_quote_by_id_law mem_num_scis_law
    mem_remove_id_reliable |
    auto simp: mem_inv_def mem_remove_quotes_by_key_image_def
      mem_remove_quotes_by_tombstone_block_def mem_get_quotes_def mem_get_quote_ids_def
      mem_get_quote_by_id_def mem_num_scis_def split: option.splits prod.splits)+

lemma mem_inv_default: "mem_inv in_memory_default" "mem_abs in_memory_default = {}"
  by (simp_all add: mem_inv_def mem_abs_def in_memory_default_def book_inv_def)

section \<open>A sample book\<close>

definition sample_book :: in_memory_quote_book where
  "sample_book =
     \<lparr>scis = [(Pair 0 1, [sample_full_quote 1 100 10 5, sample_full_quote 2 100 20 4])],
      poisoned = False\<rparr>"

lemma sample_book_abs:
  "mem_abs sample_book = {sample_full_quote 1 100 10 5, sample_full_quote 2 100 20 4}"
  by (simp add: mem_abs_def sample_book_def)

lemma sample_book_inv: "mem_inv sample_book"
proof -
  have "map_inv (scis sample_book)"
    by (simp add: sample_book_def entry_inv_def quote_cmp_Less rate_le_def)
  moreover have "book_inv (mem_abs sample_book)"
    by (auto simp: sample_book_abs book_inv_def rated_def clash_def inj_on_def)
  ultimately show ?thesis
    by (simp add: mem_inv_def sample_book_def)
qed

section \<open>Properties\<close>

text \<open>
  C1: The book stays sound. Starting from an empty book, after any sequence of calls in which
  only admissible quotes are offered, the lock is not poisoned, every entry is sorted and holds
  only quotes of its pair, no two quotes share an identifier, and no two quotes of a pair spend the
  same input. In particular neither assertion of the source ever fails.
\<close>

theorem in_memory_reachable_sound:
  assumes "book_steps lib (in_memory_ops lib) mem_abs in_memory_default s"
  shows "\<not> poisoned s \<and> map_inv (scis s) \<and> book_inv (mem_abs s) \<and>
    (\<forall>i. fst (mem_remove_quote_by_id i s) \<noteq> Panic) \<and>
    (\<forall>q. admissible q (mem_abs s) \<longrightarrow> fst (mem_add_quote q s) \<noteq> Panic)"
proof -
  have inv: "mem_inv s"
    using mem.book_steps_inv [OF assms] mem_inv_default by simp
  then show ?thesis
    using mem.no_panic(1,2) [of s] by (simp add: mem_inv_def)
qed

theorem in_memory_reachable_sound_witness:
  "book_inv (mem_abs (snd (mem_add_quote (sample_full_quote 1 100 10 5) in_memory_default)))"
proof -
  let ?q = "sample_full_quote 1 100 10 5"
  have "admissible ?q (mem_abs in_memory_default)"
    by (simp add: admissible_def mem_inv_default rated_def sample_full_quote_def)
  then have "book_step lib (in_memory_ops lib) mem_abs in_memory_default
      (snd (mem_add_quote ?q in_memory_default))" for lib
    by (rule book_step.step_add [where r = "fst (mem_add_quote ?q in_memory_default)"]) simp
  then have "book_steps sample_lib (in_memory_ops sample_lib) mem_abs in_memory_default
      (snd (mem_add_quote ?q in_memory_default))"
    by blast
  from in_memory_reachable_sound [OF this] show ?thesis by blast
qed

text \<open>
  C3: Adding is exact. On a sound book an admissible quote is accepted if and only if no quote
  of its pair in the book spends the same input; when accepted it is the only change, and it is
  found by its identifier; when rejected the book is unchanged and the error carries the quote it
  conflicts with.
\<close>

theorem in_memory_add_exact:
  assumes "mem_inv s" and "admissible q (mem_abs s)" and "mem_add_quote q s = (r, s')"
  shows "mem_inv s' \<and>
    (if \<exists>x\<in>mem_abs s. clash q x
     then (\<exists>x\<in>mem_abs s. clash q x \<and> r = Err (QuoteAlreadyExists x)) \<and> mem_abs s' = mem_abs s
     else r = Ok () \<and> mem_abs s' = insert q (mem_abs s) \<and>
       mem_get_quote_by_id (q_id q) s' = Ok (Some q))"
proof -
  note law = mem_add_law [OF assms]
  have dec: "r = Ok () \<longleftrightarrow> (\<forall>x\<in>mem_abs s. \<not> clash q x)"
    using mem.add_decided [OF assms(1,2)] assms(3) by simp
  have "mem_get_quote_by_id (q_id q) s' = Ok (Some q)" if "r = Ok ()"
    using mem.add_then_get [OF assms(1,2)] mem.get_quote_by_id_ok [of s' _ "q_id q"] assms(3) law that
    by auto
  moreover have "\<exists>x. e = QuoteAlreadyExists x" if "r = Err e" for e
    using mem_add_reliable [OF assms(1)] assms(3) that by blast
  ultimately show ?thesis
    using law dec by (cases r) (auto simp: add_spec_def)
qed

theorem in_memory_add_exact_witness:
  "fst (mem_add_quote (sample_full_quote 1 100 10 5) in_memory_default) = Ok ()"
proof -
  let ?q = "sample_full_quote 1 100 10 5"
  have "admissible ?q (mem_abs in_memory_default)"
    by (simp add: admissible_def mem_inv_default rated_def sample_full_quote_def)
  from in_memory_add_exact [OF mem_inv_default(1) this prod.collapse [symmetric]]
  show ?thesis by (simp add: mem_inv_default)
qed

text \<open>
  C4: What a search returns. On a sound book \<open>get_quotes\<close> returns exactly the quotes of the
  pair whose range overlaps the requested one, best rate first as \<open>Quote::cmp\<close> orders them, cut
  to the limit, where a limit of 0 means no limit.
\<close>

theorem in_memory_get_quotes_exact:
  assumes "mem_inv s"
  shows "\<exists>full. mem_get_quotes p rng limit s = Ok (limited limit full) \<and>
    sorted_wrt (\<lambda>a b. quote_cmp a b = Less) full \<and>
    set full = {x \<in> mem_abs s. q_pair x = p \<and> range_overlaps rng (range_inclusive (q_base_range x))}"
  using mem_get_quotes_law [OF assms, of p rng limit] mem.get_quotes_ok [OF assms, of _ p rng limit]
  by (auto simp: get_quotes_spec_def)

theorem in_memory_get_quotes_exact_witness:
  "\<exists>full. mem_get_quotes (Pair 0 1) (Unbounded, Excluded 200) 1 sample_book = Ok (take 1 full) \<and>
     set full = {sample_full_quote 1 100 10 5, sample_full_quote 2 100 20 4}"
proof -
  let ?P = "\<lambda>x. q_pair x = Pair 0 1 \<and>
    range_overlaps (Unbounded, Excluded 200) (range_inclusive (q_base_range x))"
  have "{x \<in> mem_abs sample_book. ?P x} = mem_abs sample_book"
    by (auto simp: sample_book_abs range_overlaps_def range_inclusive_def saturating_sub_def)
  then show ?thesis
    using in_memory_get_quotes_exact
      [OF sample_book_inv, of "Pair 0 1" "(Unbounded, Excluded 200)" 1]
    by (simp add: limited_def sample_book_abs) blast
qed

text \<open>
  C8: Removing spent and expired quotes. On a sound book, removing by key image or by
  tombstone block succeeds, returns each removed quote once, removes exactly the quotes that spend
  that input or whose tombstone block is no longer valid, and keeps all the others.
\<close>

theorem in_memory_remove_exact:
  assumes "mem_inv s"
  shows "(\<exists>qs s'. mem_remove_quotes_by_key_image k s = (Ok qs, s') \<and> distinct qs \<and>
      set qs = {x \<in> mem_abs s. quote_key_image x = k} \<and> mem_abs s' = mem_abs s - set qs) \<and>
    (\<exists>qs s'. mem_remove_quotes_by_tombstone_block lib n s = (Ok qs, s') \<and> distinct qs \<and>
      set qs = {x \<in> mem_abs s. past_tombstone lib n x} \<and> mem_abs s' = mem_abs s - set qs)"
proof -
  obtain r s' where k: "mem_remove_quotes_by_key_image k s = (r, s')"
    by (cases "mem_remove_quotes_by_key_image k s")
  obtain r1 s1 where n: "mem_remove_quotes_by_tombstone_block lib n s = (r1, s1)"
    by (cases "mem_remove_quotes_by_tombstone_block lib n s")
  show ?thesis
    using mem_remove_key_image_law [OF assms k] mem.remove_key_image_reliable [OF assms, of _ k] k
      mem_remove_past_tombstone [OF assms n] mem.remove_tombstone_reliable [OF assms, of lib n] n
    by (cases r; cases r1) (auto simp: remove_where_spec_def)
qed

theorem in_memory_remove_exact_witness:
  "\<exists>qs s'. mem_remove_quotes_by_key_image [1] sample_book = (Ok qs, s') \<and>
     set qs = {sample_full_quote 1 100 10 5} \<and> mem_abs s' = {sample_full_quote 2 100 20 4}"
proof -
  have "{x \<in> mem_abs sample_book. quote_key_image x = [1]} = {sample_full_quote 1 100 10 5}"
    by (auto simp: sample_book_abs)
  moreover have "mem_abs sample_book - {sample_full_quote 1 100 10 5} = {sample_full_quote 2 100 20 4}"
    by (auto simp: sample_book_abs)
  ultimately show ?thesis
    using in_memory_remove_exact [OF sample_book_inv, of "[1]"] by metis
qed

end
