(* ===== verification/P2P_Sync.thy ===== *)
theory P2P_Sync
  imports P2P_Rpc In_Memory
begin

text \<open>
  Syncing quotes from a peer (\<open>sync_quotes_from_peer\<close> in \<open>server/src/p2p/mod.rs\<close>). The identifiers
  the local book misses are requested in chunks, one task per chunk, at most ten at a time. The
  tasks run concurrently, so their steps are the relation \<open>chunk_step\<close> on the tasks, the book and the
  network: a task asks the peer, then offers the received quotes to the book one by one; between
  two steps of a task the others can move, and so can the rest of the server, through the relation
  \<open>other\<close>.
\<close>

section \<open>The missing identifiers and their chunks\<close>

text \<open>The ordered difference of two \<open>BTreeSet\<close>s.\<close>

definition missing_quote_ids :: "quote_id list \<Rightarrow> quote_id list \<Rightarrow> quote_id list" where
  "missing_quote_ids remote local = sort (remdups (filter (\<lambda>i. i \<notin> set local) remote))"

text \<open>\<open>slice::chunks\<close>, which panics for chunks of size 0.\<close>

function chunks :: "nat \<Rightarrow> 'a list \<Rightarrow> 'a list list" where
  "chunks n xs = (if n = 0 \<or> xs = [] then [] else take n xs # chunks n (drop n xs))"
  by pat_completeness auto
termination
  by (relation "measure (\<lambda>(n, xs). length xs)") auto

declare chunks.simps [simp del]

definition PEER_SYNC_MAX_CONCURRENT_REQUESTS :: nat where
  "PEER_SYNC_MAX_CONCURRENT_REQUESTS = 10"

section \<open>One chunk\<close>

text \<open>
  A task that waits for its turn; one that has its response and has offered the first quotes of it,
  with their results; one that has ended. A task that panics is dropped by the caller.
\<close>

datatype chunk_task =
    Queued
  | Running "(rpc_error + quote option) list" "(unit, server_error) result list"
  | Finished "((unit, server_error) result list, server_error) result"

definition sync_quote ::
  "mc_lib \<Rightarrow> 'b quote_book_ops \<Rightarrow> int \<Rightarrow> rpc_error + quote option \<Rightarrow> 'b \<Rightarrow>
     (unit, server_error) result \<times> 'b" where
  "sync_quote lib ops now item b =
     (case item of
        Inr (Some quote) \<Rightarrow>
          (case add_sci lib ops now (q_sci quote) (Some (q_timestamp quote)) b of
             (Ok _, b') \<Rightarrow> (Ok (), b')
           | (Err err, b') \<Rightarrow> (Err (ServerQuoteBook err), b')
           | (Panic, b') \<Rightarrow> (Panic, b'))
      | Inr None \<Rightarrow> (Err (ServerQuoteBook QuoteNotFound), b)
      | Inl err \<Rightarrow> (Err (ServerP2PRpc err), b))"

text \<open>The next quote of a response, with \<open>quote_ids[i]\<close> at its position.\<close>

definition chunk_next ::
  "mc_lib \<Rightarrow> 'b quote_book_ops \<Rightarrow> int \<Rightarrow> quote_id list \<Rightarrow> rpc_error + quote option \<Rightarrow>
     (rpc_error + quote option) list \<Rightarrow> (unit, server_error) result list \<Rightarrow> 'b \<Rightarrow> chunk_task \<times> 'b" where
  "chunk_next lib ops now quote_ids item items results b =
     (case index_at quote_ids (length results) of
        Ok quote_id \<Rightarrow>
          (case sync_quote lib ops now item b of
             (Panic, b') \<Rightarrow> (Finished Panic, b')
           | (r, b') \<Rightarrow> (Running items (results @ [r]), b'))
      | (_ :: (quote_id, unit) result) \<Rightarrow> (Finished Panic, b))"

definition chunk_received ::
  "((rpc_error + quote option) list, server_error) result \<Rightarrow> chunk_task" where
  "chunk_received r =
     (case r of Ok items \<Rightarrow> Running items [] | Err e \<Rightarrow> Finished (Err e) | Panic \<Rightarrow> Finished Panic)"

fun is_finished :: "chunk_task \<Rightarrow> bool" where
  "is_finished (Finished r) = True"
| "is_finished _ = False"

text \<open>\<open>buffered\<close> keeps at most ten tasks started and not yet passed on; they are passed on in order.\<close>

definition may_start :: "chunk_task list \<Rightarrow> nat \<Rightarrow> bool" where
  "may_start ts i \<longleftrightarrow> i < length (takeWhile is_finished ts) + PEER_SYNC_MAX_CONCURRENT_REQUESTS"

inductive chunk_step ::
  "mc_lib \<Rightarrow> 'b quote_book_ops \<Rightarrow> (request, response, 'n) client_env \<Rightarrow> int \<Rightarrow> ('b \<Rightarrow> 'b \<Rightarrow> bool) \<Rightarrow>
     peer_id \<Rightarrow> quote_id list list \<Rightarrow> chunk_task list \<times> 'b \<times> 'n \<Rightarrow> chunk_task list \<times> 'b \<times> 'n \<Rightarrow> bool"
  for lib :: mc_lib and ops :: "'b quote_book_ops" and env :: "(request, response, 'n) client_env"
    and now :: int and other :: "'b \<Rightarrow> 'b \<Rightarrow> bool" and peer :: peer_id and cs :: "quote_id list list"
  where
  chunk_ask:
    "\<lbrakk>i < length ts; ts ! i = Queued; may_start ts i; get_quotes_by_id env peer (cs ! i) n = (r, n')\<rbrakk>
     \<Longrightarrow> chunk_step lib ops env now other peer cs (ts, b, n) (ts[i := chunk_received r], b, n')"
| chunk_item:
    "\<lbrakk>i < length ts; ts ! i = Running (item # items) results;
      chunk_next lib ops now (cs ! i) item items results b = (t, b')\<rbrakk>
     \<Longrightarrow> chunk_step lib ops env now other peer cs (ts, b, n) (ts[i := t], b', n)"
| chunk_end:
    "\<lbrakk>i < length ts; ts ! i = Running [] results\<rbrakk>
     \<Longrightarrow> chunk_step lib ops env now other peer cs (ts, b, n) (ts[i := Finished (Ok results)], b, n)"
| chunk_other:
    "other b b' \<Longrightarrow> chunk_step lib ops env now other peer cs (ts, b, n) (ts, b', n)"

abbreviation chunk_steps where
  "chunk_steps lib ops env now other peer cs \<equiv> (chunk_step lib ops env now other peer cs)\<^sup>*\<^sup>*"

section \<open>The whole sync\<close>

text \<open>The counts that are logged at the end: added, duplicates, missing, errors.\<close>

record sync_counts =
  num_added_quotes :: nat
  num_duplicate_quotes :: nat
  num_missing_quotes :: nat
  num_errors :: nat

fun count_result :: "(unit, server_error) result \<Rightarrow> sync_counts \<Rightarrow> sync_counts" where
  "count_result (Ok _) c = c\<lparr>num_added_quotes := num_added_quotes c + 1\<rparr>"
| "count_result (Err (ServerQuoteBook (QuoteAlreadyExists _))) c =
     c\<lparr>num_duplicate_quotes := num_duplicate_quotes c + 1\<rparr>"
| "count_result (Err (ServerQuoteBook QuoteNotFound)) c =
     c\<lparr>num_missing_quotes := num_missing_quotes c + 1\<rparr>"
| "count_result r c = c\<lparr>num_errors := num_errors c + 1\<rparr>"

fun task_results :: "chunk_task \<Rightarrow> (unit, server_error) result list" where
  "task_results (Finished (Ok results)) = results"
| "task_results _ = []"

definition count_results :: "chunk_task list \<Rightarrow> sync_counts" where
  "count_results ts =
     fold count_result (concat (map task_results ts))
       \<lparr>num_added_quotes = 0, num_duplicate_quotes = 0, num_missing_quotes = 0, num_errors = 0\<rparr>"

text \<open>The part before the tasks: the peer's identifiers, the local ones, and the chunks.\<close>

definition sync_chunks ::
  "'b quote_book_ops \<Rightarrow> (request, response, 'n) client_env \<Rightarrow> peer_id \<Rightarrow> 'b \<times> 'n \<Rightarrow>
     (quote_id list list, server_error) result \<times> 'b \<times> 'n" where
  "sync_chunks ops env peer_id st =
     (case get_all_quote_ids env peer_id (snd st) of
        (r, n) \<Rightarrow>
          (and_then r (\<lambda>remote.
             and_then (map_err ServerQuoteBook (get_quote_ids ops None (fst st))) (\<lambda>local.
               Ok (chunks MAX_QUOTES_PER_REQUEST (missing_quote_ids remote local)))), fst st, n))"

text \<open>
  A complete run: the first part, then the tasks until all have ended. The result is the error of
  the first part or the counts.
\<close>

inductive sync_quotes_from_peer ::
  "mc_lib \<Rightarrow> 'b quote_book_ops \<Rightarrow> (request, response, 'n) client_env \<Rightarrow> int \<Rightarrow> ('b \<Rightarrow> 'b \<Rightarrow> bool) \<Rightarrow>
     peer_id \<Rightarrow> 'b \<times> 'n \<Rightarrow> (sync_counts, server_error) result \<Rightarrow> 'b \<times> 'n \<Rightarrow> bool"
  for lib :: mc_lib and ops :: "'b quote_book_ops" and env :: "(request, response, 'n) client_env"
    and now :: int and other :: "'b \<Rightarrow> 'b \<Rightarrow> bool" and peer :: peer_id
  where
  sync_fails: "sync_chunks ops env peer st = (Err e, st') \<Longrightarrow>
     sync_quotes_from_peer lib ops env now other peer st (Err e) st'"
| sync_panics: "sync_chunks ops env peer st = (Panic, st') \<Longrightarrow>
     sync_quotes_from_peer lib ops env now other peer st Panic st'"
| sync_completes:
    "\<lbrakk>sync_chunks ops env peer st = (Ok cs, b, n);
      chunk_steps lib ops env now other peer cs (replicate (length cs) Queued, b, n) (ts, b', n');
      \<forall>t\<in>set ts. is_finished t\<rbrakk>
     \<Longrightarrow> sync_quotes_from_peer lib ops env now other peer st (Ok (count_results ts)) (b', n')"

section \<open>Lemmas on chunks\<close>

lemma set_missing_quote_ids [simp]: "set (missing_quote_ids remote local) = set remote - set local"
  by (auto simp: missing_quote_ids_def)

lemma chunks_props:
  assumes "n \<noteq> 0"
  shows "concat (chunks n xs) = xs \<and> (\<forall>c\<in>set (chunks n xs). c \<noteq> [] \<and> length c \<le> n)"
  using assms
proof (induction n xs rule: chunks.induct)
  case (1 n xs)
  then show ?case
    by (cases "xs = []") (simp_all add: chunks.simps [of n xs] chunks.simps [of n "[]"])
qed

section \<open>Runs end\<close>

text \<open>The steps a task can still make.\<close>

fun task_work :: "quote_id list \<Rightarrow> chunk_task \<Rightarrow> nat" where
  "task_work c Queued = length c + 2"
| "task_work c (Running items results) = length items + 1"
| "task_work c (Finished r) = 0"

definition sync_work :: "quote_id list list \<Rightarrow> chunk_task list \<Rightarrow> nat" where
  "sync_work cs ts = sum_list (map2 task_work cs ts)"

lemma sync_work_update:
  assumes "length ts = length cs" and "i < length ts" and "task_work (cs ! i) t < task_work (cs ! i) (ts ! i)"
  shows "sync_work cs (ts[i := t]) < sync_work cs ts"
  using assms
proof (induction cs ts arbitrary: i rule: list_induct2')
  case (4 c cs u ts)
  then show ?case
    by (cases i) (auto simp: sync_work_def)
qed (simp_all add: sync_work_def)

lemma task_work_received:
  assumes "get_quotes_by_id env peer c n = (r, n')"
  shows "task_work c (chunk_received r) < task_work c Queued"
proof (cases r)
  case (Ok items)
  with get_quotes_by_id_length assms show ?thesis by (fastforce simp: chunk_received_def)
qed (simp_all add: chunk_received_def)

lemma task_work_next:
  assumes "chunk_next lib ops now c item items results b = (t, b')"
  shows "task_work c t < task_work c (Running (item # items) results)"
  using assms
  by (auto simp: chunk_next_def split: result.splits prod.splits)

lemma chunk_step_work:
  assumes "chunk_step lib ops env now (\<lambda>_ _. False) peer cs s s'" and "length (fst s) = length cs"
  shows "length (fst s') = length cs \<and> sync_work cs (fst s') < sync_work cs (fst s)"
  using assms
proof (induction rule: chunk_step.induct)
  case (chunk_ask i ts n r n' b)
  then show ?case using task_work_received [of env peer "cs ! i" n r n'] by (auto intro: sync_work_update)
next
  case (chunk_item i ts item items results b t b' n)
  then show ?case using task_work_next [of lib ops now "cs ! i"] by (fastforce intro: sync_work_update)
next
  case (chunk_end i ts results b n)
  then show ?case by (auto intro: sync_work_update)
qed simp

lemma chunk_steps_bounded:
  assumes "(chunk_step lib ops env now (\<lambda>_ _. False) peer cs ^^ k) s s'" and "length (fst s) = length cs"
  shows "k + sync_work cs (fst s') \<le> sync_work cs (fst s)"
  using assms
proof (induction k arbitrary: s)
  case (Suc k)
  then obtain s1 where s1: "chunk_step lib ops env now (\<lambda>_ _. False) peer cs s s1"
      "(chunk_step lib ops env now (\<lambda>_ _. False) peer cs ^^ k) s1 s'"
    by (metis relpowp_Suc_D2)
  then show ?case using chunk_step_work [OF s1(1) Suc.prems(2)] Suc.IH [OF s1(2)] by simp
qed simp

lemma length_takeWhile_less: "\<not> (\<forall>x\<in>set xs. P x) \<Longrightarrow> length (takeWhile P xs) < length xs"
  by (induction xs) auto

text \<open>Unless all have ended, some task can move: the first that has not ended may start.\<close>

lemma chunk_step_progress:
  assumes "\<not> (\<forall>t\<in>set ts. is_finished t)"
  shows "\<exists>s'. chunk_step lib ops env now other peer cs (ts, b, n) s'"
proof -
  let ?i = "length (takeWhile is_finished ts)"
  have i: "?i < length ts" "\<not> is_finished (ts ! ?i)"
    using length_takeWhile_less [OF assms] nth_length_takeWhile [of is_finished ts]
    by blast+
  show ?thesis
  proof (cases "ts ! ?i")
    case Queued
    moreover have "may_start ts ?i" by (simp add: may_start_def PEER_SYNC_MAX_CONCURRENT_REQUESTS_def)
    moreover obtain r n' where "get_quotes_by_id env peer (cs ! ?i) n = (r, n')" by fastforce
    ultimately show ?thesis by (intro exI) (rule chunk_ask [OF i(1)])
  next
    case (Running items results)
    show ?thesis
    proof (cases items)
      case Nil
      with Running have "ts ! ?i = Running [] results" by simp
      then show ?thesis by (intro exI) (rule chunk_end [OF i(1)])
    next
      case (Cons item items')
      with Running have "ts ! ?i = Running (item # items') results" by simp
      moreover obtain t b' where "chunk_next lib ops now (cs ! ?i) item items' results b = (t, b')"
        by fastforce
      ultimately show ?thesis by (intro exI) (rule chunk_item [OF i(1)])
    qed
  qed (use i(2) in simp)
qed

lemma chunk_run_exists:
  assumes "length ts = length cs"
  shows "\<exists>ts' b' n'. chunk_steps lib ops env now other peer cs (ts, b, n) (ts', b', n') \<and>
    (\<forall>t\<in>set ts'. is_finished t)"
  using assms
proof (induction "sync_work cs ts" arbitrary: ts b n rule: less_induct)
  case less
  show ?case
  proof (cases "\<forall>t\<in>set ts. is_finished t")
    case False
    then obtain s1 where "chunk_step lib ops env now (\<lambda>_ _. False) peer cs (ts, b, n) s1"
      using chunk_step_progress [of ts lib ops env now "\<lambda>_ _. False" peer cs b n] by blast
    moreover obtain ts1 b1 n1 where "s1 = (ts1, b1, n1)" by (cases s1)
    ultimately have s: "chunk_step lib ops env now (\<lambda>_ _. False) peer cs (ts, b, n) (ts1, b1, n1)"
      by simp
    then have s': "chunk_step lib ops env now other peer cs (ts, b, n) (ts1, b1, n1)"
      by (cases rule: chunk_step.cases) (auto intro: chunk_step.intros)
    have "length ts1 = length cs" "sync_work cs ts1 < sync_work cs ts"
      using chunk_step_work [OF s] less.prems by simp_all
    then obtain ts' b' n' where
      "chunk_steps lib ops env now other peer cs (ts1, b1, n1) (ts', b', n')" "\<forall>t\<in>set ts'. is_finished t"
      using less.hyps [of ts1 b1 n1] by blast
    with s' show ?thesis by (meson converse_rtranclp_into_rtranclp)
  qed blast
qed

section \<open>Any peer\<close>

text \<open>What a task offers to the book stays within a set of quotes.\<close>

definition items_within :: "mc_lib \<Rightarrow> int \<Rightarrow> quote set \<Rightarrow> (rpc_error + quote option) list \<Rightarrow> bool" where
  "items_within lib now U items \<longleftrightarrow>
     (\<forall>q. Inr (Some q) \<in> set items \<longrightarrow> offered_quotes lib now (q_timestamp q) {q_sci q} \<subseteq> U)"

definition peer_offers ::
  "mc_lib \<Rightarrow> int \<Rightarrow> (request, response, 'n) client_env \<Rightarrow> peer_id \<Rightarrow> quote set \<Rightarrow> bool" where
  "peer_offers lib now env peer U \<longleftrightarrow>
     (\<forall>req n items n'. rpc_request env peer req n = (Ok (MaybeQuotes items), n') \<longrightarrow>
        items_within lib now U items)"

definition task_ok :: "mc_lib \<Rightarrow> int \<Rightarrow> quote set \<Rightarrow> quote_id list \<Rightarrow> chunk_task \<Rightarrow> bool" where
  "task_ok lib now U c t \<longleftrightarrow>
     (case t of
        Queued \<Rightarrow> True
      | Running items results \<Rightarrow>
          length results + length items = length c \<and> items_within lib now U items \<and> Panic \<notin> set results
      | Finished r \<Rightarrow> r \<noteq> Panic \<and> (\<forall>rs. r = Ok rs \<longrightarrow> length rs = length c \<and> Panic \<notin> set rs))"

lemma rpc_request_not_Panic: "fst (rpc_request env peer req n) \<noteq> Panic"
proof (cases "send_and_await env (RpcRequest peer req) (await_rpc env) n")
  case (Pair r n')
  have "r \<noteq> Panic"
    using Pair by (auto simp: send_and_await_def split: prod.splits option.splits bool.splits)
  then show ?thesis
  proof (cases r)
    case (Ok v)
    with Pair show ?thesis by (cases v) (simp_all add: rpc_request_def)
  qed (use Pair in \<open>simp_all add: rpc_request_def\<close>)
qed

lemma retrying_result:
  assumes "retry_documented env" and "retrying_rpc_request env peer req n = (r, n')"
  shows "\<exists>m. rpc_request env peer req m = (r, n')"
  using assms(2) retry_times_result
  by (fastforce simp: retrying_rpc_request_def retry_documented_eq [OF assms(1)])

lemma retrying_not_Panic:
  assumes "retry_documented env"
  shows "fst (retrying_rpc_request env peer req n) \<noteq> Panic"
  using retrying_result [OF assms, of peer req n] rpc_request_not_Panic [of env peer req]
  by (metis fst_conv surj_pair)

lemma get_quotes_by_id_ok:
  assumes "retry_documented env" and "peer_offers lib now env peer U"
    and "get_quotes_by_id env peer c n = (r, n')"
  shows "task_ok lib now U c (chunk_received r)"
proof (cases r)
  case (Ok items)
  then have run: "get_quotes_by_id env peer c n = (Ok items, n')" using assms(3) by simp
  have len: "length items = length c" by (rule get_quotes_by_id_length [OF run])
  from get_quotes_by_id_response [OF run] have "items_within lib now U items"
    using retrying_result [OF assms(1)] assms(2) by (fastforce simp: peer_offers_def)
  with Ok len show ?thesis by (simp add: task_ok_def chunk_received_def)
next
  case Panic
  then have "fst (retrying_rpc_request env peer (GetQuotesById c) n) = Panic"
    using assms(3)
    by (auto simp: get_quotes_by_id_def split: prod.splits result.splits response.splits if_splits)
  with retrying_not_Panic [OF assms(1)] show ?thesis by blast
qed (simp add: task_ok_def chunk_received_def)


lemma all_nth_update:
  assumes "length ts = length cs" and "\<forall>i<length cs. P (cs ! i) (ts ! i)" and "P (cs ! k) t"
  shows "\<forall>i<length cs. P (cs ! i) (ts[k := t] ! i)"
  using assms by (cases "k < length ts") (auto simp: nth_list_update)

context quote_book
begin

lemma sync_quote_law:
  assumes lib: "mc_lib_ok lib" and b: "inv b" "abs b \<subseteq> U" and U: "coherent U"
    and item: "items_within lib now U [item]" and run: "sync_quote lib ops now item b = (r, b')"
  shows "r \<noteq> Panic \<and> inv b' \<and> abs b \<subseteq> abs b' \<and> abs b' \<subseteq> U"
proof (cases item)
  case (Inr q)
  show ?thesis
  proof (cases q)
    case None
    with Inr run b show ?thesis by (auto simp: sync_quote_def)
  next
    case (Some q)
    obtain ra ba where a: "add_sci lib ops now (q_sci q) (Some (q_timestamp q)) b = (ra, ba)"
      by fastforce
    have off: "offered_quotes lib now (q_timestamp q) {q_sci q} \<subseteq> U"
      using item Inr Some by (auto simp: items_within_def)
    show ?thesis
      using add_sci_law [OF lib b(1) U b(2) off a] off b(2) run Inr Some a
      by (cases ra) (auto simp: sync_quote_def offered_quotes_def)
  qed
qed (use run b in \<open>auto simp: sync_quote_def\<close>)

lemma chunk_next_law:
  assumes lib: "mc_lib_ok lib" and b: "inv b" "abs b \<subseteq> U" and U: "coherent U"
    and t: "task_ok lib now U c (Running (item # items) results)"
    and run: "chunk_next lib ops now c item items results b = (t', b')"
  shows "inv b' \<and> abs b \<subseteq> abs b' \<and> abs b' \<subseteq> U \<and> task_ok lib now U c t'"
proof -
  obtain r b1 where s: "sync_quote lib ops now item b = (r, b1)" by fastforce
  have "items_within lib now U [item]" using t by (auto simp: task_ok_def items_within_def)
  note law = sync_quote_law [OF lib b U this s]
  have "length results < length c" using t by (simp add: task_ok_def)
  then have "t' = Running items (results @ [r])" "b' = b1"
    using run s law by (auto simp: chunk_next_def index_at_def split: result.splits)
  with law t show ?thesis by (auto simp: task_ok_def items_within_def)
qed

lemma chunk_step_safe:
  assumes "chunk_step lib ops env now other peer cs s s'"
    and lib: "mc_lib_ok lib" and env: "retry_documented env" "peer_offers lib now env peer U"
    and U: "coherent U"
    and other: "\<forall>b b'. other b b' \<longrightarrow> inv b \<longrightarrow> abs b \<subseteq> U \<longrightarrow> inv b' \<and> abs b' \<subseteq> U"
    and J: "length (fst s) = length cs" "inv (fst (snd s))" "abs (fst (snd s)) \<subseteq> U"
      "\<forall>i<length cs. task_ok lib now U (cs ! i) (fst s ! i)"
  shows "length (fst s') = length cs \<and> inv (fst (snd s')) \<and> abs (fst (snd s')) \<subseteq> U \<and>
    (\<forall>i<length cs. task_ok lib now U (cs ! i) (fst s' ! i))"
  using assms(1) J
proof (induction rule: chunk_step.induct)
  case (chunk_ask i ts n r n' b)
  then show ?case
    using get_quotes_by_id_ok [OF env] all_nth_update [of ts cs "task_ok lib now U" i] by simp
next
  case (chunk_item i ts item items results b t b' n)
  have "task_ok lib now U (cs ! i) (Running (item # items) results)"
    using chunk_item.hyps(1,2) chunk_item.prems(1,4) by (metis fst_conv)
  then have "inv b' \<and> abs b' \<subseteq> U \<and> task_ok lib now U (cs ! i) t"
    using chunk_next_law [OF lib _ _ U _ chunk_item.hyps(3)] chunk_item.prems(2,3) by simp
  then show ?case using chunk_item.prems all_nth_update [of ts cs "task_ok lib now U" i] by simp
next
  case (chunk_end i ts results b n)
  have "task_ok lib now U (cs ! i) (Running [] results)"
    using chunk_end.hyps chunk_end.prems(1,4) by (metis fst_conv)
  then have "task_ok lib now U (cs ! i) (Finished (Ok results))" by (simp add: task_ok_def)
  then show ?case using chunk_end.prems all_nth_update [of ts cs "task_ok lib now U" i] by simp
next
  case (chunk_other b b' ts n)
  then show ?case using other by simp
qed

lemma chunk_steps_safe:
  assumes "chunk_steps lib ops env now other peer cs (replicate (length cs) Queued, b, n) s'"
    and "mc_lib_ok lib" and "retry_documented env" "peer_offers lib now env peer U"
    and "coherent U" and b: "inv b" "abs b \<subseteq> U"
    and "\<forall>b b'. other b b' \<longrightarrow> inv b \<longrightarrow> abs b \<subseteq> U \<longrightarrow> inv b' \<and> abs b' \<subseteq> U"
  shows "length (fst s') = length cs \<and> inv (fst (snd s')) \<and> abs (fst (snd s')) \<subseteq> U \<and>
    (\<forall>i<length cs. task_ok lib now U (cs ! i) (fst s' ! i))"
  using assms(1)
proof (induction rule: rtranclp_induct)
  case base
  then show ?case using b by (simp add: task_ok_def)
next
  case (step s s')
  then show ?case using chunk_step_safe [OF step.hyps(2) assms(2-5) assms(8)] by blast
qed

end

section \<open>An honest peer\<close>

text \<open>Every request is answered with what the peer's handler answers for its book.\<close>

definition peer_answers ::
  "(request, response, 'n) client_env \<Rightarrow> peer_id \<Rightarrow> 'p quote_book_ops \<Rightarrow> 'p \<Rightarrow> bool" where
  "peer_answers env peer pops pb \<longleftrightarrow>
     (\<forall>req n. \<exists>resp n'. rpc_answer pops pb req = Ok resp \<and> rpc_request env peer req n = (Ok resp, n'))"

definition covers :: "quote set \<Rightarrow> quote set \<Rightarrow> quote_id \<Rightarrow> bool" where
  "covers P B i \<longleftrightarrow> (\<forall>q\<in>P. q_id q = i \<longrightarrow> (\<exists>x\<in>B. clash q x))"

definition synced_result :: "(unit, server_error) result \<Rightarrow> bool" where
  "synced_result r \<longleftrightarrow> r = Ok () \<or> (\<exists>x. r = Err (ServerQuoteBook (QuoteAlreadyExists x)))"

definition task_synced :: "quote set \<Rightarrow> quote set \<Rightarrow> quote_id list \<Rightarrow> chunk_task \<Rightarrow> bool" where
  "task_synced P B c t \<longleftrightarrow>
     (case t of
        Queued \<Rightarrow> True
      | Running items results \<Rightarrow>
          length results + length items = length c \<and>
          list_all2 (\<lambda>i x. \<exists>q\<in>P. q_id q = i \<and> x = Inr (Some q)) (drop (length results) c) items \<and>
          (\<forall>i\<in>set (take (length results) c). covers P B i) \<and> (\<forall>r\<in>set results. synced_result r)
      | Finished r \<Rightarrow>
          \<exists>rs. r = Ok rs \<and> length rs = length c \<and> (\<forall>r\<in>set rs. synced_result r) \<and>
            (\<forall>i\<in>set c. covers P B i))"

lemma covers_mono: "covers P B i \<Longrightarrow> B \<subseteq> B' \<Longrightarrow> covers P B' i"
  by (fastforce simp: covers_def)

lemma task_synced_mono:
  assumes "task_synced P B c t" and "B \<subseteq> B'"
  shows "task_synced P B' c t"
  using assms(1) covers_mono [OF _ assms(2), of P]
  by (auto simp: task_synced_def split: chunk_task.splits)

lemma peer_answers_retrying:
  assumes "retry_documented env" and "peer_answers env peer pops pb"
  shows "\<exists>resp n'. rpc_answer pops pb req = Ok resp \<and> retrying_rpc_request env peer req n = (Ok resp, n')"
proof -
  obtain resp n' where "rpc_answer pops pb req = Ok resp" "rpc_request env peer req n = (Ok resp, n')"
    using assms(2) unfolding peer_answers_def by blast
  then show ?thesis
    by (auto simp: retrying_rpc_request_def retry_documented_eq [OF assms(1)] retry_times_ok)
qed

lemma peer_chunk_synced:
  assumes peer: "reliable_quote_book lib pops pabs pinv" "pinv pb"
    and env: "retry_documented env" "peer_answers env peer pops pb"
    and c: "length c \<le> MAX_QUOTES_PER_REQUEST" "set c \<subseteq> q_id ` pabs pb"
    and run: "get_quotes_by_id env peer c n = (r, n')"
  shows "task_synced (pabs pb) B c (chunk_received r)"
proof -
  note pbook = reliable_quote_book.axioms(1) [OF peer(1)]
  obtain resp n1 where resp: "rpc_answer pops pb (GetQuotesById c) = Ok resp"
      "retrying_rpc_request env peer (GetQuotesById c) n = (Ok resp, n1)"
    using peer_answers_retrying [OF env] by blast
  obtain xs where xs: "resp = MaybeQuotes xs"
      "list_all2 (\<lambda>i x. \<exists>res. x = Inr res \<and> get_quote_by_id pops i pb = Ok res) c xs"
    using reliable_quote_book.rpc_answer_quotes [OF peer c(1) resp(1)] by blast
  have "\<exists>q\<in>pabs pb. q_id q = i \<and> x = Inr (Some q)"
    if "i \<in> set c" "x = Inr res" "get_quote_by_id pops i pb = Ok res" for i x res
    using that c(2) quote_book.get_quote_by_id_found [OF pbook peer(2)] by fastforce
  then have "list_all2 (\<lambda>i x. \<exists>q\<in>pabs pb. q_id q = i \<and> x = Inr (Some q)) c xs"
    using xs(2) by (fastforce simp: list_all2_conv_all_nth)
  moreover have "r = Ok xs"
    using run resp(2) xs list_all2_lengthD [OF xs(2)] by (simp add: get_quotes_by_id_def)
  ultimately show ?thesis
    by (simp add: chunk_received_def task_synced_def list_all2_lengthD [symmetric])
qed

lemma quote_wf_new: "quote_wf lib q \<Longrightarrow> quote_new lib now (q_sci q) (Some (q_timestamp q)) = Ok q"
  by (auto simp: quote_wf_def quote_new_eq_Ok)

context reliable_quote_book
begin

lemma sync_quote_synced:
  assumes b: "inv b" "abs b \<subseteq> U" and U: "coherent U" "P \<subseteq> U" and q: "q \<in> P" "quote_wf lib q"
    and run: "sync_quote lib ops now (Inr (Some q)) b = (r, b')"
  shows "inv b' \<and> abs b \<subseteq> abs b' \<and> abs b' \<subseteq> U \<and> synced_result r \<and> (\<exists>x\<in>abs b'. clash q x)"
proof -
  have adm: "admissible q (abs b)" using coherent_admissible [OF U(1) b(2)] q(1) U(2) by blast
  obtain ra ba where a: "add_quote ops q b = (ra, ba)" by fastforce
  note law = add_law [OF b(1) adm a]
  show ?thesis
  proof (cases ra)
    case (Ok u)
    then show ?thesis
      using law run a quote_wf_new [OF q(2), of now] b(2) q(1) U(2)
      by (auto simp: sync_quote_def add_sci_def add_spec_def synced_result_def)
  next
    case (Err e)
    then obtain x where "e = QuoteAlreadyExists x" using add_reliable [OF b(1) adm] a by blast
    with Err show ?thesis
      using law run a quote_wf_new [OF q(2), of now] b(2)
      by (auto simp: sync_quote_def add_sci_def add_spec_def synced_result_def)
  next
    case Panic
    with law show ?thesis by (simp add: add_spec_def)
  qed
qed

lemma chunk_next_synced:
  assumes b: "inv b" "abs b \<subseteq> U" and U: "coherent U" "P \<subseteq> U" and P: "\<forall>q\<in>P. quote_wf lib q"
      "inj_on q_id P"
    and t: "task_synced P (abs b) c (Running (item # items) results)"
    and run: "chunk_next lib ops now c item items results b = (t', b')"
  shows "inv b' \<and> abs b \<subseteq> abs b' \<and> abs b' \<subseteq> U \<and> task_synced P (abs b') c t'"
proof -
  let ?k = "length results"
  have k: "?k < length c" using t by (simp add: task_synced_def)
  then have drop: "drop ?k c = c ! ?k # drop (Suc ?k) c" by (simp add: Cons_nth_drop_Suc)
  then obtain q where q: "q \<in> P" "q_id q = c ! ?k" "item = Inr (Some q)"
    using t by (auto simp: task_synced_def)
  obtain r b1 where s: "sync_quote lib ops now item b = (r, b1)" by fastforce
  have law: "inv b1 \<and> abs b \<subseteq> abs b1 \<and> abs b1 \<subseteq> U \<and> synced_result r \<and> (\<exists>x\<in>abs b1. clash q x)"
    using sync_quote_synced [OF b U q(1)] P(1) q s by blast
  then have "covers P (abs b1) (c ! ?k)"
    unfolding covers_def using q P(2) by (metis inj_onD)
  moreover have "t' = Running items (results @ [r])" "b' = b1"
    using run s law k by (auto simp: chunk_next_def index_at_def synced_result_def split: result.splits)
  moreover have "\<forall>i\<in>set (take ?k c). covers P (abs b1) i"
    using t law covers_mono by (auto simp: task_synced_def)
  ultimately show ?thesis
    using t law k drop by (auto simp: task_synced_def take_Suc_conv_app_nth)
qed

lemma chunk_steps_synced:
  assumes run: "chunk_steps lib ops env now other peer cs (replicate (length cs) Queued, b0, n) s'"
    and peer: "reliable_quote_book lib pops pabs pinv" "pinv pb"
    and env: "retry_documented env" "peer_answers env peer pops pb"
    and cs: "\<forall>c\<in>set cs. length c \<le> MAX_QUOTES_PER_REQUEST \<and> set c \<subseteq> q_id ` pabs pb"
    and U: "coherent U" "pabs pb \<subseteq> U" and P: "\<forall>q\<in>pabs pb. quote_wf lib q"
    and b: "inv b0" "abs b0 \<subseteq> U"
    and other: "\<forall>b b'. other b b' \<longrightarrow> inv b \<longrightarrow> abs b \<subseteq> U \<longrightarrow> inv b' \<and> abs b \<subseteq> abs b' \<and> abs b' \<subseteq> U"
  shows "length (fst s') = length cs \<and> inv (fst (snd s')) \<and> abs b0 \<subseteq> abs (fst (snd s')) \<and>
    abs (fst (snd s')) \<subseteq> U \<and>
    (\<forall>i<length cs. task_synced (pabs pb) (abs (fst (snd s'))) (cs ! i) (fst s' ! i))"
  using run
proof (induction rule: rtranclp_induct)
  case base
  then show ?case using b by (simp add: task_synced_def)
next
  case (step s s')
  have inj: "inj_on q_id (pabs pb)"
    using quote_book.inv_book [OF reliable_quote_book.axioms(1) [OF peer(1)] peer(2)]
    by (simp add: book_inv_def)
  have mono: "\<forall>i<length cs. task_synced (pabs pb) B' (cs ! i) (ts ! i)"
    if "\<forall>i<length cs. task_synced (pabs pb) B (cs ! i) (ts ! i)" "B \<subseteq> B'" for B B' ts
    using that task_synced_mono by blast
  note upd = all_nth_update [where P = "task_synced (pabs pb) B" for B]
  from step.hyps(2) step.IH show ?case
  proof (induction rule: chunk_step.induct)
    case (chunk_ask i ts n r n' b)
    then have "task_synced (pabs pb) (abs b) (cs ! i) (chunk_received r)"
      using peer_chunk_synced [OF peer env] cs by simp
    with chunk_ask show ?case using upd [of ts cs "abs b" i] by simp
  next
    case (chunk_item i ts item items results b t b' n)
    then have law: "inv b' \<and> abs b \<subseteq> abs b' \<and> abs b' \<subseteq> U \<and> task_synced (pabs pb) (abs b') (cs ! i) t"
      using chunk_next_synced [OF _ _ U P inj] by (metis fst_conv snd_conv)
    then have "abs b0 \<subseteq> abs b'" using chunk_item.prems by auto
    with law chunk_item mono [of "abs b" ts "abs b'"] show ?case
      using upd [of ts cs "abs b'" i] by simp
  next
    case (chunk_end i ts results b n)
    then have "task_synced (pabs pb) (abs b) (cs ! i) (Running [] results)" by (metis fst_conv snd_conv)
    then have "task_synced (pabs pb) (abs b) (cs ! i) (Finished (Ok results))"
      by (simp add: task_synced_def)
    with chunk_end show ?case using upd [of ts cs "abs b" i] by simp
  next
    case (chunk_other b b' ts n)
    then have law: "inv b' \<and> abs b \<subseteq> abs b' \<and> abs b' \<subseteq> U" using other by simp
    moreover have "abs b0 \<subseteq> abs b'" using law chunk_other.prems by auto
    ultimately show ?case using chunk_other.prems mono [of "abs b" ts "abs b'"] by simp
  qed
qed

end

section \<open>Lemmas on whole runs\<close>

lemma sync_chunks_eq:
  assumes "get_all_quote_ids env peer n = (Ok remote, n')" and "get_quote_ids ops None b = Ok locals"
  shows "sync_chunks ops env peer (b, n) =
    (Ok (chunks MAX_QUOTES_PER_REQUEST (missing_quote_ids remote locals)), b, n')"
  using assms by (simp add: sync_chunks_def)



lemma sync_run_exists: "\<exists>r st'. sync_quotes_from_peer lib ops env now other peer (b, n) r st'"
proof -
  obtain r b1 n1 where c: "sync_chunks ops env peer (b, n) = (r, b1, n1)" by (metis prod_cases3)
  show ?thesis
  proof (cases r)
    case (Ok cs)
    then have c: "sync_chunks ops env peer (b, n) = (Ok cs, b1, n1)" using c by simp
    obtain ts b' n' where run:
      "chunk_steps lib ops env now other peer cs (replicate (length cs) Queued, b1, n1) (ts, b', n')"
      "\<forall>t\<in>set ts. is_finished t"
      using chunk_run_exists [of "replicate (length cs) Queued" cs lib ops env now other peer b1 n1] by auto
    from sync_completes [OF c run] show ?thesis by blast
  qed (use c sync_fails sync_panics in blast)+
qed

lemma count_results_synced:
  assumes "\<forall>r\<in>set rs. synced_result r"
  shows "num_errors (fold count_result rs c) = num_errors c \<and>
    num_missing_quotes (fold count_result rs c) = num_missing_quotes c \<and>
    num_added_quotes (fold count_result rs c) + num_duplicate_quotes (fold count_result rs c) =
      num_added_quotes c + num_duplicate_quotes c + length rs"
  using assms
proof (induction rs arbitrary: c)
  case (Cons r rs)
  then have "synced_result r" by simp
  with Cons.IH [of "count_result r c"] Cons.prems show ?case
    by (auto simp: synced_result_def)
qed simp

lemma task_results_synced:
  assumes "length ts = length cs" and "\<forall>t\<in>set ts. is_finished t"
    and "\<forall>i<length cs. task_synced P B (cs ! i) (ts ! i)"
  shows "(\<forall>r\<in>set (concat (map task_results ts)). synced_result r) \<and>
    length (concat (map task_results ts)) = length (concat cs) \<and>
    (\<forall>i\<in>set (concat cs). covers P B i)"
  using assms
proof (induction cs ts rule: list_induct2')
  case (4 c cs t ts)
  have t: "task_synced P B c t" "is_finished t"
    using 4(2-4) by (auto dest: spec [of _ 0])
  obtain rs where "t = Finished (Ok rs)" "length rs = length c" "\<forall>r\<in>set rs. synced_result r"
      "\<forall>i\<in>set c. covers P B i"
    using t by (cases t) (auto simp: task_synced_def)
  moreover have "\<forall>i<length cs. task_synced P B (cs ! i) (ts ! i)"
    using 4(4) by (auto dest: spec [of _ "Suc _"])
  ultimately show ?case using 4(1-3) by auto
qed auto

text \<open>A network with one honest peer: the state is the request in flight.\<close>

definition book_env :: "'p quote_book_ops \<Rightarrow> 'p \<Rightarrow> (request, response, request option) client_env" where
  "book_env pops pb =
     \<lparr>oneshot_channel = (\<lambda>n. (0, n)),
      mpsc_send = (\<lambda>cmd n. (True, case cmd of RpcRequest _ req _ \<Rightarrow> Some req | _ \<Rightarrow> n)),
      await_rpc = (\<lambda>c n. (case n of None \<Rightarrow> None | Some req \<Rightarrow>
        (case rpc_answer pops pb req of Ok resp \<Rightarrow> Some (Inr resp) | _ \<Rightarrow> None), n)),
      await_subscribe = (\<lambda>c n. (None, n)), await_publish = (\<lambda>c n. (None, n)),
      await_listen = (\<lambda>c n. (None, n)), await_peers = (\<lambda>c n. (None, n)),
      await_addrs = (\<lambda>c n. (None, n)), retry_spawn = retry_times\<rparr>"

lemma book_env_retry: "retry_documented (book_env pops pb)"
proof -
  have spawn: "retry_spawn (book_env pops pb) = retry_times" by (simp add: book_env_def)
  show ?thesis unfolding retry_documented_def spawn by (intro allI) (rule retry_times_unfold)
qed

lemma book_env_answers:
  assumes "\<And>req. \<exists>resp. rpc_answer pops pb req = Ok resp"
  shows "peer_answers (book_env pops pb) peer pops pb"
  unfolding peer_answers_def
proof (intro allI)
  fix req n
  obtain resp where "rpc_answer pops pb req = Ok resp" using assms by blast
  then show "\<exists>resp n'. rpc_answer pops pb req = Ok resp \<and>
      rpc_request (book_env pops pb) peer req n = (Ok resp, n')"
    by (simp add: rpc_request_def send_and_await_def book_env_def)
qed

lemma sample_book_coherent: "coherent (mem_abs sample_book)"
  by (auto simp: sample_book_abs coherent_def rated_def clash_def)

lemma sample_book_wf: "\<forall>q\<in>mem_abs sample_book. quote_wf sample_lib q"
  by (simp add: sample_book_abs sample_quotes_wf)

section \<open>Properties\<close>



text \<open>
  C24: A sync ends. For any peer, book and network there is a complete run, and when nobody else
  uses the book a run takes at most two steps per chunk and one per requested quote, so no schedule
  of the tasks can go on forever.
\<close>

theorem sync_terminates:
  "(\<exists>r st'. sync_quotes_from_peer lib ops env now other peer (b, n) r st') \<and>
   (\<forall>cs b1 n1 k s. sync_chunks ops env peer (b, n) = (Ok cs, b1, n1) \<longrightarrow>
      (chunk_step lib ops env now (\<lambda>_ _. False) peer cs ^^ k) (replicate (length cs) Queued, b1, n1) s \<longrightarrow>
      k \<le> 2 * length cs + length (concat cs))"
proof -
  have "sync_work cs (replicate (length cs) Queued) = 2 * length cs + length (concat cs)" for cs
    by (induction cs) (simp_all add: sync_work_def)
  then have "k \<le> 2 * length cs + length (concat cs)"
    if "(chunk_step lib ops env now (\<lambda>_ _. False) peer cs ^^ k) (replicate (length cs) Queued, b1, n1) s"
    for k cs b1 n1 s
    using chunk_steps_bounded [OF that] by simp
  then show ?thesis using sync_run_exists [of lib ops env now other peer b n] by simp
qed

theorem sync_terminates_witness:
  "\<exists>r st'. sync_quotes_from_peer sample_lib (in_memory_ops sample_lib)
     (book_env (in_memory_ops sample_lib) sample_book) 0 (\<lambda>_ _. False) [1] (in_memory_default, None) r st'"
  by (rule sync_terminates [THEN conjunct1])


lemma get_all_quote_ids_honest:
  assumes peer: "reliable_quote_book lib pops pabs pinv" "pinv pb"
    and env: "retry_documented env" "peer_answers env peer pops pb"
  shows "\<exists>ids n'. get_all_quote_ids env peer n = (Ok ids, n') \<and> distinct ids \<and>
    set ids = q_id ` pabs pb"
proof -
  obtain resp n1 where resp: "rpc_answer pops pb GetAllQuoteIds = Ok resp"
      "retrying_rpc_request env peer GetAllQuoteIds n = (Ok resp, n1)"
    using peer_answers_retrying [OF env] by blast
  obtain ids where "resp = AllQuoteIds ids" "distinct ids" "set ids = q_id ` pabs pb"
    using reliable_quote_book.rpc_answer_ids [OF peer resp(1)] by blast
  with resp(2) show ?thesis by (simp add: get_all_quote_ids_def)
qed

lemma missing_distinct: "distinct (missing_quote_ids remote locals)"
  by (simp add: missing_quote_ids_def)

lemma concat_chunks: "concat (chunks MAX_QUOTES_PER_REQUEST xs) = xs"
  using chunks_props [of MAX_QUOTES_PER_REQUEST xs] by (simp add: MAX_QUOTES_PER_REQUEST_def)

lemma chunks_within:
  assumes "c \<in> set (chunks MAX_QUOTES_PER_REQUEST xs)"
  shows "c \<noteq> [] \<and> length c \<le> MAX_QUOTES_PER_REQUEST \<and> set c \<subseteq> set xs"
proof -
  have "set c \<subseteq> set (concat (chunks MAX_QUOTES_PER_REQUEST xs))" using assms by auto
  then have "set c \<subseteq> set xs" by (simp only: concat_chunks)
  then show ?thesis
    using chunks_props [of MAX_QUOTES_PER_REQUEST xs] assms by (simp add: MAX_QUOTES_PER_REQUEST_def)
qed

text \<open>
  C22: A sync with an honest peer converges. When the peer answers from a sound book, the network
  delivers its answers, and the local book fails only for the reasons the trait names, then after
  any complete run the local book still holds all it held, and for each quote of the peer it holds
  that quote or one that spends the same input for the same pair. The logged counts are exact: no
  errors, none missing, and one addition or duplicate per identifier the local book lacked.
\<close>

theorem sync_converges:
  assumes book: "reliable_quote_book lib ops absf invf"
    and peer: "reliable_quote_book lib pops pabs pinv" "pinv pb" "\<forall>q\<in>pabs pb. quote_wf lib q"
    and env: "retry_documented env" "peer_answers env peer pops pb"
    and U: "coherent U" "pabs pb \<subseteq> U" "invf b" "absf b \<subseteq> U"
    and other: "\<forall>b b'. other b b' \<longrightarrow> invf b \<longrightarrow> absf b \<subseteq> U \<longrightarrow>
      invf b' \<and> absf b \<subseteq> absf b' \<and> absf b' \<subseteq> U"
    and run: "sync_quotes_from_peer lib ops env now other peer (b, n) r (b', n')"
  shows "absf b \<subseteq> absf b' \<and> (\<forall>q\<in>pabs pb. \<exists>x\<in>absf b'. clash q x) \<and>
    (\<exists>c. r = Ok c \<and> num_errors c = 0 \<and> num_missing_quotes c = 0 \<and>
      num_added_quotes c + num_duplicate_quotes c = card (q_id ` pabs pb - q_id ` absf b))"
proof -
  note qb = reliable_quote_book.axioms(1) [OF book]
  obtain remote n1 where remote: "get_all_quote_ids env peer n = (Ok remote, n1)" "distinct remote"
      "set remote = q_id ` pabs pb"
    using get_all_quote_ids_honest [OF peer(1,2) env] by blast
  obtain locals where locals: "get_quote_ids ops None b = Ok locals" "set locals = q_id ` absf b"
    using quote_book.get_quote_ids_law [OF qb U(3), of None]
      reliable_quote_book.getters_reliable(2) [OF book U(3), of None]
    by (auto simp: get_quote_ids_spec_def split: result.splits)
  let ?ids = "missing_quote_ids remote locals"
  let ?cs = "chunks MAX_QUOTES_PER_REQUEST ?ids"
  have start: "sync_chunks ops env peer (b, n) = (Ok ?cs, b, n1)"
    by (rule sync_chunks_eq [OF remote(1) locals(1)])
  from run obtain ts where ts: "r = Ok (count_results ts)" "\<forall>t\<in>set ts. is_finished t"
      "chunk_steps lib ops env now other peer ?cs (replicate (length ?cs) Queued, b, n1) (ts, b', n')"
    by (cases rule: sync_quotes_from_peer.cases) (use start in auto)
  have "\<forall>c\<in>set ?cs. length c \<le> MAX_QUOTES_PER_REQUEST \<and> set c \<subseteq> q_id ` pabs pb"
    using chunks_within [of _ ?ids] remote(3) by auto
  note conv = reliable_quote_book.chunk_steps_synced
    [OF book ts(3) peer(1,2) env this U(1,2) peer(3) U(3,4) other]
  then have fin: "length ts = length ?cs" "absf b \<subseteq> absf b'"
      "\<forall>i<length ?cs. task_synced (pabs pb) (absf b') (?cs ! i) (ts ! i)"
    by simp_all
  note res = task_results_synced [OF fin(1) ts(2) fin(3)]
  have "\<exists>x\<in>absf b'. clash q x" if q: "q \<in> pabs pb" for q
  proof (cases "q_id q \<in> q_id ` absf b")
    case True
    then obtain x where "x \<in> absf b" "q_id q = q_id x" by auto
    with q U fin(2) show ?thesis unfolding coherent_def by blast
  next
    case False
    with q remote(3) locals(2) have "q_id q \<in> set (concat ?cs)" by (simp add: concat_chunks)
    with res q show ?thesis by (auto simp: covers_def)
  qed
  moreover have "length ?ids = card (q_id ` pabs pb - q_id ` absf b)"
    using distinct_card [OF missing_distinct, of remote locals] remote(3) locals(2) by simp
  ultimately show ?thesis
    using fin(2) ts(1) res count_results_synced [of "concat (map task_results ts)"]
    by (simp add: count_results_def concat_chunks)
qed

theorem sync_converges_witness:
  "\<exists>c b' n'. sync_quotes_from_peer sample_lib (in_memory_ops sample_lib)
      (book_env (in_memory_ops sample_lib) sample_book) 0 (\<lambda>_ _. False) [1] (in_memory_default, None)
      (Ok c) (b', n') \<and> (\<forall>q\<in>mem_abs sample_book. \<exists>x\<in>mem_abs b'. clash q x) \<and>
    num_added_quotes c + num_duplicate_quotes c = 2"
proof -
  let ?env = "book_env (in_memory_ops sample_lib) sample_book"
  obtain r b' n' where run: "sync_quotes_from_peer sample_lib (in_memory_ops sample_lib) ?env 0
      (\<lambda>_ _. False) [1] (in_memory_default, None) r (b', n')"
    using sync_run_exists by (metis surj_pair)
  have answers: "peer_answers ?env [1] (in_memory_ops sample_lib) sample_book"
    by (rule book_env_answers) (rule quote_book.rpc_answer_total [OF mem.quote_book_axioms sample_book_inv])
  have "card (q_id ` mem_abs sample_book) = 2"
    by (simp add: sample_book_abs)
  with sync_converges [OF mem.reliable_quote_book_axioms mem.reliable_quote_book_axioms sample_book_inv
      sample_book_wf book_env_retry answers sample_book_coherent order_refl mem_inv_default(1) _ _ run] run
  show ?thesis by (auto simp: mem_inv_default(2))
qed

text \<open>
  C25: What a sync requests. The chunks together ask exactly once for each identifier the peer
  announced and the local book lacks, in order; none is empty, and none is longer than what a peer
  answers, so a peer that runs this code never refuses one as too large.
\<close>

theorem sync_requests_exact:
  assumes "get_all_quote_ids env peer n = (Ok remote, n')" and "get_quote_ids ops None b = Ok locals"
  shows "\<exists>cs. sync_chunks ops env peer (b, n) = (Ok cs, b, n') \<and>
    sorted (concat cs) \<and> distinct (concat cs) \<and> set (concat cs) = set remote - set locals \<and>
    (\<forall>c\<in>set cs. c \<noteq> [] \<and>
       rpc_answer pops pb (GetQuotesById c) \<noteq> Ok (ErrorResponse TooManyQuotesRequested))"
proof -
  let ?cs = "chunks MAX_QUOTES_PER_REQUEST (missing_quote_ids remote locals)"
  have "c \<noteq> [] \<and> rpc_answer pops pb (GetQuotesById c) \<noteq> Ok (ErrorResponse TooManyQuotesRequested)"
    if "c \<in> set ?cs" for c
    using chunks_within [OF that] by (auto simp: rpc_answer_def result_simps)
  moreover have "sorted (missing_quote_ids remote locals)" by (simp add: missing_quote_ids_def)
  ultimately show ?thesis
    using sync_chunks_eq [OF assms] missing_distinct by (simp add: concat_chunks del: set_concat)
qed

theorem sync_requests_exact_witness:
  "\<exists>cs n'. sync_chunks (in_memory_ops sample_lib) (book_env (in_memory_ops sample_lib) sample_book) [1]
      (in_memory_default, None) = (Ok cs, in_memory_default, n') \<and>
    set (concat cs) = q_id ` mem_abs sample_book"
proof -
  let ?env = "book_env (in_memory_ops sample_lib) sample_book"
  have answers: "peer_answers ?env [1] (in_memory_ops sample_lib) sample_book"
    by (rule book_env_answers) (rule quote_book.rpc_answer_total [OF mem.quote_book_axioms sample_book_inv])
  obtain ids n' where ids: "get_all_quote_ids ?env [1] None = (Ok ids, n')"
      "set ids = q_id ` mem_abs sample_book"
    using get_all_quote_ids_honest [OF mem.reliable_quote_book_axioms sample_book_inv book_env_retry answers]
    by blast
  have "get_quote_ids (in_memory_ops sample_lib) None in_memory_default = Ok []"
    by (simp add: mem_get_quote_ids_def in_memory_default_def)
  from sync_requests_exact [OF ids(1) this, of "in_memory_ops sample_lib" sample_book] ids(2)
  show ?thesis by (auto simp del: set_concat)
qed

end
