(* ===== verification/Api_Convert.thy ===== *)
theory Api_Convert
  imports Quote
begin

text \<open>
  The conversions of the crate \<open>api\<close> (\<open>api/src/convert\<close>) between quotes and the messages of
  \<open>api/proto/deqs.proto\<close>. The messages are records with the fields of the protocol definition. The
  SCI inside a message belongs to the MobileCoin protocol; it is kept as the bytes of its protobuf
  encoding, in which the default message is the empty list, and its conversion is the parameter
  \<open>api_lib\<close>.
\<close>

record api_pair =
  ap_base_token_id :: u64
  ap_counter_token_id :: u64

record api_quote =
  aq_sci :: bytes
  aq_id :: bytes
  aq_pair :: api_pair
  aq_base_range_min :: u64
  aq_base_range_max :: u64
  aq_max_counter_tokens :: u64
  aq_timestamp :: u64

datatype conversion_error = ArrayCastError | OtherConversion string

record api_lib =
  sci_to_api :: "sci \<Rightarrow> bytes"
  sci_from_api :: "bytes \<Rightarrow> (sci, conversion_error) result"

definition api_lib_ok :: "api_lib \<Rightarrow> bool" where
  "api_lib_ok api \<longleftrightarrow>
     (\<forall>s. sci_from_api api (sci_to_api api s) = Ok s) \<and> (\<forall>b. sci_from_api api b \<noteq> Panic)"

definition default_api_quote :: api_quote where
  "default_api_quote =
     \<lparr>aq_sci = [], aq_id = [], aq_pair = \<lparr>ap_base_token_id = 0, ap_counter_token_id = 0\<rparr>,
      aq_base_range_min = 0, aq_base_range_max = 0, aq_max_counter_tokens = 0, aq_timestamp = 0\<rparr>"

definition api_pair_from_pair :: "pair \<Rightarrow> api_pair" where
  "api_pair_from_pair p =
     \<lparr>ap_base_token_id = base_token_id p, ap_counter_token_id = counter_token_id p\<rparr>"

definition pair_from_api_pair :: "api_pair \<Rightarrow> pair" where
  "pair_from_api_pair a = Pair (ap_base_token_id a) (ap_counter_token_id a)"

definition api_quote_id_from_quote_id :: "quote_id \<Rightarrow> bytes" where
  "api_quote_id_from_quote_id i = i"

definition quote_id_try_from_api :: "bytes \<Rightarrow> (quote_id, conversion_error) result" where
  "quote_id_try_from_api bs = ok_or ArrayCastError (quote_id_try_from bs)"

definition api_quote_from_quote :: "api_lib \<Rightarrow> quote \<Rightarrow> api_quote" where
  "api_quote_from_quote api q =
     \<lparr>aq_sci = sci_to_api api (q_sci q),
      aq_id = api_quote_id_from_quote_id (q_id q),
      aq_pair = api_pair_from_pair (q_pair q),
      aq_base_range_min = fst (q_base_range q),
      aq_base_range_max = snd (q_base_range q),
      aq_max_counter_tokens = q_max_counter_tokens q,
      aq_timestamp = q_timestamp q\<rparr>"

definition quote_try_from_api :: "api_lib \<Rightarrow> api_quote \<Rightarrow> (quote, conversion_error) result" where
  "quote_try_from_api api a =
     and_then (sci_from_api api (aq_sci a)) (\<lambda>s.
     and_then (quote_id_try_from_api (aq_id a)) (\<lambda>i.
       Ok (new_from_fields s i (pair_from_api_pair (aq_pair a))
             (aq_base_range_min a, aq_base_range_max a) (aq_max_counter_tokens a) (aq_timestamp a))))"

datatype quote_status_code =
  CREATED | INVALID_SCI | UNSUPPORTED_SCI | QUOTE_ALREADY_EXISTS | QUOTE_IS_STALE | OTHER

fun status_code_from_error :: "error \<Rightarrow> quote_status_code" where
  "status_code_from_error (Sci _) = INVALID_SCI"
| "status_code_from_error (UnsupportedSci _) = UNSUPPORTED_SCI"
| "status_code_from_error (QuoteAlreadyExists _) = QUOTE_ALREADY_EXISTS"
| "status_code_from_error QuoteIsStale = QUOTE_IS_STALE"
| "status_code_from_error (InvalidRing _) = INVALID_SCI"
| "status_code_from_error _ = OTHER"

lemma status_code_not_created [simp]: "status_code_from_error e \<noteq> CREATED"
  by (cases e rule: status_code_from_error.cases) auto

lemma pair_api_round_trip [simp]: "pair_from_api_pair (api_pair_from_pair p) = p"
  by (simp add: pair_from_api_pair_def api_pair_from_pair_def)

lemma quote_api_round_trip:
  assumes "api_lib_ok api" and "length (q_id q) = 32"
  shows "quote_try_from_api api (api_quote_from_quote api q) = Ok q"
  using assms
  by (simp add: quote_try_from_api_def api_quote_from_quote_def api_lib_ok_def
      quote_id_try_from_api_def quote_id_try_from_def api_quote_id_from_quote_id_def
      new_from_fields_def)

text \<open>A message whose identifier is not 32 bytes long is refused.\<close>

lemma quote_try_from_api_bad_id:
  assumes "api_lib_ok api" and "length (aq_id a) \<noteq> 32"
  shows "is_err (quote_try_from_api api a)"
  using assms
  by (cases "sci_from_api api (aq_sci a)")
    (auto simp: quote_try_from_api_def quote_id_try_from_api_def quote_id_try_from_def api_lib_ok_def)

end
