(* ===== verification/Client_Service.thy ===== *)
theory Client_Service
  imports In_Memory Api_Convert
begin

text \<open>
  The client API of the server (\<open>server/src/client_service.rs\<close>), its message bus
  (\<open>server/src/msg.rs\<close>) and the SCI validator the server installs (\<open>server/src/grpc_server.rs\<close>). A
  request is the list of its SCIs in encoded form. The bus is the list of messages sent so far and
  whether it still has receivers.

  Submitted SCIs are added in parallel. The results come back in the order of the request; the
  order in which the additions happen is a parameter, any permutation of the request.
\<close>

section \<open>Messages\<close>

datatype msg = SciQuoteAdded quote | SciQuoteRemoved quote

record 's client_service =
  cs_quote_book :: 's
  cs_bus :: "msg list"
  cs_bus_open :: bool

datatype rpc_status = InvalidArg string | Internal string

record submit_quotes_response =
  status_codes :: "quote_status_code list"
  error_messages :: "string list"
  response_quotes :: "api_quote list"

record get_quotes_request =
  gq_pair :: api_pair
  gq_base_range_min :: u64
  gq_base_range_max :: u64
  gq_limit :: u64

datatype live_update = QuoteAdded api_quote | QuoteRemoved bytes

definition MAX_SIMULTANEOUS_QUOTES :: nat where
  "MAX_SIMULTANEOUS_QUOTES = 30"

text \<open>Sending on the bus fails when it has no receiver; the message is then only logged.\<close>

definition blocking_send :: "msg \<Rightarrow> 's client_service \<Rightarrow> bool \<times> 's client_service" where
  "blocking_send m cs =
     (if cs_bus_open cs then (True, cs\<lparr>cs_bus := cs_bus cs @ [m]\<rparr>) else (False, cs))"

section \<open>The validator of the server\<close>

definition sci_validator :: "(token_id \<rightharpoonup> u64) \<Rightarrow> sci \<Rightarrow> (unit, error) result" where
  "sci_validator quote_minimum_map s =
     (let base_token_id = amount_token_id (pseudo_output_amount s);
          base_amount = amount_value (pseudo_output_amount s);
          minimum_for_token_id =
            (case quote_minimum_map base_token_id of Some m \<Rightarrow> m | None \<Rightarrow> 0)
      in if base_amount < minimum_for_token_id
         then Err (UnsupportedSci
           (''Quote volume is too small for deqs. Quotes with base_token: '' @
            show_u64 base_token_id @ '' require a minimum of: '' @
            show_u64 minimum_for_token_id))
         else Ok ())"

section \<open>Submitting quotes\<close>

definition submit_one ::
  "mc_lib \<Rightarrow> 's quote_book_ops \<Rightarrow> (sci \<Rightarrow> (unit, error) result) \<Rightarrow> int \<Rightarrow> u64 \<Rightarrow> sci \<Rightarrow> 's \<Rightarrow>
     (quote, error) result \<times> 's" where
  "submit_one lib ops validator now timestamp s b =
     then_do (validator s, b) (\<lambda>_ b. add_sci lib ops now s (Some timestamp) b)"

text \<open>Run the additions in the order of the schedule, each result at its index.\<close>

fun run_schedule ::
  "(sci \<Rightarrow> 's \<Rightarrow> (quote, error) result \<times> 's) \<Rightarrow> sci list \<Rightarrow> nat list \<Rightarrow>
     (quote, error) result list \<Rightarrow> 's \<Rightarrow> (quote, error) result list \<times> 's" where
  "run_schedule f sci_list [] results b = (results, b)"
| "run_schedule f sci_list (i # is) results b =
     (let (r, b') = f (sci_list ! i) b in run_schedule f sci_list is (results[i := r]) b')"

fun build_response ::
  "api_lib \<Rightarrow> (quote, error) result list \<Rightarrow> submit_quotes_response \<Rightarrow> 's client_service \<Rightarrow>
     submit_quotes_response \<times> 's client_service" where
  "build_response api [] resp cs = (resp, cs)"
| "build_response api (r # rs) resp cs =
     (case r of
        Ok q \<Rightarrow>
          build_response api rs
            (resp\<lparr>status_codes := status_codes resp @ [CREATED],
                  error_messages := error_messages resp @ [''''],
                  response_quotes := response_quotes resp @ [api_quote_from_quote api q]\<rparr>)
            (snd (blocking_send (SciQuoteAdded q) cs))
      | Err e \<Rightarrow>
          build_response api rs
            (resp\<lparr>status_codes := status_codes resp @ [status_code_from_error e],
                  error_messages := error_messages resp @ [error_display e],
                  response_quotes := response_quotes resp @
                    [case e of QuoteAlreadyExists existing_quote \<Rightarrow>
                        api_quote_from_quote api existing_quote
                     | _ \<Rightarrow> default_api_quote]\<rparr>) cs
      | Panic \<Rightarrow> (resp, cs))"

definition empty_response :: submit_quotes_response where
  "empty_response = \<lparr>status_codes = [], error_messages = [], response_quotes = []\<rparr>"

definition submit_quotes_impl ::
  "mc_lib \<Rightarrow> api_lib \<Rightarrow> 's quote_book_ops \<Rightarrow> (sci \<Rightarrow> (unit, error) result) \<Rightarrow> nat list \<Rightarrow> int \<Rightarrow>
     bytes list \<Rightarrow> 's client_service \<Rightarrow>
     (submit_quotes_response, rpc_status) result \<times> 's client_service" where
  "submit_quotes_impl lib api ops validator schedule now req cs =
     (if MAX_SIMULTANEOUS_QUOTES \<le> length req then (Err (InvalidArg ''Too many quotes''), cs)
      else
        then_do (map_err (\<lambda>_. Internal ''submit_quotes'') (system_time_nanos now), cs) (\<lambda>timestamp cs.
        then_do (map_err (\<lambda>_. InvalidArg ''quotes'') (collect_results (sci_from_api api) req), cs)
          (\<lambda>sci_list cs.
            (let (results, b') =
                   run_schedule (submit_one lib ops validator now timestamp) sci_list schedule
                     (replicate (length sci_list) Panic) (cs_quote_book cs);
                 cs' = cs\<lparr>cs_quote_book := b'\<rparr>
             in if Panic \<in> set results then (Panic, cs')
                else (let (resp, cs'') = build_response api results empty_response cs'
                      in (Ok resp, cs''))))))"

section \<open>Searching and live updates\<close>

definition get_quotes_impl ::
  "api_lib \<Rightarrow> 's quote_book_ops \<Rightarrow> get_quotes_request \<Rightarrow> 's client_service \<Rightarrow>
     (api_quote list, rpc_status) result" where
  "get_quotes_impl api ops req cs =
     (let range_max =
            (if gq_base_range_min req = 0 \<and> gq_base_range_max req = 0 then u64_max
             else gq_base_range_max req)
      in map_ok (map (api_quote_from_quote api))
           (map_err (\<lambda>_. Internal ''get_quotes'')
              (get_quotes ops (pair_from_api_pair (gq_pair req))
                 (range_inclusive (gq_base_range_min req, range_max))
                 (unat (gq_limit req)) (cs_quote_book cs))))"

definition filter_for_pair :: "api_pair \<Rightarrow> pair option" where
  "filter_for_pair a =
     (let p = pair_from_api_pair a
      in if base_token_id p = 0 \<and> counter_token_id p = 0 then None else Some p)"

definition skip_for_pair :: "pair option \<Rightarrow> quote \<Rightarrow> bool" where
  "skip_for_pair po q \<longleftrightarrow> (case po of Some p \<Rightarrow> q_pair q \<noteq> p | None \<Rightarrow> False)"

fun live_updates_loop :: "api_lib \<Rightarrow> pair option \<Rightarrow> msg list \<Rightarrow> live_update list" where
  "live_updates_loop api po [] = []"
| "live_updates_loop api po (SciQuoteAdded q # ms) =
     (if skip_for_pair po q then live_updates_loop api po ms
      else QuoteAdded (api_quote_from_quote api q) # live_updates_loop api po ms)"
| "live_updates_loop api po (SciQuoteRemoved q # ms) =
     (if skip_for_pair po q then live_updates_loop api po ms
      else QuoteRemoved (api_quote_id_from_quote_id (q_id q)) # live_updates_loop api po ms)"

text \<open>The updates a subscriber is sent for the messages received after it subscribed.\<close>

definition live_updates_impl :: "api_lib \<Rightarrow> api_pair \<Rightarrow> msg list \<Rightarrow> live_update list" where
  "live_updates_impl api pair msgs = live_updates_loop api (filter_for_pair pair) msgs"

section \<open>Lemmas on submission\<close>

definition created_quotes :: "(quote, error) result list \<Rightarrow> quote list" where
  "created_quotes rs = concat (map (\<lambda>r. case r of Ok q \<Rightarrow> [q] | _ \<Rightarrow> []) rs)"

lemma set_created_quotes: "set (created_quotes rs) = {q. Ok q \<in> set rs}"
  by (auto simp: created_quotes_def split: result.splits)

text \<open>
  What a result says about the submitted SCI and the book afterwards: a created quote is the quote of
  the SCI; a quote that already exists is in the book and conflicts with it, unless the validator
  itself made the error.
\<close>

definition submitted_as ::
  "mc_lib \<Rightarrow> (sci \<Rightarrow> (unit, error) result) \<Rightarrow> int \<Rightarrow> u64 \<Rightarrow> quote set \<Rightarrow> sci \<Rightarrow> (quote, error) result \<Rightarrow> bool" where
  "submitted_as lib validator now t B s r \<longleftrightarrow>
     (\<forall>q. r = Ok q \<longrightarrow> quote_new lib now s (Some t) = Ok q \<and> q \<in> B) \<and>
     (\<forall>x. r = Err (QuoteAlreadyExists x) \<longrightarrow> validator s \<noteq> Err (QuoteAlreadyExists x) \<longrightarrow>
        x \<in> B \<and> (\<exists>q. quote_new lib now s (Some t) = Ok q \<and> clash q x))"

lemma submitted_as_mono: "submitted_as lib validator now t B s r \<Longrightarrow> B \<subseteq> B' \<Longrightarrow> submitted_as lib validator now t B' s r"
  by (auto simp: submitted_as_def)

context quote_book
begin

lemma submit_one_law:
  assumes lib: "mc_lib_ok lib" and val: "validator s \<noteq> Panic" and b: "inv b"
    and U: "coherent U" "abs b \<subseteq> U" "offered_quotes lib now t {s} \<subseteq> U"
    and run: "submit_one lib ops validator now t s b = (r, b')"
  shows "inv b' \<and> r \<noteq> Panic \<and>
    (\<forall>q. r = Ok q \<longrightarrow> validator s = Ok () \<and> quote_new lib now s (Some t) = Ok q \<and>
       q \<notin> abs b \<and> abs b' = insert q (abs b)) \<and>
    (\<forall>e. r = Err e \<longrightarrow> abs b' = abs b)"
proof (cases "validator s")
  case (Ok u)
  then show ?thesis
    using run add_sci_law [OF lib b U] by (simp add: submit_one_def)
next
  case (Err e)
  then show ?thesis
    using run b by (auto simp: submit_one_def)
qed (use val in simp)

lemma submit_one_submitted:
  assumes lib: "mc_lib_ok lib" and val: "validator s \<noteq> Panic" and b: "inv b"
    and U: "coherent U" "abs b \<subseteq> U" "offered_quotes lib now t {s} \<subseteq> U"
    and run: "submit_one lib ops validator now t s b = (r, b')"
  shows "submitted_as lib validator now t (abs b') s r"
proof (cases "validator s")
  case (Ok u)
  then show ?thesis
    using run add_sci_law [OF lib b U] by (simp add: submit_one_def submitted_as_def)
qed (use run val in \<open>auto simp: submit_one_def submitted_as_def\<close>)

text \<open>Whatever the schedule: results at other indexes stay, the results at scheduled indexes say what
  happened, and the book grows by exactly the created quotes.\<close>

lemma run_schedule_law:
  assumes lib: "mc_lib_ok lib" and val: "\<And>s. validator s \<noteq> Panic"
    and U: "coherent U" "offered_quotes lib now t (set sci_list) \<subseteq> U"
    and b: "inv b" "abs b \<subseteq> U" and idx: "distinct js" "set js \<subseteq> {..<length sci_list}"
    and len: "length results = length sci_list"
    and run: "run_schedule (submit_one lib ops validator now t) sci_list js results b = (results', b')"
  shows "inv b' \<and> length results' = length sci_list \<and>
    (\<forall>j. j \<notin> set js \<longrightarrow> results' ! j = results ! j) \<and>
    (\<forall>j\<in>set js. results' ! j \<noteq> Panic \<and>
       (\<forall>q. results' ! j = Ok q \<longrightarrow> validator (sci_list ! j) = Ok () \<and>
          quote_new lib now (sci_list ! j) (Some t) = Ok q \<and> q \<notin> abs b)) \<and>
    abs b' = abs b \<union> {q. \<exists>j\<in>set js. results' ! j = Ok q}"
  using b idx len run
proof (induction js arbitrary: b results)
  case (Cons i js)
  obtain r b1 where s: "submit_one lib ops validator now t (sci_list ! i) b = (r, b1)"
    by (cases "submit_one lib ops validator now t (sci_list ! i) b")
  have i: "i < length sci_list" using Cons.prems(4) by simp
  have off: "offered_quotes lib now t {sci_list ! i} \<subseteq> U"
    using U(2) nth_mem [OF i] by (auto simp: offered_quotes_def)
  note law = submit_one_law [OF lib val Cons.prems(1) U(1) Cons.prems(2) off s]
  have b1: "inv b1" "abs b1 \<subseteq> U"
    using law Cons.prems(2) off by (cases r; auto simp: offered_quotes_def)+
  have run1: "run_schedule (submit_one lib ops validator now t) sci_list js (results[i := r]) b1 =
      (results', b')"
    using Cons.prems(6) s by simp
  note ih = Cons.IH [OF b1 _ _ _ run1]
  have i_res: "results' ! i = r"
    using ih Cons.prems(3-5) i by simp
  have "abs b \<subseteq> abs b1" and grow: "abs b1 = abs b \<union> {q. r = Ok q}"
    using law by (cases r; auto)+
  then show ?case
    using ih Cons.prems(3-5) i_res law by auto
qed auto

lemma run_schedule_submitted:
  assumes lib: "mc_lib_ok lib" and val: "\<And>s. validator s \<noteq> Panic"
    and U: "coherent U" "offered_quotes lib now t (set sci_list) \<subseteq> U"
    and b: "inv b" "abs b \<subseteq> U" and idx: "distinct js" "set js \<subseteq> {..<length sci_list}"
    and len: "length results = length sci_list"
    and run: "run_schedule (submit_one lib ops validator now t) sci_list js results b = (results', b')"
  shows "\<forall>j\<in>set js. submitted_as lib validator now t (abs b') (sci_list ! j) (results' ! j)"
  using b idx len run
proof (induction js arbitrary: b results)
  case (Cons i js)
  obtain r b1 where s: "submit_one lib ops validator now t (sci_list ! i) b = (r, b1)"
    by (cases "submit_one lib ops validator now t (sci_list ! i) b")
  have i: "i < length sci_list" using Cons.prems(4) by simp
  have off: "offered_quotes lib now t {sci_list ! i} \<subseteq> U"
    using U(2) nth_mem [OF i] by (auto simp: offered_quotes_def)
  note law = submit_one_law [OF lib val Cons.prems(1) U(1) Cons.prems(2) off s]
  have b1: "inv b1" "abs b1 \<subseteq> U"
    using law Cons.prems(2) off by (cases r; auto simp: offered_quotes_def)+
  have run1: "run_schedule (submit_one lib ops validator now t) sci_list js (results[i := r]) b1 =
      (results', b')"
    using Cons.prems(6) s by simp
  have js: "distinct js" "set js \<subseteq> {..<length sci_list}" "length (results[i := r]) = length sci_list" "i \<notin> set js"
    using Cons.prems(3-5) by simp_all
  note rest = run_schedule_law [OF lib val U b1 js(1-3) run1]
  have "results' ! i = r" "abs b1 \<subseteq> abs b'" using rest js(4) i Cons.prems(5) by auto
  then have "submitted_as lib validator now t (abs b') (sci_list ! i) (results' ! i)"
    using submitted_as_mono [OF submit_one_submitted [OF lib val Cons.prems(1) U(1) Cons.prems(2) off s]] by simp
  with Cons.IH [OF b1 js(1-3) run1] show ?case by simp
qed simp

lemma run_schedule_all:
  assumes lib: "mc_lib_ok lib" and val: "\<And>s. validator s \<noteq> Panic"
    and U: "coherent (abs b \<union> offered_quotes lib now t (set sci_list))" and b: "inv b"
    and sched: "distinct schedule" "set schedule = {..<length sci_list}"
    and run: "run_schedule (submit_one lib ops validator now t) sci_list schedule
      (replicate (length sci_list) Panic) b = (results, b')"
  shows "inv b' \<and> length results = length sci_list \<and> Panic \<notin> set results \<and>
    set (created_quotes results) \<inter> abs b = {} \<and>
    (\<forall>q\<in>set (created_quotes results). \<exists>s\<in>set sci_list. validator s = Ok () \<and>
       quote_new lib now s (Some t) = Ok q) \<and>
    abs b' = abs b \<union> set (created_quotes results) \<and>
    list_all2 (submitted_as lib validator now t (abs b')) sci_list results"
proof -
  have law: "inv b' \<and> length results = length sci_list \<and>
    (\<forall>j<length sci_list. results ! j \<noteq> Panic \<and>
       (\<forall>q. results ! j = Ok q \<longrightarrow> validator (sci_list ! j) = Ok () \<and>
          quote_new lib now (sci_list ! j) (Some t) = Ok q \<and> q \<notin> abs b)) \<and>
    abs b' = abs b \<union> {q. \<exists>j<length sci_list. results ! j = Ok q}"
    using run_schedule_law [OF lib val U _ b _ sched(1) _ _ run] sched(2) by auto
  moreover have "set (created_quotes results) = {q. \<exists>j<length sci_list. results ! j = Ok q}"
    using law by (auto simp: set_created_quotes in_set_conv_nth)
  moreover have "Panic \<notin> set results"
    using law by (metis in_set_conv_nth)
  moreover have "list_all2 (submitted_as lib validator now t (abs b')) sci_list results"
    using run_schedule_submitted [OF lib val U _ b _ sched(1) _ _ run] sched(2) law
    by (auto simp: list_all2_conv_all_nth)
  ultimately show ?thesis
    by (auto intro: nth_mem)
qed

end

lemma build_response_law:
  assumes "Panic \<notin> set rs"
  shows "status_codes (fst (build_response api rs resp cs)) = status_codes resp @
      map (\<lambda>r. case r of Ok q \<Rightarrow> CREATED | Err e \<Rightarrow> status_code_from_error e) rs \<and>
    error_messages (fst (build_response api rs resp cs)) = error_messages resp @
      map (\<lambda>r. case r of Ok q \<Rightarrow> '''' | Err e \<Rightarrow> error_display e) rs \<and>
    response_quotes (fst (build_response api rs resp cs)) = response_quotes resp @
      map (\<lambda>r. case r of Ok q \<Rightarrow> api_quote_from_quote api q
        | Err (QuoteAlreadyExists x) \<Rightarrow> api_quote_from_quote api x
        | Err _ \<Rightarrow> default_api_quote) rs \<and>
    cs_quote_book (snd (build_response api rs resp cs)) = cs_quote_book cs \<and>
    cs_bus_open (snd (build_response api rs resp cs)) = cs_bus_open cs \<and>
    cs_bus (snd (build_response api rs resp cs)) =
      cs_bus cs @ (if cs_bus_open cs then map SciQuoteAdded (created_quotes rs) else [])"
  using assms
proof (induction rs arbitrary: resp cs)
  case (Cons r rs)
  then show ?case
    by (cases r) (auto simp: created_quotes_def blocking_send_def split: error.splits)
qed (simp add: created_quotes_def)

context quote_book
begin

text \<open>The whole of a submission that is not refused: what is answered, what is added and what is
  sent.\<close>

lemma submit_quotes_law:
  assumes lib: "mc_lib_ok lib" and val: "\<And>s. validator s \<noteq> Panic" and b: "inv (cs_quote_book cs)"
    and few: "length req < MAX_SIMULTANEOUS_QUOTES" and time: "system_time_nanos now = Ok t"
    and sci_list: "collect_results (sci_from_api api) req = Ok sci_list"
    and U: "coherent (abs (cs_quote_book cs) \<union> offered_quotes lib now t (set sci_list))"
    and sched: "distinct schedule" "set schedule = {..<length req}"
  obtains results resp cs' where
    "submit_quotes_impl lib api ops validator schedule now req cs = (Ok resp, cs')"
    "length results = length req" "Panic \<notin> set results"
    "status_codes resp = map (\<lambda>r. case r of Ok q \<Rightarrow> CREATED | Err e \<Rightarrow> status_code_from_error e) results"
    "error_messages resp = map (\<lambda>r. case r of Ok q \<Rightarrow> '''' | Err e \<Rightarrow> error_display e) results"
    "response_quotes resp = map (\<lambda>r. case r of Ok q \<Rightarrow> api_quote_from_quote api q
        | Err (QuoteAlreadyExists x) \<Rightarrow> api_quote_from_quote api x
        | Err _ \<Rightarrow> default_api_quote) results"
    "cs_bus cs' = cs_bus cs @ (if cs_bus_open cs then map SciQuoteAdded (created_quotes results) else [])"
    "inv (cs_quote_book cs')"
    "abs (cs_quote_book cs') = abs (cs_quote_book cs) \<union> set (created_quotes results)"
    "set (created_quotes results) \<inter> abs (cs_quote_book cs) = {}"
    "\<forall>q\<in>set (created_quotes results).
       \<exists>s\<in>set sci_list. validator s = Ok () \<and> quote_new lib now s (Some t) = Ok q"
    "list_all2 (submitted_as lib validator now t (abs (cs_quote_book cs'))) sci_list results"
proof -
  have len: "length sci_list = length req"
    using sci_list by (simp add: collect_results_eq_Ok list_all2_lengthD)
  obtain results b' where run: "run_schedule (submit_one lib ops validator now t) sci_list schedule
      (replicate (length sci_list) Panic) (cs_quote_book cs) = (results, b')"
    by (meson surj_pair)
  note all = run_schedule_all [OF lib val U b sched(1) sched(2) [folded len] run]
  let ?cs = "cs\<lparr>cs_quote_book := b'\<rparr>"
  let ?out = "build_response api results empty_response ?cs"
  have np: "Panic \<notin> set results" using all by blast
  have br: "cs_quote_book (snd ?out) = b'" and br2: "status_codes (fst ?out) =
      map (\<lambda>r. case r of Ok q \<Rightarrow> CREATED | Err e \<Rightarrow> status_code_from_error e) results"
    "error_messages (fst ?out) = map (\<lambda>r. case r of Ok q \<Rightarrow> '''' | Err e \<Rightarrow> error_display e) results"
    "response_quotes (fst ?out) = map (\<lambda>r. case r of Ok q \<Rightarrow> api_quote_from_quote api q
        | Err (QuoteAlreadyExists x) \<Rightarrow> api_quote_from_quote api x
        | Err _ \<Rightarrow> default_api_quote) results"
    "cs_bus (snd ?out) = cs_bus cs @ (if cs_bus_open cs then map SciQuoteAdded (created_quotes results) else [])"
    using build_response_law [OF np, of api empty_response ?cs] by (simp_all add: empty_response_def)
  show ?thesis
  proof (rule that [of "fst ?out" "snd ?out" results])
    show "submit_quotes_impl lib api ops validator schedule now req cs = (Ok (fst ?out), snd ?out)"
      using few time sci_list run np by (simp add: submit_quotes_impl_def split_beta Let_def)
    show "\<forall>q\<in>set (created_quotes results).
        \<exists>s\<in>set sci_list. validator s = Ok () \<and> quote_new lib now s (Some t) = Ok q"
      using all by blast
    show "list_all2 (submitted_as lib validator now t (abs (cs_quote_book (snd ?out)))) sci_list results"
      unfolding br using all by blast
  qed (use all len in \<open>simp_all only: br br2 simp_thms\<close>)
qed

end

section \<open>Sample requests\<close>

definition sample_api :: api_lib where
  "sample_api =
     \<lparr>sci_to_api = sci_key_image,
      sci_from_api = (\<lambda>bs. case bs of [k] \<Rightarrow> Ok (sample_full k 100 10) | _ \<Rightarrow> Err ArrayCastError)\<rparr>"

definition sample_service :: "in_memory_quote_book client_service" where
  "sample_service = \<lparr>cs_quote_book = sample_book, cs_bus = [], cs_bus_open = True\<rparr>"

lemma sample_request_coherent:
  "coherent (mem_abs (cs_quote_book sample_service) \<union>
     offered_quotes sample_lib 5 5 (set [sample_full 7 100 10, sample_full 8 100 10]))"
proof -
  have "offered_quotes sample_lib 5 5 (set [sample_full 7 100 10, sample_full 8 100 10]) =
      {sample_full_quote 7 100 10 5, sample_full_quote 8 100 10 5}"
    by (auto simp: offered_quotes_def sample_full_quote_new)
  then show ?thesis
    by (auto simp: coherent_def sample_service_def sample_book_abs rated_def)
qed

section \<open>A submission as a whole\<close>

lemma sci_validator_errors: "sci_validator mins s \<noteq> Panic" "sci_validator mins s \<noteq> Err (QuoteAlreadyExists x)"
  by (simp_all add: sci_validator_def Let_def)

lemma build_response_open:
  "cs_bus_open (snd (build_response api rs resp cs)) = cs_bus_open cs"
  by (induction rs arbitrary: resp cs) (auto simp: blocking_send_def split: result.splits)

lemma submit_quotes_bus_open:
  "cs_bus_open (snd (submit_quotes_impl lib api ops validator schedule now req cs)) = cs_bus_open cs"
  by (cases "system_time_nanos now"; cases "collect_results (sci_from_api api) req")
    (simp_all add: submit_quotes_impl_def Let_def build_response_open case_prod_beta)

context quote_book
begin

text \<open>Whatever the request, the book gains exactly the quotes reported on the bus.\<close>

lemma submit_quotes_keeps:
  assumes lib: "mc_lib_ok lib" and val: "\<forall>s. validator s \<noteq> Panic" and api: "\<forall>b. sci_from_api api b \<noteq> Panic"
    and b: "inv (cs_quote_book cs)" "abs (cs_quote_book cs) \<subseteq> U" and U: "coherent U"
    and sched: "distinct schedule" "set schedule = {..<length req}" and bus: "cs_bus_open cs"
    and off: "\<forall>t sci_list. system_time_nanos now = Ok t \<longrightarrow> collect_results (sci_from_api api) req = Ok sci_list \<longrightarrow>
      offered_quotes lib now t (set sci_list) \<subseteq> U"
    and run: "submit_quotes_impl lib api ops validator schedule now req cs = (r, cs')"
  shows "r \<noteq> Panic \<and> inv (cs_quote_book cs') \<and> abs (cs_quote_book cs') \<subseteq> U \<and> cs_bus_open cs' \<and>
    (\<exists>created. abs (cs_quote_book cs') = abs (cs_quote_book cs) \<union> set created \<and>
       cs_bus cs' = cs_bus cs @ map SciQuoteAdded created)"
proof -
  have op: "cs_bus_open cs'" using submit_quotes_bus_open [of lib api ops validator schedule now req cs] run bus by simp
  have keep: ?thesis if "r \<noteq> Panic" "cs' = cs"
    using that b bus by (auto intro: exI [of _ "[]"])
  show ?thesis
  proof (cases "length req < MAX_SIMULTANEOUS_QUOTES \<and> (\<exists>t. system_time_nanos now = Ok t) \<and>
      (\<exists>l. collect_results (sci_from_api api) req = Ok l)")
    case True
    then obtain t sci_list where few: "length req < MAX_SIMULTANEOUS_QUOTES" and time: "system_time_nanos now = Ok t"
      and sci_list: "collect_results (sci_from_api api) req = Ok sci_list" by blast
    have sub: "abs (cs_quote_book cs) \<union> offered_quotes lib now t (set sci_list) \<subseteq> U"
      using b(2) off time sci_list by blast
    have val': "\<And>s. validator s \<noteq> Panic" using val by blast
    show ?thesis
    proof (rule submit_quotes_law [OF lib val' b(1) few time sci_list coherent_subset [OF U sub] sched])
      fix results resp cs1
      assume res: "submit_quotes_impl lib api ops validator schedule now req cs = (Ok resp, cs1)"
        and bus1: "cs_bus cs1 = cs_bus cs @ (if cs_bus_open cs then map SciQuoteAdded (created_quotes results) else [])"
        and inv1: "inv (cs_quote_book cs1)"
        and abs1: "abs (cs_quote_book cs1) = abs (cs_quote_book cs) \<union> set (created_quotes results)"
        and new: "\<forall>q\<in>set (created_quotes results).
          \<exists>s\<in>set sci_list. validator s = Ok () \<and> quote_new lib now s (Some t) = Ok q"
      have "set (created_quotes results) \<subseteq> offered_quotes lib now t (set sci_list)"
        using new by (auto simp: offered_quotes_def)
      then have "abs (cs_quote_book cs1) \<subseteq> U" using abs1 sub by blast
      with res run bus1 inv1 abs1 op bus show ?thesis by auto
    qed
  next
    case False
    have "collect_results (sci_from_api api) req \<noteq> Panic"
      using api by (induction req) (auto simp: result_simps)
    with False run show ?thesis
      by (intro keep; cases "MAX_SIMULTANEOUS_QUOTES \<le> length req"; cases "system_time_nanos now";
          cases "collect_results (sci_from_api api) req")
        (auto simp: submit_quotes_impl_def not_less)
  qed
qed

end

section \<open>Properties\<close>

text \<open>
  A submission answers every SCI. When the request is not refused as a whole, the response
  has one status code, one error message and one quote per submitted SCI, whatever the order in
  which the parallel additions ran. This is what the liquidity bot checks before it uses a response.
\<close>

lemma submit_response_lengths:
  assumes "quote_book lib ops absf invf" and "mc_lib_ok lib" and "\<And>s. validator s \<noteq> Panic"
    and "invf (cs_quote_book cs)" and "length req < MAX_SIMULTANEOUS_QUOTES"
    and "system_time_nanos now = Ok t" and "collect_results (sci_from_api api) req = Ok sci_list"
    and "coherent (absf (cs_quote_book cs) \<union> offered_quotes lib now t (set sci_list))"
    and "distinct schedule" and "set schedule = {..<length req}"
  shows "\<exists>resp cs'. submit_quotes_impl lib api ops validator schedule now req cs = (Ok resp, cs') \<and>
    length (status_codes resp) = length req \<and> length (error_messages resp) = length req \<and>
    length (response_quotes resp) = length req"
  by (rule quote_book.submit_quotes_law [OF assms]) auto

lemma submit_response_lengths_witness:
  "\<exists>resp cs'. submit_quotes_impl sample_lib sample_api (in_memory_ops sample_lib)
      (sci_validator Map.empty) [1, 0] 5 [[7], [8]] sample_service = (Ok resp, cs') \<and>
    length (status_codes resp) = 2"
proof -
  have "\<exists>resp cs'. submit_quotes_impl sample_lib sample_api (in_memory_ops sample_lib)
      (sci_validator Map.empty) [1, 0] 5 [[7], [8]] sample_service = (Ok resp, cs') \<and>
    length (status_codes resp) = length [[7 :: u8], [8]] \<and>
    length (error_messages resp) = length [[7 :: u8], [8]] \<and>
    length (response_quotes resp) = length [[7 :: u8], [8]]"
    by (rule submit_response_lengths [OF mem.quote_book_axioms sample_lib_ok _ _ _ _ _
          sample_request_coherent])
      (auto simp: sample_service_def sample_book_inv MAX_SIMULTANEOUS_QUOTES_def
        system_time_nanos_def sample_api_def sci_validator_def)
  then show ?thesis by auto
qed

text \<open>
  C19: Submission, book and bus agree. The book grows by exactly the quotes reported as
  created; every one of them comes from a submitted SCI that the server's validator accepts and that
  makes a valid quote, and was not in the book before; a message is sent for each of them, in the
  order of the response, and for nothing else.
\<close>

theorem submit_quotes_faithful:
  assumes "quote_book lib ops absf invf" and "mc_lib_ok lib" and "\<And>s. validator s \<noteq> Panic"
    and "invf (cs_quote_book cs)" and "length req < MAX_SIMULTANEOUS_QUOTES"
    and "system_time_nanos now = Ok t" and "collect_results (sci_from_api api) req = Ok sci_list"
    and "coherent (absf (cs_quote_book cs) \<union> offered_quotes lib now t (set sci_list))"
    and "distinct schedule" and "set schedule = {..<length req}" and "cs_bus_open cs"
  shows "\<exists>resp cs' created. submit_quotes_impl lib api ops validator schedule now req cs = (Ok resp, cs') \<and>
    invf (cs_quote_book cs') \<and>
    absf (cs_quote_book cs') = absf (cs_quote_book cs) \<union> set created \<and>
    set created \<inter> absf (cs_quote_book cs) = {} \<and>
    (\<forall>q\<in>set created. \<exists>s\<in>set sci_list. validator s = Ok () \<and> quote_new lib now s (Some t) = Ok q) \<and>
    cs_bus cs' = cs_bus cs @ map SciQuoteAdded created \<and>
    map (api_quote_from_quote api) created =
      map snd (filter (\<lambda>(c, q). c = CREATED) (zip (status_codes resp) (response_quotes resp)))"
proof (rule quote_book.submit_quotes_law [OF assms(1-10)])
  fix results resp cs'
  assume resp: "submit_quotes_impl lib api ops validator schedule now req cs = (Ok resp, cs')"
      "Panic \<notin> set results"
      "status_codes resp = map (\<lambda>r. case r of Ok q \<Rightarrow> CREATED | Err e \<Rightarrow> status_code_from_error e) results"
      "response_quotes resp = map (\<lambda>r. case r of Ok q \<Rightarrow> api_quote_from_quote api q
        | Err (QuoteAlreadyExists x) \<Rightarrow> api_quote_from_quote api x
        | Err _ \<Rightarrow> default_api_quote) results"
    and rest: "cs_bus cs' = cs_bus cs @ (if cs_bus_open cs then map SciQuoteAdded (created_quotes results) else [])"
      "invf (cs_quote_book cs')"
      "absf (cs_quote_book cs') = absf (cs_quote_book cs) \<union> set (created_quotes results)"
      "set (created_quotes results) \<inter> absf (cs_quote_book cs) = {}"
      "\<forall>q\<in>set (created_quotes results).
         \<exists>s\<in>set sci_list. validator s = Ok () \<and> quote_new lib now s (Some t) = Ok q"
  have "map (api_quote_from_quote api) (created_quotes results) =
      map snd (filter (\<lambda>(c, q). c = CREATED) (zip (status_codes resp) (response_quotes resp)))"
    unfolding resp(3,4) using resp(2)
  proof (induction results)
    case (Cons r rs)
    then show ?case by (cases r) (auto simp: created_quotes_def)
  qed (simp add: created_quotes_def)
  with resp(1) rest assms(11) show ?thesis by auto
qed

theorem submit_quotes_faithful_witness:
  "\<exists>resp cs' created. submit_quotes_impl sample_lib sample_api (in_memory_ops sample_lib)
      (sci_validator Map.empty) [1, 0] 5 [[7], [8]] sample_service = (Ok resp, cs') \<and>
    mem_abs (cs_quote_book cs') = mem_abs sample_book \<union> set created \<and>
    cs_bus cs' = map SciQuoteAdded created"
proof -
  have "\<exists>resp cs' created. submit_quotes_impl sample_lib sample_api (in_memory_ops sample_lib)
      (sci_validator Map.empty) [1, 0] 5 [[7], [8]] sample_service = (Ok resp, cs') \<and>
    mem_inv (cs_quote_book cs') \<and>
    mem_abs (cs_quote_book cs') = mem_abs (cs_quote_book sample_service) \<union> set created \<and>
    set created \<inter> mem_abs (cs_quote_book sample_service) = {} \<and>
    (\<forall>q\<in>set created. \<exists>s\<in>set [sample_full 7 100 10, sample_full 8 100 10].
       sci_validator Map.empty s = Ok () \<and> quote_new sample_lib 5 s (Some 5) = Ok q) \<and>
    cs_bus cs' = cs_bus sample_service @ map SciQuoteAdded created \<and>
    map (api_quote_from_quote sample_api) created =
      map snd (filter (\<lambda>(c, q). c = CREATED) (zip (status_codes resp) (response_quotes resp)))"
    by (rule submit_quotes_faithful [OF mem.quote_book_axioms sample_lib_ok _ _ _ _ _
          sample_request_coherent])
      (auto simp: sample_service_def sample_book_inv MAX_SIMULTANEOUS_QUOTES_def
        system_time_nanos_def sample_api_def sci_validator_def)
  then show ?thesis by (auto simp: sample_service_def)
qed



text \<open>
  C21: A search over the API. With a sound and reliable book, the response is the converted
  result of the book for the requested pair and limit, best rate first; a request with both ends of
  the range 0 searches all amounts.
\<close>

theorem get_quotes_api_exact:
  assumes "reliable_quote_book lib ops absf invf" and "invf (cs_quote_book cs)"
  shows "\<exists>full. get_quotes_impl api ops req cs =
      Ok (map (api_quote_from_quote api) (limited (unat (gq_limit req)) full)) \<and>
    sorted_wrt (\<lambda>a b. quote_cmp a b = Less) full \<and>
    set full = {x \<in> absf (cs_quote_book cs). q_pair x = pair_from_api_pair (gq_pair req) \<and>
      (gq_base_range_min req = 0 \<and> gq_base_range_max req = 0 \<or>
       gq_base_range_min req \<le> snd (q_base_range x) \<and>
       fst (q_base_range x) \<le> gq_base_range_max req)}"
proof -
  let ?max = "if gq_base_range_min req = 0 \<and> gq_base_range_max req = 0 then u64_max
    else gq_base_range_max req"
  let ?rng = "range_inclusive (gq_base_range_min req, ?max)"
  have qb: "quote_book lib ops absf invf"
    using assms(1) by (simp add: reliable_quote_book_def)
  obtain qs where qs: "get_quotes ops (pair_from_api_pair (gq_pair req)) ?rng
      (unat (gq_limit req)) (cs_quote_book cs) = Ok qs"
    using reliable_quote_book.get_quotes_ok [OF assms] by blast
  have "range_overlaps ?rng (range_inclusive (q_base_range x)) \<longleftrightarrow>
      gq_base_range_min req = 0 \<and> gq_base_range_max req = 0 \<or>
      gq_base_range_min req \<le> snd (q_base_range x) \<and> fst (q_base_range x) \<le> gq_base_range_max req"
    for x by (auto simp: range_overlaps_def range_inclusive_def)
  then show ?thesis
    using quote_book.get_quotes_law [OF qb assms(2), of "pair_from_api_pair (gq_pair req)" ?rng
        "unat (gq_limit req)"] qs
    by (auto simp: get_quotes_impl_def get_quotes_spec_def Let_def)
qed

theorem get_quotes_api_exact_witness:
  "\<exists>full. get_quotes_impl sample_api (in_memory_ops sample_lib)
      \<lparr>gq_pair = \<lparr>ap_base_token_id = 0, ap_counter_token_id = 1\<rparr>, gq_base_range_min = 0,
       gq_base_range_max = 0, gq_limit = 0\<rparr> sample_service =
      Ok (map (api_quote_from_quote sample_api) full) \<and>
    set full = {x \<in> mem_abs sample_book. q_pair x = Pair 0 1}"
  using get_quotes_api_exact [OF mem.reliable_quote_book_axioms, of sample_service sample_api sample_lib
      "\<lparr>gq_pair = \<lparr>ap_base_token_id = 0, ap_counter_token_id = 1\<rparr>, gq_base_range_min = 0,
       gq_base_range_max = 0, gq_limit = 0\<rparr>"]
  by (auto simp: sample_service_def sample_book_inv limited_def pair_from_api_pair_def)

definition msg_quote :: "msg \<Rightarrow> quote" where
  "msg_quote m = (case m of SciQuoteAdded q \<Rightarrow> q | SciQuoteRemoved q \<Rightarrow> q)"

definition update_of :: "api_lib \<Rightarrow> msg \<Rightarrow> live_update" where
  "update_of api m =
     (case m of SciQuoteAdded q \<Rightarrow> QuoteAdded (api_quote_from_quote api q)
      | SciQuoteRemoved q \<Rightarrow> QuoteRemoved (q_id q))"

lemma live_updates_loop_eq:
  "live_updates_loop api po msgs =
     map (update_of api) (filter (\<lambda>m. \<not> skip_for_pair po (msg_quote m)) msgs)"
  by (induction api po msgs rule: live_updates_loop.induct)
    (auto simp: update_of_def msg_quote_def api_quote_id_from_quote_id_def)

text \<open>
  Live updates. A subscriber to a pair receives one update for each message about a quote of
  that pair, in the order of the bus, and nothing else; a subscriber to the pair 0/0 receives one
  for every message.
\<close>

theorem live_updates_exact:
  "live_updates_impl api pair msgs =
     map (update_of api)
       (filter (\<lambda>m. (ap_base_token_id pair = 0 \<and> ap_counter_token_id pair = 0) \<or>
          q_pair (msg_quote m) = pair_from_api_pair pair) msgs)"
proof -
  have "\<not> skip_for_pair (filter_for_pair pair) q \<longleftrightarrow>
      ap_base_token_id pair = 0 \<and> ap_counter_token_id pair = 0 \<or> q_pair q = pair_from_api_pair pair"
    for q by (auto simp: skip_for_pair_def filter_for_pair_def pair_from_api_pair_def Let_def)
  then show ?thesis
    by (simp add: live_updates_impl_def live_updates_loop_eq)
qed

end
