(* ===== verification/P2P_Server.thy ===== *)
theory P2P_Server
  imports P2P_Sync Client_Service
begin

text \<open>
  The server's use of the peer-to-peer network (\<open>P2P\<close> in \<open>server/src/p2p/mod.rs\<close>): gossip messages
  and network events; the event loop of \<open>server/src/server.rs\<close> that feeds it, with the metrics of
  \<open>server/src/metrics.rs\<close>; and the callback that reports removed quotes on the message bus.
\<close>

section \<open>Gossip\<close>

datatype gossip_msg_bus_data = GossipSciQuoteAdded quote

text \<open>The serializer of \<open>mc_util_serial\<close> and the topic hash of libp2p.\<close>

record p2p_lib =
  gossip_serialize :: "gossip_msg_bus_data \<Rightarrow> (bytes, string) result"
  gossip_deserialize :: "bytes \<Rightarrow> (gossip_msg_bus_data, string) result"
  topic_hash :: "topic \<Rightarrow> string"

definition p2p_lib_ok :: "p2p_lib \<Rightarrow> bool" where
  "p2p_lib_ok plib \<longleftrightarrow>
     (\<forall>m. gossip_serialize plib m \<noteq> Panic) \<and> (\<forall>bs. gossip_deserialize plib bs \<noteq> Panic) \<and>
     (\<forall>m bs. gossip_serialize plib m = Ok bs \<longrightarrow> gossip_deserialize plib bs = Ok m)"

definition MSG_BUS_TOPIC :: topic where
  "MSG_BUS_TOPIC = ''mc/deqs/server/msg-bus''"

definition broadcast_sci_quote_added ::
  "p2p_lib \<Rightarrow> (request, response, 'n) client_env \<Rightarrow> quote \<Rightarrow> ('b, 'n) p2p \<Rightarrow>
     (unit, server_error) result \<times> ('b, 'n) p2p" where
  "broadcast_sci_quote_added plib env quote st =
     then_do (map_err ServerEncode (gossip_serialize plib (GossipSciQuoteAdded quote)), st) (\<lambda>bytes st.
       (let (r, n) = publish_gossip env MSG_BUS_TOPIC bytes (p2p_net st)
        in (map_ok (\<lambda>_. ()) (map_err ServerP2PClient r), st\<lparr>p2p_net := n\<rparr>)))"

definition handle_sci_quote_added ::
  "mc_lib \<Rightarrow> 'b quote_book_ops \<Rightarrow> int \<Rightarrow> quote \<Rightarrow> ('b, 'n) p2p \<Rightarrow>
     (unit, server_error) result \<times> ('b, 'n) p2p" where
  "handle_sci_quote_added lib ops now remote_quote st =
     (let (r, b) = add_sci lib ops now (q_sci remote_quote) (Some (q_timestamp remote_quote)) (p2p_book st)
      in then_do (map_err ServerQuoteBook r, st\<lparr>p2p_book := b\<rparr>) (\<lambda>local_quote st.
           if remote_quote \<noteq> local_quote then (Ok (), st) else (Ok (), st)))"

fun handle_msg_bus_message ::
  "mc_lib \<Rightarrow> 'b quote_book_ops \<Rightarrow> int \<Rightarrow> gossip_msg_bus_data \<Rightarrow> ('b, 'n) p2p \<Rightarrow>
     (unit, server_error) result \<times> ('b, 'n) p2p" where
  "handle_msg_bus_message lib ops now (GossipSciQuoteAdded quote) st =
     handle_sci_quote_added lib ops now quote st"

definition handle_gossip_message ::
  "mc_lib \<Rightarrow> p2p_lib \<Rightarrow> 'b quote_book_ops \<Rightarrow> int \<Rightarrow> gossip_message \<Rightarrow> ('b, 'n) p2p \<Rightarrow>
     (unit, server_error) result \<times> ('b, 'n) p2p" where
  "handle_gossip_message lib plib ops now message st =
     (if gm_topic message = topic_hash plib MSG_BUS_TOPIC
      then then_do (map_err ServerDecode (gossip_deserialize plib (gm_data message)), st) (\<lambda>msg st.
        handle_msg_bus_message lib ops now msg st)
      else (Ok (), st))"

section \<open>Network events\<close>

text \<open>The sync with a new peer runs in a task of its own; here it is only recorded as started.\<close>

definition handle_connection_established ::
  "peer_id \<Rightarrow> ('b, 'n) p2p \<Rightarrow> (unit, server_error) result \<times> ('b, 'n) p2p" where
  "handle_connection_established peer_id st =
     (Ok (), st\<lparr>p2p_sync_tasks := p2p_sync_tasks st @ [peer_id]\<rparr>)"

text \<open>An error of a handler is logged and dropped.\<close>

fun logged :: "('a, 'e) result \<times> 's \<Rightarrow> (unit, unit) result \<times> 's" where
  "logged (Ok a, st) = (Ok (), st)"
| "logged (Err e, st) = (Ok (), st)"
| "logged (Panic, st) = (Panic, st)"

fun handle_network_event ::
  "mc_lib \<Rightarrow> p2p_lib \<Rightarrow> 'b quote_book_ops \<Rightarrow> (request, response, 'n) client_env \<Rightarrow> int \<Rightarrow>
     request network_event \<Rightarrow> ('b, 'n) p2p \<Rightarrow> (unit, unit) result \<times> ('b, 'n) p2p" where
  "handle_network_event lib plib ops env now (ConnectionEstablished peer_id) st =
     logged (handle_connection_established peer_id st)"
| "handle_network_event lib plib ops env now (GossipMessage message) st =
     logged (handle_gossip_message lib plib ops now message st)"
| "handle_network_event lib plib ops env now (RpcRequestEvent peer req channel) st =
     logged (handle_rpc_request ops env peer req channel st)"
| "handle_network_event lib plib ops env now (NewListenAddr address) st = (Ok (), st)"

section \<open>The event loop of the server\<close>

text \<open>
  What one iteration of the loop receives: a message of the bus, an event of the network (\<open>None\<close>
  when the stream is closed), the shutdown signal, or a tick of the metrics timer.
\<close>

datatype server_input =
    BusMsg "msg option"
  | NetEvent "request network_event option"
  | Shutdown
  | MetricsTick

record ('b, 'n) server =
  srv_p2p :: "('b, 'n) p2p"
  SCI_COUNT :: int
  P2P_NUM_CONNECTED_PEERS :: int

definition update_periodic_metrics ::
  "'b quote_book_ops \<Rightarrow> (request, response, 'n) client_env \<Rightarrow> ('b, 'n) server \<Rightarrow>
     (unit, server_error) result \<times> ('b, 'n) server" where
  "update_periodic_metrics ops env sv =
     then_do (map_err ServerQuoteBook (num_scis ops (p2p_book (srv_p2p sv))), sv) (\<lambda>count sv.
       (let sv = sv\<lparr>SCI_COUNT := as_i64 count\<rparr>;
            (r, n) = connected_peers env (p2p_net (srv_p2p sv));
            sv = sv\<lparr>srv_p2p := (srv_p2p sv)\<lparr>p2p_net := n\<rparr>\<rparr>
        in then_do (map_err ServerP2PClient r, sv) (\<lambda>peers sv.
             (Ok (), sv\<lparr>P2P_NUM_CONNECTED_PEERS := int (length peers)\<rparr>))))"

text \<open>Whether the loop goes on.\<close>

definition on_p2p ::
  "(unit, unit) result \<times> ('b, 'n) p2p \<Rightarrow> ('b, 'n) server \<Rightarrow> (bool, unit) result \<times> ('b, 'n) server" where
  "on_p2p out sv = (map_ok (\<lambda>_. True) (fst out), sv\<lparr>srv_p2p := snd out\<rparr>)"

fun server_step ::
  "mc_lib \<Rightarrow> p2p_lib \<Rightarrow> 'b quote_book_ops \<Rightarrow> (request, response, 'n) client_env \<Rightarrow> int \<Rightarrow>
     server_input \<Rightarrow> ('b, 'n) server \<Rightarrow> (bool, unit) result \<times> ('b, 'n) server" where
  "server_step lib plib ops env now (BusMsg (Some (SciQuoteAdded quote))) sv =
     on_p2p (logged (broadcast_sci_quote_added plib env quote (srv_p2p sv))) sv"
| "server_step lib plib ops env now (BusMsg (Some (SciQuoteRemoved quote))) sv = (Ok True, sv)"
| "server_step lib plib ops env now (BusMsg None) sv = (Ok False, sv)"
| "server_step lib plib ops env now (NetEvent (Some event)) sv =
     on_p2p (handle_network_event lib plib ops env now event (srv_p2p sv)) sv"
| "server_step lib plib ops env now (NetEvent None) sv = (Ok False, sv)"
| "server_step lib plib ops env now Shutdown sv = (Ok False, sv)"
| "server_step lib plib ops env now MetricsTick sv =
     (case logged (update_periodic_metrics ops env sv) of (r, sv') \<Rightarrow> (map_ok (\<lambda>_. True) r, sv'))"

text \<open>The loop over the inputs, each with the time it arrives; it returns the inputs it left.\<close>

fun server_loop ::
  "mc_lib \<Rightarrow> p2p_lib \<Rightarrow> 'b quote_book_ops \<Rightarrow> (request, response, 'n) client_env \<Rightarrow>
     (int \<times> server_input) list \<Rightarrow> ('b, 'n) server \<Rightarrow>
     ((int \<times> server_input) list, unit) result \<times> ('b, 'n) server" where
  "server_loop lib plib ops env [] sv = (Ok [], sv)"
| "server_loop lib plib ops env ((now, input) # inputs) sv =
     (case server_step lib plib ops env now input sv of
        (Ok True, sv') \<Rightarrow> server_loop lib plib ops env inputs sv'
      | (Ok False, sv') \<Rightarrow> (Ok inputs, sv')
      | (_, sv') \<Rightarrow> (Panic, sv'))"

section \<open>Reporting removed quotes\<close>

text \<open>The callback of the background thread; it panics when the bus has no receiver.\<close>

fun remove_quote_callback ::
  "quote list \<Rightarrow> 's client_service \<Rightarrow> (unit, unit) result \<times> 's client_service" where
  "remove_quote_callback [] cs = (Ok (), cs)"
| "remove_quote_callback (quote # quotes) cs =
     (case blocking_send (SciQuoteRemoved quote) cs of
        (True, cs') \<Rightarrow> remove_quote_callback quotes cs'
      | (False, cs') \<Rightarrow> (Panic, cs'))"

section \<open>Lemmas\<close>

lemma send_and_await_not_Panic: "fst (send_and_await env mk await n) \<noteq> Panic"
  by (auto simp: send_and_await_def split: prod.splits option.splits bool.splits)

lemma publish_gossip_not_Panic: "fst (publish_gossip env t msg n) \<noteq> Panic"
proof (cases "send_and_await env (PublishGossip t msg) (await_publish env) n")
  case (Pair r n')
  then have "r \<noteq> Panic"
    using send_and_await_not_Panic [of env "PublishGossip t msg" "await_publish env" n] by simp
  with Pair show ?thesis
    by (cases r; cases "\<exists>v. r = Ok v") (auto simp: publish_gossip_def elim!: from_sum.elims)
qed

lemma logged_simps:
  "snd (logged out) = snd out" "fst (logged out) = (if fst out = Panic then Panic else Ok ())"
  by (cases out; cases "fst out"; simp)+

lemma broadcast_frame:
  "p2p_book (snd (broadcast_sci_quote_added plib env q st)) = p2p_book st"
  "p2p_lib_ok plib \<Longrightarrow> fst (broadcast_sci_quote_added plib env q st) \<noteq> Panic"
proof -
  have ser: "gossip_serialize plib (GossipSciQuoteAdded q) \<noteq> Panic" if "p2p_lib_ok plib"
    using that by (simp add: p2p_lib_ok_def)
  show "p2p_book (snd (broadcast_sci_quote_added plib env q st)) = p2p_book st"
    by (cases "gossip_serialize plib (GossipSciQuoteAdded q)")
      (auto simp: broadcast_sci_quote_added_def split: prod.splits)
  show "fst (broadcast_sci_quote_added plib env q st) \<noteq> Panic" if "p2p_lib_ok plib"
  proof (cases "gossip_serialize plib (GossipSciQuoteAdded q)")
    case (Ok bs)
    obtain r n where p: "publish_gossip env MSG_BUS_TOPIC bs (p2p_net st) = (r, n)" by fastforce
    then have "r \<noteq> Panic" using publish_gossip_not_Panic [of env MSG_BUS_TOPIC bs "p2p_net st"] by simp
    with Ok p show ?thesis by (cases r) (simp_all add: broadcast_sci_quote_added_def)
  qed (use ser [OF that] in \<open>simp_all add: broadcast_sci_quote_added_def\<close>)
qed

lemma metrics_frame:
  "p2p_book (srv_p2p (snd (update_periodic_metrics ops env sv))) = p2p_book (srv_p2p sv)"
  "num_scis ops (p2p_book (srv_p2p sv)) \<noteq> Panic \<Longrightarrow> fst (update_periodic_metrics ops env sv) \<noteq> Panic"
proof -
  obtain r n where p: "connected_peers env (p2p_net (srv_p2p sv)) = (r, n)" by fastforce
  then have r: "r \<noteq> Panic"
    using send_and_await_not_Panic [of env ConnectedPeerList "await_peers env" "p2p_net (srv_p2p sv)"]
    by (simp add: connected_peers_def)
  show "p2p_book (srv_p2p (snd (update_periodic_metrics ops env sv))) = p2p_book (srv_p2p sv)"
    using p r by (cases "num_scis ops (p2p_book (srv_p2p sv))"; cases r)
      (simp_all add: update_periodic_metrics_def)
  show "fst (update_periodic_metrics ops env sv) \<noteq> Panic"
    if "num_scis ops (p2p_book (srv_p2p sv)) \<noteq> Panic"
    using that p r by (cases "num_scis ops (p2p_book (srv_p2p sv))"; cases r)
      (simp_all add: update_periodic_metrics_def)
qed

text \<open>The quotes a gossip message can bring stay within a set.\<close>

definition gossip_within :: "mc_lib \<Rightarrow> p2p_lib \<Rightarrow> int \<Rightarrow> quote set \<Rightarrow> gossip_message \<Rightarrow> bool" where
  "gossip_within lib plib now U m \<longleftrightarrow>
     (\<forall>q. gossip_deserialize plib (gm_data m) = Ok (GossipSciQuoteAdded q) \<longrightarrow>
        offered_quotes lib now (q_timestamp q) {q_sci q} \<subseteq> U)"

fun input_within :: "mc_lib \<Rightarrow> p2p_lib \<Rightarrow> quote set \<Rightarrow> int \<times> server_input \<Rightarrow> bool" where
  "input_within lib plib U (now, NetEvent (Some (GossipMessage m))) = gossip_within lib plib now U m"
| "input_within lib plib U _ = True"

fun stops :: "server_input \<Rightarrow> bool" where
  "stops (BusMsg None) = True"
| "stops (NetEvent None) = True"
| "stops Shutdown = True"
| "stops _ = False"

lemma handle_sci_quote_added_eq:
  assumes "add_sci lib ops now (q_sci q) (Some (q_timestamp q)) (p2p_book st) = (r, b)"
  shows "handle_sci_quote_added lib ops now q st =
    (map_ok (\<lambda>_. ()) (map_err ServerQuoteBook r), st\<lparr>p2p_book := b\<rparr>)"
  using assms by (cases r) (simp_all add: handle_sci_quote_added_def)

context quote_book
begin

lemma handle_sci_quote_added_law:
  assumes lib: "mc_lib_ok lib" and b: "inv (p2p_book st)" "abs (p2p_book st) \<subseteq> U" and U: "coherent U"
    and off: "offered_quotes lib now (q_timestamp q) {q_sci q} \<subseteq> U"
    and run: "handle_sci_quote_added lib ops now q st = (r, st')"
  shows "r \<noteq> Panic \<and> inv (p2p_book st') \<and> abs (p2p_book st) \<subseteq> abs (p2p_book st') \<and>
    abs (p2p_book st') \<subseteq> abs (p2p_book st) \<union> offered_quotes lib now (q_timestamp q) {q_sci q}"
proof -
  obtain ra ba where a: "add_sci lib ops now (q_sci q) (Some (q_timestamp q)) (p2p_book st) = (ra, ba)"
    by fastforce
  have st': "r = map_ok (\<lambda>_. ()) (map_err ServerQuoteBook ra)" "p2p_book st' = ba"
    using handle_sci_quote_added_eq [OF a] run by auto
  show ?thesis
  proof (cases ra)
    case (Ok x)
    then show ?thesis
      using add_sci_law [OF lib b(1) U b(2) off a] st' by (simp add: offered_quotes_def subset_insertI)
  qed (use add_sci_law [OF lib b(1) U b(2) off a] st' in auto)
qed

lemma handle_gossip_law:
  assumes lib: "mc_lib_ok lib" "p2p_lib_ok plib"
    and b: "inv (p2p_book st)" "abs (p2p_book st) \<subseteq> U" and U: "coherent U"
    and m: "gossip_within lib plib now U m"
    and run: "handle_gossip_message lib plib ops now m st = (r, st')"
  shows "r \<noteq> Panic \<and> inv (p2p_book st') \<and> abs (p2p_book st) \<subseteq> abs (p2p_book st') \<and>
    abs (p2p_book st') \<subseteq> U"
proof (cases "gm_topic m = topic_hash plib MSG_BUS_TOPIC")
  case True
  show ?thesis
  proof (cases "gossip_deserialize plib (gm_data m)")
    case (Ok msg)
    obtain q where q: "msg = GossipSciQuoteAdded q" by (cases msg)
    then have off: "offered_quotes lib now (q_timestamp q) {q_sci q} \<subseteq> U"
      using m Ok by (simp add: gossip_within_def)
    have "handle_sci_quote_added lib ops now q st = (r, st')"
      using run True Ok q by (simp add: handle_gossip_message_def)
    from handle_sci_quote_added_law [OF lib(1) b U off this] off b(2) show ?thesis by blast
  next
    case (Err e)
    with run True b show ?thesis by (auto simp: handle_gossip_message_def)
  next
    case Panic
    with lib(2) show ?thesis by (simp add: p2p_lib_ok_def)
  qed
qed (use run b in \<open>auto simp: handle_gossip_message_def\<close>)

lemma handle_rpc_request_frame:
  assumes "inv (p2p_book st)" and "handle_rpc_request ops env peer req channel st = (r, st')"
  shows "\<exists>resp. rpc_answer ops (p2p_book st) req = Ok resp \<and> p2p_book st' = p2p_book st \<and>
    p2p_metrics st' = metrics_resp (metrics_method_name req) resp (metrics_req req (p2p_metrics st)) \<and>
    r = map_err ServerP2PClient (fst (rpc_response env resp channel (p2p_net st))) \<and>
    p2p_net st' = snd (rpc_response env resp channel (p2p_net st)) \<and> r \<noteq> Panic"
proof -
  obtain resp where resp: "rpc_answer ops (p2p_book st) req = Ok resp"
    using rpc_answer_total [OF assms(1)] by blast
  obtain r1 n where r1: "rpc_response env resp channel (p2p_net st) = (r1, n)" by fastforce
  then have "r1 \<noteq> Panic" by (auto simp: rpc_response_def split: prod.splits bool.splits)
  with assms(2) resp r1 show ?thesis
    by (cases r1) (auto simp: handle_rpc_request_def Let_def)
qed

lemma server_step_law:
  assumes lib: "mc_lib_ok lib" "p2p_lib_ok plib" and U: "coherent U"
    and b: "inv (p2p_book (srv_p2p sv))" "abs (p2p_book (srv_p2p sv)) \<subseteq> U"
    and i: "input_within lib plib U (now, input)"
    and run: "server_step lib plib ops env now input sv = (r, sv')"
  shows "r = Ok (\<not> stops input) \<and> inv (p2p_book (srv_p2p sv')) \<and>
    abs (p2p_book (srv_p2p sv)) \<subseteq> abs (p2p_book (srv_p2p sv')) \<and> abs (p2p_book (srv_p2p sv')) \<subseteq> U"
proof (cases input)
  case (BusMsg m)
  show ?thesis
  proof (cases m)
    case (Some m')
    show ?thesis
      using run BusMsg Some b broadcast_frame [of plib env _ "srv_p2p sv"] lib(2)
      by (cases m') (auto simp: on_p2p_def logged_simps)
  qed (use run BusMsg b in simp)
next
  case (NetEvent e)
  show ?thesis
  proof (cases e)
    case (Some e')
    show ?thesis
    proof (cases e')
      case (RpcRequestEvent peer req channel)
      obtain r1 st1 where h: "handle_rpc_request ops env peer req channel (srv_p2p sv) = (r1, st1)"
        by fastforce
      show ?thesis
        using handle_rpc_request_frame [OF b(1) h] run NetEvent Some RpcRequestEvent h b
        by (auto simp: on_p2p_def logged_simps)
    next
      case (GossipMessage m)
      obtain r1 st1 where h: "handle_gossip_message lib plib ops now m (srv_p2p sv) = (r1, st1)"
        by fastforce
      have "gossip_within lib plib now U m" using i NetEvent Some GossipMessage by simp
      from handle_gossip_law [OF lib b U this h] show ?thesis
        using run NetEvent Some GossipMessage h by (auto simp: on_p2p_def logged_simps)
    qed (use run NetEvent Some b in \<open>auto simp: on_p2p_def handle_connection_established_def\<close>)
  qed (use run NetEvent b in simp)
next
  case MetricsTick
  then show ?thesis
    using run metrics_frame [where ops = ops and env = env and sv = sv] no_panic(8) [OF b(1)] b
    by (cases "logged (update_periodic_metrics ops env sv)")
      (use logged_simps [of "update_periodic_metrics ops env sv"] in auto)
qed (use run b in simp)

lemma server_loop_law:
  assumes lib: "mc_lib_ok lib" "p2p_lib_ok plib" and U: "coherent U"
    and b: "inv (p2p_book (srv_p2p sv))" "abs (p2p_book (srv_p2p sv)) \<subseteq> U"
    and i: "\<forall>x\<in>set inputs. input_within lib plib U x"
    and run: "server_loop lib plib ops env inputs sv = (r, sv')"
  shows "r = Ok (drop 1 (dropWhile (\<lambda>x. \<not> stops (snd x)) inputs)) \<and> inv (p2p_book (srv_p2p sv')) \<and>
    abs (p2p_book (srv_p2p sv)) \<subseteq> abs (p2p_book (srv_p2p sv')) \<and> abs (p2p_book (srv_p2p sv')) \<subseteq> U"
  using b i run
proof (induction inputs arbitrary: sv)
  case (Cons x inputs)
  obtain now input where x: "x = (now, input)" by (cases x)
  obtain r1 sv1 where s: "server_step lib plib ops env now input sv = (r1, sv1)" by fastforce
  note law = server_step_law [OF lib U Cons.prems(1,2) _ s]
  show ?case
    using law Cons.IH [of sv1] Cons.prems(3,4) x s by (cases "stops input") auto
qed auto

end

lemma remove_quote_callback_eq:
  "remove_quote_callback qs cs =
     (if qs = [] then (Ok (), cs)
      else if cs_bus_open cs then (Ok (), cs\<lparr>cs_bus := cs_bus cs @ map SciQuoteRemoved qs\<rparr>)
      else (Panic, cs))"
  by (induction qs arbitrary: cs) (auto simp: blocking_send_def)

section \<open>Properties\<close>

text \<open>A serializer for the messages about one quote, and the state of a server.\<close>

definition sample_p2p_lib :: "quote \<Rightarrow> p2p_lib" where
  "sample_p2p_lib q =
     \<lparr>gossip_serialize = (\<lambda>m. if m = GossipSciQuoteAdded q then Ok [1] else Err ''''),
      gossip_deserialize = (\<lambda>bs. if bs = [1] then Ok (GossipSciQuoteAdded q) else Err ''''),
      topic_hash = (\<lambda>t. t)\<rparr>"

definition sample_p2p :: "in_memory_quote_book \<Rightarrow> (in_memory_quote_book, request option) p2p" where
  "sample_p2p b =
     \<lparr>p2p_book = b, p2p_net = None,
      p2p_metrics = \<lparr>num_req = (\<lambda>_. 0), num_success = (\<lambda>_. 0), num_error = (\<lambda>_. 0)\<rparr>,
      p2p_sync_tasks = []\<rparr>"

lemma sample_p2p_simps [simp]:
  "topic_hash (sample_p2p_lib q) t = t" "p2p_book (sample_p2p b) = b"
  by (simp_all add: sample_p2p_lib_def sample_p2p_def)






text \<open>What a peer may expect for a request to a server whose book holds the quotes \<open>B\<close>.\<close>

fun maybe_quote_spec :: "quote set \<Rightarrow> quote_id \<Rightarrow> rpc_error + quote option \<Rightarrow> bool" where
  "maybe_quote_spec B i (Inr (Some q)) \<longleftrightarrow> q \<in> B \<and> q_id q = i"
| "maybe_quote_spec B i (Inr None) \<longleftrightarrow> (\<forall>q\<in>B. q_id q \<noteq> i)"
| "maybe_quote_spec B i (Inl e) \<longleftrightarrow> False"

fun rpc_spec :: "quote set \<Rightarrow> request \<Rightarrow> response \<Rightarrow> bool" where
  "rpc_spec B GetAllQuoteIds resp \<longleftrightarrow>
     (\<exists>ids. resp = AllQuoteIds ids \<and> distinct ids \<and> set ids = q_id ` B)"
| "rpc_spec B (GetQuotesById ids) resp \<longleftrightarrow>
     (if length ids \<le> 100
      then \<exists>xs. resp = MaybeQuotes xs \<and> list_all2 (maybe_quote_spec B) ids xs
      else resp = ErrorResponse TooManyQuotesRequested)"

context reliable_quote_book
begin

lemma rpc_answer_spec:
  assumes "inv b" and "rpc_answer ops b req = Ok resp"
  shows "rpc_spec (abs b) req resp"
proof (cases req)
  case GetAllQuoteIds
  then show ?thesis using rpc_answer_ids [OF assms(1)] assms(2) by simp
next
  case (GetQuotesById ids)
  have found: "maybe_quote_spec (abs b) i x" if "\<exists>res. x = Inr res \<and> get_quote_by_id ops i b = Ok res" for i x
    using that get_quote_by_id_law [OF assms(1), of i]
    by (elim exE conjE, rename_tac res, case_tac res) (simp_all add: get_quote_by_id_spec_def)
  have quotes: "\<exists>xs. resp = MaybeQuotes xs \<and> list_all2 (maybe_quote_spec (abs b)) ids xs"
    if len: "length ids \<le> MAX_QUOTES_PER_REQUEST"
  proof -
    obtain xs where xs: "resp = MaybeQuotes xs"
        "list_all2 (\<lambda>i x. \<exists>res. x = Inr res \<and> get_quote_by_id ops i b = Ok res) ids xs"
      using rpc_answer_quotes [OF assms(1) len] assms(2) GetQuotesById by blast
    have "list_all2 (maybe_quote_spec (abs b)) ids xs"
      by (rule list_all2_mono [OF xs(2)]) (rule found)
    with xs(1) show ?thesis by blast
  qed
  show ?thesis
  proof (cases "length ids \<le> 100")
    case True
    then show ?thesis using quotes GetQuotesById by (simp add: MAX_QUOTES_PER_REQUEST_def)
  next
    case False
    then show ?thesis
      using assms(2) GetQuotesById by (simp add: rpc_answer_def MAX_QUOTES_PER_REQUEST_def)
  qed
qed

end

lemma book_env_rpc_response: "rpc_response (book_env pops pb) resp c n = (Ok (), n)"
  by (simp add: rpc_response_def book_env_def)

definition metrics_inv :: "rpc_metrics \<Rightarrow> bool" where
  "metrics_inv m \<longleftrightarrow> (\<forall>k. num_req m k = num_success m k + num_error m k)"

text \<open>
  Requests of peers are answered exactly. A request leaves the book unchanged and is answered
  once, on its channel: with the identifiers of all quotes; or, for at most 100 identifiers, with
  each quote that the book holds, in the order of the request; or with an error when there are more.
  Every request is counted once, and as a success or an error.
\<close>

theorem rpc_request_answered:
  assumes book: "reliable_quote_book lib ops absf invf" and st: "invf (p2p_book st)"
    and run: "handle_rpc_request ops env peer req channel st = (r, st')"
    and counts: "metrics_inv (p2p_metrics st)"
  shows "p2p_book st' = p2p_book st \<and> metrics_inv (p2p_metrics st') \<and>
    num_req (p2p_metrics st') (metrics_method_name req) =
      Suc (num_req (p2p_metrics st) (metrics_method_name req)) \<and>
    (\<exists>resp. rpc_spec (absf (p2p_book st)) req resp \<and>
      r = map_err ServerP2PClient (fst (rpc_response env resp channel (p2p_net st))) \<and>
      p2p_net st' = snd (rpc_response env resp channel (p2p_net st)))"
proof -
  obtain resp where resp: "rpc_answer ops (p2p_book st) req = Ok resp" "p2p_book st' = p2p_book st"
      "p2p_metrics st' = metrics_resp (metrics_method_name req) resp (metrics_req req (p2p_metrics st))"
      "r = map_err ServerP2PClient (fst (rpc_response env resp channel (p2p_net st)))"
      "p2p_net st' = snd (rpc_response env resp channel (p2p_net st))"
    using quote_book.handle_rpc_request_frame [OF reliable_quote_book.axioms(1) [OF book] st run] by blast
  have "num_req (p2p_metrics st') (metrics_method_name req) =
      Suc (num_req (p2p_metrics st) (metrics_method_name req))"
    unfolding resp(3) by (cases resp) (simp_all add: metrics_resp_def metrics_req_def Let_def)
  moreover have "metrics_inv (p2p_metrics st')"
    using counts unfolding resp(3) metrics_inv_def by (simp add: metrics_balanced)
  moreover note reliable_quote_book.rpc_answer_spec [OF book st resp(1)]
  ultimately show ?thesis using resp(2,4,5) by blast
qed

theorem rpc_request_answered_witness:
  "\<exists>resp. rpc_spec (mem_abs sample_book) (GetQuotesById [replicate 32 9]) resp \<and>
     fst (handle_rpc_request (in_memory_ops sample_lib) (book_env (in_memory_ops sample_lib) sample_book)
       [1] (GetQuotesById [replicate 32 9]) 0 (sample_p2p sample_book)) = Ok ()"
proof -
  obtain r st' where run: "handle_rpc_request (in_memory_ops sample_lib)
      (book_env (in_memory_ops sample_lib) sample_book) [1] (GetQuotesById [replicate 32 9]) 0
      (sample_p2p sample_book) = (r, st')"
    by fastforce
  have inv: "mem_inv (p2p_book (sample_p2p sample_book))" by (simp add: sample_book_inv)
  have counts: "metrics_inv (p2p_metrics (sample_p2p sample_book))"
    by (simp add: metrics_inv_def sample_p2p_def)
  show ?thesis
    using rpc_request_answered [OF mem.reliable_quote_book_axioms inv run counts]
    by (auto simp: run book_env_rpc_response simp del: rpc_spec.simps)
qed

end
