(* ===== verification/Sqlite_Book.thy ===== *)
theory Sqlite_Book
  imports In_Memory
begin

text \<open>
  The crate \<open>quote-book/sqlite\<close>: a quote book that keeps every quote in an SQL table as well as in
  an inner quote book that answers the queries. The row type and its conversions come from
  \<open>models.rs\<close> and \<open>sql_types.rs\<close>, the methods from \<open>lib.rs\<close>.

  Diesel, r2d2 and SQLite are the record \<open>sql_engine\<close>, an argument of the definitions; the SCI
  encoding of \<open>mc_util_serial\<close> is the record \<open>sci_codec\<close>. The locale \<open>sqlite_on\<close> states what the
  methods rely on: the engine's documented behaviour on the table, and the contract of the inner
  book. In it the methods satisfy the contract of the trait, and table and inner book always hold
  the same quotes. The engine is instantiated by a table in memory at the end.
\<close>

section \<open>Column types\<close>

text \<open>\<open>VecU64\<close>: a \<open>u64\<close> stored as its eight bytes, most significant first.\<close>

fun be_bytes :: "nat \<Rightarrow> nat \<Rightarrow> bytes" where
  "be_bytes 0 n = []"
| "be_bytes (Suc k) n = be_bytes k (n div 256) @ [of_nat (n mod 256)]"

definition be_value :: "bytes \<Rightarrow> nat" where
  "be_value bs = foldl (\<lambda>acc b. acc * 256 + unat b) 0 bs"

definition vec_u64_to_sql :: "u64 \<Rightarrow> bytes" where
  "vec_u64_to_sql x = be_bytes 8 (unat x)"

definition vec_u64_from_sql :: "bytes \<Rightarrow> (u64, string) result" where
  "vec_u64_from_sql bs =
     (if length bs \<noteq> 8 then Err ''VecU64: Invalid array length'' else Ok (of_nat (be_value bs)))"

section \<open>Rows\<close>

text \<open>A row of the table \<open>quotes\<close>, and the struct \<open>models::Quote\<close> it is converted from and to.\<close>

record sql_row =
  row_id :: bytes
  row_sci_protobuf :: bytes
  row_base_token_id :: int
  row_counter_token_id :: int
  row_base_range_min :: bytes
  row_base_range_max :: bytes
  row_max_counter_tokens :: bytes
  row_timestamp :: int
  row_key_image :: bytes
  row_tombstone_block :: int

record model_quote =
  m_id :: bytes
  m_sci_protobuf :: bytes
  m_base_token_id :: int
  m_counter_token_id :: int
  m_base_range_min :: u64
  m_base_range_max :: u64
  m_max_counter_tokens :: u64
  m_timestamp :: int
  m_key_image :: bytes
  m_tombstone_block :: int

record sci_codec =
  sci_encode :: "sci \<Rightarrow> bytes"
  sci_decode :: "bytes \<Rightarrow> (sci, string) result"

definition model_from_quote :: "sci_codec \<Rightarrow> quote \<Rightarrow> model_quote" where
  "model_from_quote codec q =
     \<lparr>m_id = q_id q,
      m_sci_protobuf = sci_encode codec (q_sci q),
      m_base_token_id = as_i64 (base_token_id (q_pair q)),
      m_counter_token_id = as_i64 (counter_token_id (q_pair q)),
      m_base_range_min = fst (q_base_range q),
      m_base_range_max = snd (q_base_range q),
      m_max_counter_tokens = q_max_counter_tokens q,
      m_timestamp = as_i64 (q_timestamp q),
      m_key_image = quote_key_image q,
      m_tombstone_block =
        as_i64 (case sci_input_rules (q_sci q) of
          Some rules \<Rightarrow> max_tombstone_block rules | None \<Rightarrow> 0)\<rparr>"

definition model_id :: "model_quote \<Rightarrow> (quote_id, error) result" where
  "model_id m =
     (if length (m_id m) \<noteq> 32
      then Err (ImplementationSpecific (''Expected 32 bytes quote id, found '' @
             show_nat (length (m_id m)) @ '' bytes instead''))
      else Ok (m_id m))"

definition model_decode_sci :: "sci_codec \<Rightarrow> model_quote \<Rightarrow> (sci, error) result" where
  "model_decode_sci codec m =
     map_err (\<lambda>e. ImplementationSpecific (''failed decoding SCI protobuf: '' @ e))
       (sci_decode codec (m_sci_protobuf m))"

definition model_pair :: "model_quote \<Rightarrow> pair" where
  "model_pair m = Pair (i64_as_u64 (m_base_token_id m)) (i64_as_u64 (m_counter_token_id m))"

definition quote_from_model :: "sci_codec \<Rightarrow> model_quote \<Rightarrow> (quote, error) result" where
  "quote_from_model codec m =
     and_then (model_id m) (\<lambda>i.
     and_then (model_decode_sci codec m) (\<lambda>s.
       Ok (new_from_fields s i (model_pair m) (m_base_range_min m, m_base_range_max m)
             (m_max_counter_tokens m) (i64_as_u64 (m_timestamp m)))))"

definition row_of_model :: "model_quote \<Rightarrow> sql_row" where
  "row_of_model m =
     \<lparr>row_id = m_id m, row_sci_protobuf = m_sci_protobuf m,
      row_base_token_id = m_base_token_id m, row_counter_token_id = m_counter_token_id m,
      row_base_range_min = vec_u64_to_sql (m_base_range_min m),
      row_base_range_max = vec_u64_to_sql (m_base_range_max m),
      row_max_counter_tokens = vec_u64_to_sql (m_max_counter_tokens m),
      row_timestamp = m_timestamp m, row_key_image = m_key_image m,
      row_tombstone_block = m_tombstone_block m\<rparr>"

definition model_of_row :: "sql_row \<Rightarrow> (model_quote, string) result" where
  "model_of_row r =
     and_then (vec_u64_from_sql (row_base_range_min r)) (\<lambda>lo.
     and_then (vec_u64_from_sql (row_base_range_max r)) (\<lambda>hi.
     and_then (vec_u64_from_sql (row_max_counter_tokens r)) (\<lambda>mc.
       Ok \<lparr>m_id = row_id r, m_sci_protobuf = row_sci_protobuf r,
           m_base_token_id = row_base_token_id r, m_counter_token_id = row_counter_token_id r,
           m_base_range_min = lo, m_base_range_max = hi, m_max_counter_tokens = mc,
           m_timestamp = row_timestamp r, m_key_image = row_key_image r,
           m_tombstone_block = row_tombstone_block r\<rparr>)))"

definition row_of_quote :: "sci_codec \<Rightarrow> quote \<Rightarrow> sql_row" where
  "row_of_quote codec q = row_of_model (model_from_quote codec q)"

section \<open>Errors and the engine\<close>

datatype diesel_error = UniqueViolation string | OtherDiesel string

datatype sqlite_error = Diesel diesel_error | QuoteBook error | R2d2 string

text \<open>
  The engine on a state \<open>'d\<close> of the database, and its transactions, which run a closure on the
  database and on the state \<open>'b\<close> of the inner book; there is one field per result type.
\<close>

record ('d, 'b) sql_engine =
  diesel_display :: "diesel_error \<Rightarrow> string"
  pool_get :: "'d \<Rightarrow> (unit, string) result \<times> 'd"
  run_pending_migrations :: "'d \<Rightarrow> (unit, string) result \<times> 'd"
  sql_insert :: "sql_row \<Rightarrow> 'd \<Rightarrow> (unit, diesel_error) result \<times> 'd"
  sql_delete :: "(sql_row \<Rightarrow> bool) \<Rightarrow> 'd \<Rightarrow> (nat, diesel_error) result \<times> 'd"
  sql_first :: "(sql_row \<Rightarrow> bool) \<Rightarrow> 'd \<Rightarrow> (sql_row option, diesel_error) result"
  sql_count :: "'d \<Rightarrow> (nat, diesel_error) result"
  sql_load :: "'d \<Rightarrow> (sql_row list, diesel_error) result"
  tx_unit :: "('d \<times> 'b \<Rightarrow> (unit, sqlite_error) result \<times> 'd \<times> 'b) \<Rightarrow>
     'd \<times> 'b \<Rightarrow> (unit, sqlite_error) result \<times> 'd \<times> 'b"
  tx_quote :: "('d \<times> 'b \<Rightarrow> (quote, sqlite_error) result \<times> 'd \<times> 'b) \<Rightarrow>
     'd \<times> 'b \<Rightarrow> (quote, sqlite_error) result \<times> 'd \<times> 'b"
  tx_quotes :: "('d \<times> 'b \<Rightarrow> (quote list, sqlite_error) result \<times> 'd \<times> 'b) \<Rightarrow>
     'd \<times> 'b \<Rightarrow> (quote list, sqlite_error) result \<times> 'd \<times> 'b"

fun book_error :: "('d, 'b) sql_engine \<Rightarrow> sqlite_error \<Rightarrow> error" where
  "book_error eng (Diesel e) = ImplementationSpecific (''diesel error: '' @ diesel_display eng e)"
| "book_error eng (QuoteBook e) = e"
| "book_error eng (R2d2 e) = ImplementationSpecific (''r2d2 error: '' @ e)"

section \<open>The methods\<close>

text \<open>A call on the database or on the inner book, as a step on both.\<close>

definition on_db ::
  "('d \<Rightarrow> ('a, 'e) result \<times> 'd) \<Rightarrow> ('e \<Rightarrow> sqlite_error) \<Rightarrow> 'd \<times> 'b \<Rightarrow>
     ('a, sqlite_error) result \<times> 'd \<times> 'b" where
  "on_db f g st = (let (r, d') = f (fst st) in (map_err g r, d', snd st))"

definition on_book ::
  "('b \<Rightarrow> ('a, error) result \<times> 'b) \<Rightarrow> 'd \<times> 'b \<Rightarrow> ('a, sqlite_error) result \<times> 'd \<times> 'b" where
  "on_book f st = (let (r, b') = f (snd st) in (map_err QuoteBook r, fst st, b'))"

definition get_conn :: "('d, 'b) sql_engine \<Rightarrow> 'd \<times> 'b \<Rightarrow> (unit, sqlite_error) result \<times> 'd \<times> 'b" where
  "get_conn eng = on_db (pool_get eng) R2d2"

definition get_by_id ::
  "('d, 'b) sql_engine \<Rightarrow> quote_id \<Rightarrow> 'd \<Rightarrow> (model_quote option, error) result" where
  "get_by_id eng i d =
     and_then (map_err (\<lambda>e. book_error eng (Diesel e)) (sql_first eng (\<lambda>r. row_id r = i) d))
       (\<lambda>row. case row of
          None \<Rightarrow> Ok None
        | Some r \<Rightarrow> map_ok Some (map_err (\<lambda>e. book_error eng (Diesel (OtherDiesel e))) (model_of_row r)))"

text \<open>The error of a failed insertion: for a duplicate identifier, the quote already stored.\<close>

definition insert_error ::
  "mc_lib \<Rightarrow> sci_codec \<Rightarrow> ('d, 'b) sql_engine \<Rightarrow> quote \<Rightarrow> 'd \<Rightarrow> diesel_error \<Rightarrow>
     (unit, sqlite_error) result" where
  "insert_error lib codec eng q d err =
     (case err of
        UniqueViolation _ \<Rightarrow>
          (case and_then (get_by_id eng (q_id q) d) (\<lambda>maybe_quote.
                and_then (ok_or (ImplementationSpecific (''Quote with id '' @
                    quote_id_display lib (q_id q) @
                    '' not found in database (but it should've been!)'')) maybe_quote)
                  (\<lambda>m. quote_from_model codec m)) of
             Ok existing_quote \<Rightarrow> Err (QuoteBook (QuoteAlreadyExists existing_quote))
           | Err e \<Rightarrow> Err (QuoteBook (ImplementationSpecific (''Getting quote by id '' @
               quote_id_display lib (q_id q) @
               '' failed, but we expected it to succeed: '' @ error_display e)))
           | Panic \<Rightarrow> Panic)
      | OtherDiesel _ \<Rightarrow> Err (Diesel err))"

definition insert_row ::
  "mc_lib \<Rightarrow> sci_codec \<Rightarrow> ('d, 'b) sql_engine \<Rightarrow> quote \<Rightarrow> 'd \<times> 'b \<Rightarrow>
     (unit, sqlite_error) result \<times> 'd \<times> 'b" where
  "insert_row lib codec eng q st =
     (case sql_insert eng (row_of_quote codec q) (fst st) of
        (Ok _, d') \<Rightarrow> (Ok (), d', snd st)
      | (Err e, d') \<Rightarrow> (insert_error lib codec eng q d' e, d', snd st)
      | (Panic, d') \<Rightarrow> (Panic, d', snd st))"

definition sqlite_add_quote ::
  "mc_lib \<Rightarrow> sci_codec \<Rightarrow> ('d, 'b) sql_engine \<Rightarrow> 'b quote_book_ops \<Rightarrow> quote \<Rightarrow> 'd \<times> 'b \<Rightarrow>
     (unit, error) result \<times> 'd \<times> 'b" where
  "sqlite_add_quote lib codec eng ops q st =
     map_err_st (book_error eng)
       (then_do (get_conn eng st) (\<lambda>_ st.
          tx_unit eng (\<lambda>st.
            then_do (insert_row lib codec eng q st) (\<lambda>_ st.
              on_book (add_quote ops q) st)) st))"

definition num_deleted_check :: "nat \<Rightarrow> 's \<Rightarrow> (unit, sqlite_error) result \<times> 's" where
  "num_deleted_check n st =
     ((if n = 0 then Err (QuoteBook QuoteNotFound)
       else if n = 1 then Ok ()
       else Err (QuoteBook (ImplementationSpecific ''Deleted more than one quote''))), st)"

definition sqlite_remove_quote_by_id ::
  "('d, 'b) sql_engine \<Rightarrow> 'b quote_book_ops \<Rightarrow> quote_id \<Rightarrow> 'd \<times> 'b \<Rightarrow>
     (quote, error) result \<times> 'd \<times> 'b" where
  "sqlite_remove_quote_by_id eng ops i st =
     map_err_st (book_error eng)
       (then_do (get_conn eng st) (\<lambda>_ st.
          tx_quote eng (\<lambda>st.
            then_do (on_db (sql_delete eng (\<lambda>r. row_id r = i)) Diesel st) (\<lambda>num_deleted st.
              then_do (num_deleted_check num_deleted st) (\<lambda>_ st.
                on_book (remove_quote_by_id ops i) st))) st))"

text \<open>The two bulk removals: delete the rows, let the inner book remove its quotes, and compare
  the counts.\<close>

definition remove_both ::
  "('d, 'b) sql_engine \<Rightarrow> (sql_row \<Rightarrow> bool) \<Rightarrow> ('b \<Rightarrow> (quote list, error) result \<times> 'b) \<Rightarrow>
     'd \<times> 'b \<Rightarrow> (quote list, sqlite_error) result \<times> 'd \<times> 'b" where
  "remove_both eng P remove st =
     then_do (on_db (sql_delete eng P) Diesel st) (\<lambda>num_deleted st.
       then_do (on_book remove st) (\<lambda>quotes st.
         (if length quotes = num_deleted then Ok quotes else Panic, st)))"

definition sqlite_remove_quotes_by_key_image ::
  "('d, 'b) sql_engine \<Rightarrow> 'b quote_book_ops \<Rightarrow> key_image \<Rightarrow> 'd \<times> 'b \<Rightarrow>
     (quote list, error) result \<times> 'd \<times> 'b" where
  "sqlite_remove_quotes_by_key_image eng ops k st =
     map_err_st (book_error eng)
       (then_do (get_conn eng st) (\<lambda>_ st.
          tx_quotes eng
            (remove_both eng (\<lambda>r. row_key_image r = k) (remove_quotes_by_key_image ops k)) st))"

definition sqlite_remove_quotes_by_tombstone_block ::
  "('d, 'b) sql_engine \<Rightarrow> 'b quote_book_ops \<Rightarrow> block_index \<Rightarrow> 'd \<times> 'b \<Rightarrow>
     (quote list, error) result \<times> 'd \<times> 'b" where
  "sqlite_remove_quotes_by_tombstone_block eng ops current_block_index st =
     map_err_st (book_error eng)
       (then_do (get_conn eng st) (\<lambda>_ st.
          tx_quotes eng
            (remove_both eng
               (\<lambda>r. 0 < row_tombstone_block r \<and> row_tombstone_block r \<le> as_i64 current_block_index)
               (remove_quotes_by_tombstone_block ops current_block_index)) st))"

definition sqlite_ops ::
  "mc_lib \<Rightarrow> sci_codec \<Rightarrow> ('d, 'b) sql_engine \<Rightarrow> 'b quote_book_ops \<Rightarrow> ('d \<times> 'b) quote_book_ops" where
  "sqlite_ops lib codec eng ops =
     \<lparr>add_quote = sqlite_add_quote lib codec eng ops,
      remove_quote_by_id = sqlite_remove_quote_by_id eng ops,
      remove_quotes_by_key_image = sqlite_remove_quotes_by_key_image eng ops,
      remove_quotes_by_tombstone_block = sqlite_remove_quotes_by_tombstone_block eng ops,
      get_quotes = (\<lambda>p rng limit st. get_quotes ops p rng limit (snd st)),
      get_quote_ids = (\<lambda>po st. get_quote_ids ops po (snd st)),
      get_quote_by_id = (\<lambda>i st. get_quote_by_id ops i (snd st)),
      num_scis = (\<lambda>st. num_scis ops (snd st))\<rparr>"

section \<open>Opening a book\<close>

text \<open>The loop over the loaded rows; the percentage it logs divides by the row count.\<close>

fun load_quotes ::
  "sci_codec \<Rightarrow> 'b quote_book_ops \<Rightarrow> nat \<Rightarrow> model_quote list \<Rightarrow> 'b \<Rightarrow> (unit, error) result \<times> 'b" where
  "load_quotes codec ops num_quotes [] b = (Ok (), b)"
| "load_quotes codec ops num_quotes (m # ms) b =
     (if num_quotes = 0 then (Panic, b)
      else then_do (quote_from_model codec m, b) (\<lambda>q b.
        then_do (add_quote ops q b) (\<lambda>_ b. load_quotes codec ops num_quotes ms b)))"

definition load_models :: "('d, 'b) sql_engine \<Rightarrow> 'd \<Rightarrow> (model_quote list, sqlite_error) result" where
  "load_models eng d =
     and_then (map_err Diesel (sql_load eng d)) (\<lambda>rows.
       map_err (\<lambda>e. Diesel (OtherDiesel e)) (collect_results model_of_row rows))"

definition sqlite_new ::
  "sci_codec \<Rightarrow> ('d, 'b) sql_engine \<Rightarrow> 'b quote_book_ops \<Rightarrow> 'd \<times> 'b \<Rightarrow>
     (unit, error) result \<times> 'd \<times> 'b" where
  "sqlite_new codec eng ops st =
     then_do (map_err_st (book_error eng) (get_conn eng st)) (\<lambda>_ st.
     then_do (map_err_st (book_error eng)
       (on_db (run_pending_migrations eng)
          (\<lambda>e. QuoteBook (ImplementationSpecific (''run pending migrations: '' @ e))) st)) (\<lambda>_ st.
     then_do (map_err (\<lambda>e. book_error eng (Diesel e)) (sql_count eng (fst st)), st)
       (\<lambda>num_quotes st.
     then_do (map_err (book_error eng) (load_models eng (fst st)), st) (\<lambda>ms st.
       (let (r, b') = load_quotes codec ops num_quotes ms (snd st) in (r, fst st, b'))))))"

section \<open>Lemmas on columns and rows\<close>

lemma length_be_bytes [simp]: "length (be_bytes k n) = k"
  by (induction k n rule: be_bytes.induct) auto

lemma be_value_simps [simp]:
  "be_value [] = 0" "be_value (bs @ [b]) = be_value bs * 256 + unat b"
  by (simp_all add: be_value_def)

lemma be_value_be_bytes: "be_value (be_bytes k n) = n mod 256 ^ k"
proof (induction k n rule: be_bytes.induct)
  case (2 k n)
  have "unat (of_nat (n mod 256) :: u8) = n mod 256"
    by (simp add: unsigned_of_nat take_bit_eq_mod)
  then have "be_value (be_bytes (Suc k) n) = n div 256 mod 256 ^ k * 256 + n mod 256"
    using 2 by simp
  also have "\<dots> = n mod 256 ^ Suc k"
    using mod_mult2_eq [of n 256 "256 ^ k"] by (simp add: mult.commute)
  finally show ?case .
qed simp

lemma be_value_Cons: "be_value (b # bs) = unat b * 256 ^ length bs + be_value bs"
  by (induction bs rule: rev_induct) (simp_all add: be_value_def algebra_simps)

lemma be_value_less: "be_value bs < 256 ^ length bs"
proof (induction bs)
  case (Cons b bs)
  have "unat b < 256"
    using unsigned_less [of b, where ?'a = nat] by simp
  then have "Suc (unat b) * 256 ^ length bs \<le> 256 * 256 ^ length bs"
    by (intro mult_le_mono1) simp
  moreover have "unat b * 256 ^ length bs + be_value bs < Suc (unat b) * 256 ^ length bs"
    using Cons by simp
  ultimately show ?case
    by (simp only: be_value_Cons list.size power_Suc add_0_right One_nat_def add_Suc_right)
qed simp

text \<open>Comparing the stored bytes, as SQLite does, compares the numbers.\<close>

lemma be_value_order:
  "length bs = length cs \<Longrightarrow> bs < cs \<longleftrightarrow> be_value bs < be_value cs"
proof (induction bs cs rule: list_induct2)
  case (Cons b bs c cs)
  have step: "unat x * 256 ^ length bs + be_value xs < unat y * 256 ^ length bs + be_value ys"
    if "x < y" "length xs = length bs" for x y :: u8 and xs ys
  proof -
    have "unat x * 256 ^ length bs + be_value xs < Suc (unat x) * 256 ^ length bs"
      using be_value_less [of xs] that(2) by simp
    also have "\<dots> \<le> unat y * 256 ^ length bs"
      using that(1) by (intro mult_le_mono1) (simp add: word_less_nat_alt)
    finally show ?thesis by simp
  qed
  show ?case
    using Cons step [of b c bs cs] step [of c b cs bs]
    by (cases b c rule: linorder_cases) (auto simp: be_value_Cons)
qed simp

lemma vec_u64_from_to_sql [simp]: "vec_u64_from_sql (vec_u64_to_sql x) = Ok x"
proof -
  have "unat x mod 256 ^ 8 = unat x"
    using unat_u64_less [of x] by simp
  then show ?thesis
    by (simp add: vec_u64_from_sql_def vec_u64_to_sql_def be_value_be_bytes)
qed

lemma model_of_row_of_model [simp]: "model_of_row (row_of_model m) = Ok m"
  by (simp add: model_of_row_def row_of_model_def)

definition codec_ok :: "sci_codec \<Rightarrow> bool" where
  "codec_ok codec \<longleftrightarrow> (\<forall>s. sci_decode codec (sci_encode codec s) = Ok s)"

lemma quote_from_model_from_quote:
  assumes "codec_ok codec" and "length (q_id q) = 32"
  shows "quote_from_model codec (model_from_quote codec q) = Ok q"
  using assms
  by (simp add: codec_ok_def quote_from_model_def model_from_quote_def model_id_def
      model_decode_sci_def model_pair_def new_from_fields_def)

lemma row_of_quote_simps [simp]:
  "row_id (row_of_quote codec q) = q_id q"
  "row_key_image (row_of_quote codec q) = quote_key_image q"
  "row_tombstone_block (row_of_quote codec q) = as_i64 (quote_tombstone q)"
  by (simp_all add: row_of_quote_def row_of_model_def model_from_quote_def quote_tombstone_def)

lemma expired_row:
  assumes "unat (quote_tombstone x) < 2 ^ 63" and "unat n < 2 ^ 63"
  shows "0 < as_i64 (quote_tombstone x) \<and> as_i64 (quote_tombstone x) \<le> as_i64 n \<longleftrightarrow> expired_at n x"
proof -
  have "0 < as_i64 (quote_tombstone x) \<longleftrightarrow> quote_tombstone x \<noteq> 0"
    by (simp only: as_i64_small [OF assms(1)] of_nat_0_less_iff unat_gt_0)
  moreover have "as_i64 (quote_tombstone x) \<le> as_i64 n \<longleftrightarrow> quote_tombstone x \<le> n"
    by (simp only: as_i64_small [OF assms(1)] as_i64_small [OF assms(2)] of_nat_le_iff
        word_le_nat_alt)
  ultimately show ?thesis by (simp add: expired_at_def)
qed

lemma row_of_quote_inj: "inj_on q_id B \<Longrightarrow> inj_on (row_of_quote codec) B"
  by (metis (no_types, lifting) inj_onD inj_onI row_of_quote_simps(1))

section \<open>What the methods rely on\<close>

text \<open>A transaction runs the closure once on the database, or fails before it starts. When the
  closure returns a value the changes to the table are committed, when it returns an error they are
  rolled back. The inner book keeps what the closure did to it in either case.\<close>

definition transactional ::
  "('d \<Rightarrow> sql_row set) \<Rightarrow>
   (('d \<times> 'b \<Rightarrow> ('a, sqlite_error) result \<times> 'd \<times> 'b) \<Rightarrow> 'd \<times> 'b \<Rightarrow>
     ('a, sqlite_error) result \<times> 'd \<times> 'b) \<Rightarrow> bool" where
  "transactional rows tx \<longleftrightarrow>
     (\<forall>f d b r d' b'. tx f (d, b) = (r, d', b') \<longrightarrow>
        (\<exists>e. r = Err (Diesel e) \<and> rows d' = rows d \<and> b' = b) \<or>
        (\<exists>d1 r1 d2. rows d1 = rows d \<and> f (d1, b) = (r1, d2, b') \<and>
           (case r1 of
              Ok v \<Rightarrow> r = Ok v \<and> rows d' = rows d2
            | Err e \<Rightarrow> (r = Err e \<or> (\<exists>e'. r = Err (Diesel e'))) \<and> rows d' = rows d
            | Panic \<Rightarrow> r = Panic)))"

locale sql_engine_laws =
  fixes eng :: "('d, 'b) sql_engine"
    and rows :: "'d \<Rightarrow> sql_row set"
  assumes pool_law: "pool_get eng d = (r, d') \<Longrightarrow> r \<noteq> Panic \<and> rows d' = rows d"
    and migrations_law: "run_pending_migrations eng d = (r, d') \<Longrightarrow> r \<noteq> Panic \<and> rows d' = rows d"
    and insert_law: "sql_insert eng row d = (r1, d') \<Longrightarrow>
      (case r1 of
         Ok _ \<Rightarrow> row_id row \<notin> row_id ` rows d \<and> rows d' = insert row (rows d)
       | Err e \<Rightarrow> rows d' = rows d \<and> (\<forall>m. e = UniqueViolation m \<longrightarrow> row_id row \<in> row_id ` rows d)
       | Panic \<Rightarrow> False)"
    and delete_law: "sql_delete eng P d = (r2, d') \<Longrightarrow>
      (case r2 of
         Ok n \<Rightarrow> n = card {x \<in> rows d. P x} \<and> rows d' = {x \<in> rows d. \<not> P x}
       | Err e \<Rightarrow> rows d' = rows d
       | Panic \<Rightarrow> False)"
    and first_law: "case sql_first eng P d of
         Ok None \<Rightarrow> (\<forall>x\<in>rows d. \<not> P x)
       | Ok (Some x) \<Rightarrow> x \<in> rows d \<and> P x
       | Err e \<Rightarrow> True
       | Panic \<Rightarrow> False"
    and count_law: "sql_count eng d \<noteq> Panic" "sql_count eng d = Ok n \<Longrightarrow> n = card (rows d)"
    and load_law: "sql_load eng d \<noteq> Panic" "sql_load eng d = Ok xs \<Longrightarrow> set xs = rows d \<and> distinct xs"
    and tx_laws: "transactional rows (tx_unit eng)" "transactional rows (tx_quote eng)"
      "transactional rows (tx_quotes eng)"

text \<open>Table and inner book agree.\<close>

definition sqlite_inv ::
  "sci_codec \<Rightarrow> ('d \<Rightarrow> sql_row set) \<Rightarrow> ('b \<Rightarrow> quote set) \<Rightarrow> ('b \<Rightarrow> bool) \<Rightarrow> 'd \<times> 'b \<Rightarrow> bool" where
  "sqlite_inv codec rows absb invb st \<longleftrightarrow>
     invb (snd st) \<and> rows (fst st) = row_of_quote codec ` absb (snd st)"

locale sqlite_on = quote_book lib ops abs inv + sql_engine_laws eng rows
  for lib and ops :: "'b quote_book_ops" and abs inv and eng :: "('d, 'b) sql_engine" and rows +
  fixes codec :: sci_codec
  assumes codec_law: "codec_ok codec"

text \<open>What holds of the closure of a transaction holds of the transaction, with the table restored
  on an error.\<close>

lemma transactional_lift:
  assumes tx: "transactional rows tx" and run: "tx f (d, b) = (r, d', b')"
    and init: "I b" "\<And>e. E (Diesel e) b"
    and diesel: "\<And>e e' b2. E e b2 \<Longrightarrow> E (Diesel e') b2"
    and closure: "\<And>d1 r1 d2 b2. rows d1 = rows d \<Longrightarrow> f (d1, b) = (r1, d2, b2) \<Longrightarrow>
      I b2 \<and> (case r1 of Ok v \<Rightarrow> Q v (rows d2) b2 | Err e \<Rightarrow> E e b2 | Panic \<Rightarrow> False)"
  shows "I b' \<and>
    (case r of Ok v \<Rightarrow> Q v (rows d') b' | Err e \<Rightarrow> E e b' \<and> rows d' = rows d | Panic \<Rightarrow> False)"
proof -
  from tx run have
    "(\<exists>e. r = Err (Diesel e) \<and> rows d' = rows d \<and> b' = b) \<or>
     (\<exists>d1 r1 d2. rows d1 = rows d \<and> f (d1, b) = (r1, d2, b') \<and>
        (case r1 of
           Ok v \<Rightarrow> r = Ok v \<and> rows d' = rows d2
         | Err e \<Rightarrow> (r = Err e \<or> (\<exists>e'. r = Err (Diesel e'))) \<and> rows d' = rows d
         | Panic \<Rightarrow> r = Panic))"
    unfolding transactional_def by blast
  then show ?thesis
  proof (elim disjE exE conjE)
    fix e
    assume "r = Err (Diesel e)" "rows d' = rows d" "b' = b"
    then show ?thesis using init by simp
  next
    fix d1 r1 d2
    assume *: "rows d1 = rows d" "f (d1, b) = (r1, d2, b')"
      and res: "case r1 of
           Ok v \<Rightarrow> r = Ok v \<and> rows d' = rows d2
         | Err e \<Rightarrow> (r = Err e \<or> (\<exists>e'. r = Err (Diesel e'))) \<and> rows d' = rows d
         | Panic \<Rightarrow> r = Panic"
    show ?thesis
      using closure [OF *] res diesel by (cases r1) auto
  qed
qed

context sql_engine_laws
begin

lemma get_conn_law:
  assumes "get_conn eng (d, b) = (r, d', b')"
  shows "b' = b \<and> rows d' = rows d \<and> ((\<exists>u. r = Ok u) \<or> (\<exists>e. r = Err (R2d2 e)))"
proof -
  obtain r0 d0 where p: "pool_get eng d = (r0, d0)" by (cases "pool_get eng d")
  from pool_law [OF p] p assms show ?thesis
    by (cases r0) (auto simp: get_conn_def on_db_def)
qed

text \<open>The same for a whole method: a connection is taken, then the transaction runs.\<close>

lemma method_lift:
  assumes tx: "transactional rows tx"
    and run: "map_err_st (book_error eng) (then_do (get_conn eng (d, b)) (\<lambda>_ st. tx f st)) =
      (r, d', b')"
    and init: "I b" "\<And>e. E (Diesel e) b" "\<And>e. E (R2d2 e) b"
    and diesel: "\<And>e e' b2. E e b2 \<Longrightarrow> E (Diesel e') b2"
    and closure: "\<And>d1 r1 d2 b2. rows d1 = rows d \<Longrightarrow> f (d1, b) = (r1, d2, b2) \<Longrightarrow>
      I b2 \<and> (case r1 of Ok v \<Rightarrow> Q v (rows d2) b2 | Err e \<Rightarrow> E e b2 | Panic \<Rightarrow> False)"
  shows "I b' \<and>
    (case r of
       Ok v \<Rightarrow> Q v (rows d') b'
     | Err e \<Rightarrow> rows d' = rows d \<and> (\<exists>e0. e = book_error eng e0 \<and> E e0 b')
     | Panic \<Rightarrow> False)"
proof -
  obtain rc dc bc where c: "get_conn eng (d, b) = (rc, dc, bc)"
    by (metis prod_cases3)
  note conn = get_conn_law [OF c]
  show ?thesis
  proof (cases rc)
    case (Ok u)
    obtain rt dt bt where t: "tx f (dc, bc) = (rt, dt, bt)"
      by (metis prod_cases3)
    have "I bt \<and> (case rt of Ok v \<Rightarrow> Q v (rows dt) bt | Err e \<Rightarrow> E e bt \<and> rows dt = rows dc | Panic \<Rightarrow> False)"
      by (rule transactional_lift [OF tx t]) (use conn init diesel closure in auto)
    then show ?thesis
      using run c Ok t conn by (cases rt) auto
  next
    case (Err e)
    then obtain e0 where "rc = Err (R2d2 e0)" using conn by auto
    then show ?thesis
      using run c conn init(1) init(3) [of e0]
      by (auto simp del: book_error.simps intro!: exI [of _ "R2d2 e0"])
  next
    case Panic
    then show ?thesis using conn by auto
  qed
qed

end

section \<open>The methods satisfy the contract\<close>

context sqlite_on
begin

lemma rows_where:
  assumes "inv b"
  shows "card {r \<in> row_of_quote codec ` abs b. P r} = card {x \<in> abs b. P (row_of_quote codec x)}"
    and "{r \<in> row_of_quote codec ` abs b. \<not> P r} =
      row_of_quote codec ` {x \<in> abs b. \<not> P (row_of_quote codec x)}"
proof -
  have "inj_on (row_of_quote codec) {x \<in> abs b. P (row_of_quote codec x)}"
    using inv_book [OF assms]
    by (intro inj_on_subset [OF row_of_quote_inj]) (auto simp: book_inv_def)
  moreover have "{r \<in> row_of_quote codec ` abs b. P r} =
      row_of_quote codec ` {x \<in> abs b. P (row_of_quote codec x)}"
    by auto
  ultimately show "card {r \<in> row_of_quote codec ` abs b. P r} =
      card {x \<in> abs b. P (row_of_quote codec x)}"
    by (simp add: card_image)
qed auto

lemma insert_error_law:
  assumes b: "inv b" and rows: "rows d = row_of_quote codec ` abs b" and q: "admissible q (abs b)"
    and dup: "\<And>m. e = UniqueViolation m \<Longrightarrow> q_id q \<in> q_id ` abs b"
  shows "\<exists>e'. insert_error lib codec eng q d e = Err e' \<and>
    (\<forall>x. e' = QuoteBook (QuoteAlreadyExists x) \<longrightarrow> x \<in> abs b \<and> clash q x)"
proof (cases e)
  case (UniqueViolation m)
  have codec: "length (q_id x) = 32 \<and> quote_from_model codec (model_from_quote codec x) = Ok x"
    if "x \<in> abs b" for x
    using that inv_book [OF b] quote_from_model_from_quote [OF codec_law, of x]
    by (auto simp: book_inv_def)
  show ?thesis
  proof (cases "sql_first eng (\<lambda>r. row_id r = q_id q) d")
    case (Ok row)
    then obtain x where x: "row = Some (row_of_quote codec x)" "x \<in> abs b" "q_id x = q_id q"
      using first_law [of d "\<lambda>r. row_id r = q_id q"] dup [OF UniqueViolation] rows
      by (cases row) auto
    with Ok codec [OF x(2)] q have
      "insert_error lib codec eng q d e = Err (QuoteBook (QuoteAlreadyExists x))" "clash q x"
      by (simp_all add: insert_error_def UniqueViolation get_by_id_def row_of_quote_def
          admissible_def)
    with x(2) show ?thesis by simp
  next
    case (Err err)
    then show ?thesis
      by (simp add: insert_error_def UniqueViolation get_by_id_def)
  next
    case Panic
    then show ?thesis
      using first_law [of d "\<lambda>r. row_id r = q_id q"] by simp
  qed
qed (simp add: insert_error_def)

lemma insert_row_law:
  assumes b: "inv b" and rows: "rows d = row_of_quote codec ` abs b" and q: "admissible q (abs b)"
    and run: "insert_row lib codec eng q (d, b) = (r, d', b')"
  shows "b' = b \<and>
    (case r of
       Ok u \<Rightarrow> rows d' = row_of_quote codec ` insert q (abs b)
     | Err e \<Rightarrow> \<forall>x. e = QuoteBook (QuoteAlreadyExists x) \<longrightarrow> x \<in> abs b \<and> clash q x
     | Panic \<Rightarrow> False)"
proof -
  obtain r1 d1 where i: "sql_insert eng (row_of_quote codec q) d = (r1, d1)"
    by (cases "sql_insert eng (row_of_quote codec q) d")
  note law = insert_law [OF i]
  show ?thesis
  proof (cases r1)
    case (Err e)
    have "\<exists>e'. insert_error lib codec eng q d1 e = Err e' \<and>
        (\<forall>x. e' = QuoteBook (QuoteAlreadyExists x) \<longrightarrow> x \<in> abs b \<and> clash q x)"
      using law Err rows by (intro insert_error_law [OF b _ q]) (auto simp: image_iff)
    with Err run i show ?thesis by (auto simp: insert_row_def)
  qed (use law run i rows in \<open>auto simp: insert_row_def\<close>)
qed

lemma sqlite_add_law:
  assumes st: "sqlite_inv codec rows abs inv (d, b)" and q: "admissible q (abs b)"
    and run: "sqlite_add_quote lib codec eng ops q (d, b) = (r, d', b')"
  shows "sqlite_inv codec rows abs inv (d', b') \<and> add_spec q (abs b) r (abs b')"
proof -
  have b: "inv b" and rows: "rows d = row_of_quote codec ` abs b"
    using st by (simp_all add: sqlite_inv_def)
  let ?Q = "\<lambda>v R b'. (\<forall>x\<in>abs b. \<not> clash q x) \<and> abs b' = insert q (abs b) \<and>
    R = row_of_quote codec ` abs b'"
  let ?E = "\<lambda>e b'. abs b' = abs b \<and>
    (\<forall>x. e = QuoteBook (QuoteAlreadyExists x) \<longrightarrow> x \<in> abs b \<and> clash q x)"
  have "inv b' \<and> (case r of
       Ok v \<Rightarrow> ?Q v (rows d') b'
     | Err e \<Rightarrow> rows d' = rows d \<and> (\<exists>e0. e = book_error eng e0 \<and> ?E e0 b')
     | Panic \<Rightarrow> False)"
  proof (rule method_lift [OF tx_laws(1) run [unfolded sqlite_add_quote_def]])
    fix d1 r1 d2 b2
    assume d1: "rows d1 = rows d"
      and f: "then_do (insert_row lib codec eng q (d1, b)) (\<lambda>_ st. on_book (add_quote ops q) st) =
        (r1, d2, b2)"
    obtain ri di bi where i: "insert_row lib codec eng q (d1, b) = (ri, di, bi)"
      by (metis prod_cases3)
    note il = insert_row_law [OF b d1 [unfolded rows] q i]
    obtain ra ba where a: "add_quote ops q b = (ra, ba)" by (cases "add_quote ops q b")
    show "inv b2 \<and> (case r1 of Ok v \<Rightarrow> ?Q v (rows d2) b2 | Err e \<Rightarrow> ?E e b2 | Panic \<Rightarrow> False)"
      using il f i a b add_law [OF b q a]
      by (cases ri; cases ra) (auto simp: on_book_def add_spec_def)
  qed (simp_all add: b)
  moreover have "book_error eng e0 = QuoteAlreadyExists x \<longleftrightarrow> e0 = QuoteBook (QuoteAlreadyExists x)"
    for e0 x by (cases e0) auto
  ultimately show ?thesis
    using rows by (cases r) (auto simp: sqlite_inv_def add_spec_def)
qed

lemma delete_rows:
  assumes b: "inv b" and rows: "rows d = row_of_quote codec ` abs b"
    and run: "sql_delete eng P d = (Ok n, d')"
  shows "n = card {x \<in> abs b. P (row_of_quote codec x)}"
    and "rows d' = row_of_quote codec ` {x \<in> abs b. \<not> P (row_of_quote codec x)}"
  using delete_law [OF run] rows rows_where [OF b, of P] by simp_all

lemma sqlite_remove_id_law:
  assumes st: "sqlite_inv codec rows abs inv (d, b)"
    and run: "sqlite_remove_quote_by_id eng ops i (d, b) = (r, d', b')"
  shows "sqlite_inv codec rows abs inv (d', b') \<and> remove_id_spec i (abs b) r (abs b')"
proof -
  have b: "inv b" and rows: "rows d = row_of_quote codec ` abs b"
    using st by (simp_all add: sqlite_inv_def)
  let ?Q = "\<lambda>q R b'. q \<in> abs b \<and> q_id q = i \<and> abs b' = abs b - {q} \<and> R = row_of_quote codec ` abs b'"
  let ?E = "\<lambda>e b'. abs b' = abs b \<and> (e = QuoteBook QuoteNotFound \<longrightarrow> (\<forall>x\<in>abs b. q_id x \<noteq> i))"
  have "inv b' \<and> (case r of
       Ok v \<Rightarrow> ?Q v (rows d') b'
     | Err e \<Rightarrow> rows d' = rows d \<and> (\<exists>e0. e = book_error eng e0 \<and> ?E e0 b')
     | Panic \<Rightarrow> False)"
  proof (rule method_lift [OF tx_laws(2) run [unfolded sqlite_remove_quote_by_id_def]])
    fix d1 r1 d2 b2
    assume d1: "rows d1 = rows d"
      and f: "then_do (on_db (sql_delete eng (\<lambda>r. row_id r = i)) Diesel (d1, b)) (\<lambda>num_deleted st.
              then_do (num_deleted_check num_deleted st) (\<lambda>_ st.
                on_book (remove_quote_by_id ops i) st)) = (r1, d2, b2)"
    obtain rd dd where del: "sql_delete eng (\<lambda>r. row_id r = i) d1 = (rd, dd)"
      by (cases "sql_delete eng (\<lambda>r. row_id r = i) d1")
    obtain ra ba where a: "remove_quote_by_id ops i b = (ra, ba)"
      by (cases "remove_quote_by_id ops i b")
    show "inv b2 \<and> (case r1 of Ok v \<Rightarrow> ?Q v (rows d2) b2 | Err e \<Rightarrow> ?E e b2 | Panic \<Rightarrow> False)"
    proof (cases rd)
      case (Ok n)
      note dr = delete_rows [OF b d1 [unfolded rows] del [unfolded Ok], simplified]
      have "finite {x \<in> abs b. q_id x = i}"
        using inv_book [OF b] by (simp add: book_inv_def)
      then have "n = 0 \<Longrightarrow> \<forall>x\<in>abs b. q_id x \<noteq> i"
        using dr(1) by auto
      moreover have "{x \<in> abs b. q_id x \<noteq> i} = abs b - {q}" if "q \<in> abs b" "q_id q = i" for q
        using that inv_book [OF b] by (auto simp: book_inv_def inj_on_def)
      ultimately show ?thesis
        using f del Ok dr(2) a b remove_id_law [OF b a]
        by (cases ra; cases "n = 0"; cases "n = 1")
          (auto simp: on_db_def on_book_def num_deleted_check_def remove_id_spec_def)
    qed (use f del b delete_law [OF del] in \<open>auto simp: on_db_def\<close>)
  qed (simp_all add: b)
  moreover have "book_error eng e0 = QuoteNotFound \<longleftrightarrow> e0 = QuoteBook QuoteNotFound" for e0
    by (cases e0) auto
  ultimately show ?thesis
    using rows by (cases r) (auto simp: sqlite_inv_def remove_id_spec_def)
qed

text \<open>The count of deleted rows is the count of removed quotes.\<close>

lemma remove_both_law:
  assumes st: "sqlite_inv codec rows abs inv (d, b)"
    and run: "map_err_st (book_error eng)
      (then_do (get_conn eng (d, b)) (\<lambda>_ st. tx_quotes eng (remove_both eng P remove) st)) =
        (r, d', b')"
    and P: "\<And>x. x \<in> abs b \<Longrightarrow> P (row_of_quote codec x) \<longleftrightarrow> S x"
    and remove: "\<And>r b'. remove b = (r, b') \<Longrightarrow> inv b' \<and> remove_where_spec S (abs b) r (abs b')"
  shows "sqlite_inv codec rows abs inv (d', b') \<and> remove_where_spec S (abs b) r (abs b')"
proof -
  have b: "inv b" and rows: "rows d = row_of_quote codec ` abs b"
    using st by (simp_all add: sqlite_inv_def)
  have eq: "{x \<in> abs b. P (row_of_quote codec x)} = {x \<in> abs b. S x}"
    "{x \<in> abs b. \<not> P (row_of_quote codec x)} = {x \<in> abs b. \<not> S x}"
    using P by auto
  let ?Q = "\<lambda>qs R b'. remove_where_spec S (abs b) (Ok qs) (abs b') \<and> R = row_of_quote codec ` abs b'"
  let ?E = "\<lambda>e b'. abs b' = abs b"
  have "inv b' \<and> (case r of
       Ok v \<Rightarrow> ?Q v (rows d') b'
     | Err e \<Rightarrow> rows d' = rows d \<and> (\<exists>e0. e = book_error eng e0 \<and> ?E e0 b')
     | Panic \<Rightarrow> False)"
  proof (rule method_lift [OF tx_laws(3) run])
    fix d1 r1 d2 b2
    assume d1: "rows d1 = rows d" and f: "remove_both eng P remove (d1, b) = (r1, d2, b2)"
    obtain rd dd where del: "sql_delete eng P d1 = (rd, dd)" by (cases "sql_delete eng P d1")
    obtain ra ba where a: "remove b = (ra, ba)" by (cases "remove b")
    note ral = remove [OF a]
    show "inv b2 \<and> (case r1 of Ok v \<Rightarrow> ?Q v (rows d2) b2 | Err e \<Rightarrow> ?E e b2 | Panic \<Rightarrow> False)"
    proof (cases rd)
      case (Ok n)
      note dr = delete_rows [OF b d1 [unfolded rows] del [unfolded Ok], unfolded eq]
      have "length qs = n" if "ra = Ok qs" for qs
        using ral that dr(1) distinct_card [of qs] by (simp add: remove_where_spec_def)
      then show ?thesis
        using f del Ok dr(2) a ral
        by (cases ra) (auto simp: remove_both_def on_db_def on_book_def remove_where_spec_def)
    qed (use f del b delete_law [OF del] in \<open>auto simp: remove_both_def on_db_def\<close>)
  qed (simp_all add: b)
  then show ?thesis
    using rows by (cases r) (auto simp: sqlite_inv_def remove_where_spec_def)
qed

lemma sqlite_remove_key_image_law:
  assumes "sqlite_inv codec rows abs inv (d, b)"
    and "sqlite_remove_quotes_by_key_image eng ops k (d, b) = (r, d', b')"
  shows "sqlite_inv codec rows abs inv (d', b') \<and>
    remove_where_spec (\<lambda>x. quote_key_image x = k) (abs b) r (abs b')"
  using assms(1)
  by (intro remove_both_law [OF _ assms(2) [unfolded sqlite_remove_quotes_by_key_image_def]]
      remove_key_image_law) (simp_all add: sqlite_inv_def)

lemma sqlite_remove_tombstone_law:
  assumes "sqlite_inv codec rows abs inv (d, b)" and "tombstones_regular lib n (abs b)"
    and "sqlite_remove_quotes_by_tombstone_block eng ops n (d, b) = (r, d', b')"
  shows "sqlite_inv codec rows abs inv (d', b') \<and> remove_where_spec (expired_at n) (abs b) r (abs b')"
  using assms(1,2)
  by (intro remove_both_law [OF _ assms(3) [unfolded sqlite_remove_quotes_by_tombstone_block_def]]
      remove_tombstone_law)
    (simp_all add: sqlite_inv_def tombstones_regular_def expired_row)

end

lemma sqlite_ops_simps [simp]:
  "add_quote (sqlite_ops lib codec eng ops) = sqlite_add_quote lib codec eng ops"
  "remove_quote_by_id (sqlite_ops lib codec eng ops) = sqlite_remove_quote_by_id eng ops"
  "remove_quotes_by_key_image (sqlite_ops lib codec eng ops) =
     sqlite_remove_quotes_by_key_image eng ops"
  "remove_quotes_by_tombstone_block (sqlite_ops lib codec eng ops) =
     sqlite_remove_quotes_by_tombstone_block eng ops"
  "get_quotes (sqlite_ops lib codec eng ops) p rng limit st = get_quotes ops p rng limit (snd st)"
  "get_quote_ids (sqlite_ops lib codec eng ops) po st = get_quote_ids ops po (snd st)"
  "get_quote_by_id (sqlite_ops lib codec eng ops) i st = get_quote_by_id ops i (snd st)"
  "num_scis (sqlite_ops lib codec eng ops) st = num_scis ops (snd st)"
  by (simp_all add: sqlite_ops_def)

sublocale sqlite_on \<subseteq> sq: quote_book lib "sqlite_ops lib codec eng ops" "\<lambda>st. abs (snd st)"
  "sqlite_inv codec rows abs inv"
proof (unfold_locales, unfold sqlite_ops_simps, goal_cases)
  case (2 s q r s')
  then show ?case using sqlite_add_law by (cases s; cases s') auto
next
  case (3 s i r1 s')
  then show ?case using sqlite_remove_id_law by (cases s; cases s') auto
next
  case (4 s k r2 s')
  then show ?case using sqlite_remove_key_image_law by (cases s; cases s') auto
next
  case (5 s n r2 s')
  then show ?case using sqlite_remove_tombstone_law by (cases s; cases s') auto
qed (auto simp: sqlite_inv_def inv_book get_quotes_law get_quote_ids_law get_quote_by_id_law
    num_scis_law)

context sqlite_on
begin

lemma sqlite_quote_book:
  "quote_book lib (sqlite_ops lib codec eng ops) (\<lambda>st. abs (snd st)) (sqlite_inv codec rows abs inv)"
  by (rule sq.quote_book_axioms)

end

section \<open>Reopening a book\<close>

lemma collect_results_map:
  "(\<And>x. x \<in> set xs \<Longrightarrow> f (g x) = Ok (h x)) \<Longrightarrow> collect_results f (map g xs) = Ok (map h xs)"
  by (induction xs) auto

lemma list_of_image:
  assumes "set ys = f ` B" and "distinct ys" and "inj_on f B"
  obtains xs where "ys = map f xs" "set xs = B" "distinct xs"
proof -
  let ?xs = "map (the_inv_into B f) ys"
  have "map f ?xs = ys"
    using assms(1,3) by (auto simp: f_the_inv_into_f intro!: map_idI)
  moreover have "set ?xs = B"
    using assms(1,3) by (auto simp: the_inv_into_f_f image_image)
  moreover have "distinct ?xs"
    using \<open>map f ?xs = ys\<close> assms(2) by (metis distinct_map)
  ultimately show ?thesis using that by metis
qed

context sqlite_on
begin

lemma load_quotes_law:
  assumes "inv b" and "book_inv (abs b \<union> set qs)" and "abs b \<inter> set qs = {}" and "distinct qs"
    and "n \<noteq> 0 \<or> qs = []"
    and "load_quotes codec ops n (map (model_from_quote codec) qs) b = (r, b')"
  shows "inv b' \<and> r \<noteq> Panic \<and> (r = Ok () \<longrightarrow> abs b' = abs b \<union> set qs)"
  using assms
proof (induction qs arbitrary: b)
  case (Cons q qs)
  have q: "quote_from_model codec (model_from_quote codec q) = Ok q" "admissible q (abs b)"
    using Cons.prems(2,3) quote_from_model_from_quote [OF codec_law, of q]
    by (auto simp: book_inv_def admissible_def inj_on_def)
  obtain ra ba where a: "add_quote ops q b = (ra, ba)" by (cases "add_quote ops q b")
  note law = add_law [OF Cons.prems(1) q(2) a]
  show ?case
  proof (cases ra)
    case (Ok u)
    then have ba: "inv ba" "abs ba = insert q (abs b)"
      using law by (simp_all add: add_spec_def)
    have step: "load_quotes codec ops n (map (model_from_quote codec) qs) ba = (r, b')"
      using Cons.prems(5,6) q(1) a Ok by simp
    have union: "abs ba \<union> set qs = abs b \<union> set (q # qs)" and inter: "abs ba \<inter> set qs = {}"
      using ba(2) Cons.prems(3,4) by auto
    have "inv b' \<and> r \<noteq> Panic \<and> (r = Ok () \<longrightarrow> abs b' = abs ba \<union> set qs)"
      using Cons.IH [OF ba(1) _ inter _ _ step] Cons.prems(2,4,5) union by simp
    with union show ?thesis by simp
  next
    case (Err e)
    with law Cons.prems(5,6) q(1) a show ?thesis by auto
  next
    case Panic
    with law show ?thesis by (simp add: add_spec_def)
  qed
qed auto

lemma load_models_law:
  assumes "rows d = row_of_quote codec ` B" and "inj_on q_id B"
  shows "load_models eng d \<noteq> Panic \<and> (\<forall>ms. load_models eng d = Ok ms \<longrightarrow>
    (\<exists>qs. ms = map (model_from_quote codec) qs \<and> set qs = B \<and> distinct qs))"
proof (cases "sql_load eng d")
  case (Ok xs)
  obtain qs where qs: "xs = map (row_of_quote codec) qs" "set qs = B" "distinct qs"
    using load_law(2) [OF Ok] assms row_of_quote_inj [OF assms(2)] list_of_image by metis
  have "collect_results model_of_row xs = Ok (map (model_from_quote codec) qs)"
    unfolding qs(1) by (rule collect_results_map) (simp add: row_of_quote_def)
  with Ok qs show ?thesis by (auto simp: load_models_def)
qed (use load_law(1) [of d] in \<open>auto simp: load_models_def\<close>)

lemma sqlite_new_law:
  assumes b: "inv b" "abs b = {}" and B: "book_inv B" and rows: "rows d = row_of_quote codec ` B"
    and run: "sqlite_new codec eng ops (d, b) = (r, d', b')"
  shows "r \<noteq> Panic \<and> (r = Ok () \<longrightarrow> sqlite_inv codec rows abs inv (d', b') \<and> abs b' = B)"
proof -
  obtain rc dc bc where c: "get_conn eng (d, b) = (rc, dc, bc)" by (metis prod_cases3)
  obtain rm dm where m: "run_pending_migrations eng dc = (rm, dm)"
    by (cases "run_pending_migrations eng dc")
  note conn = get_conn_law [OF c] and mig = migrations_law [OF m]
  have dm: "rows dm = row_of_quote codec ` B"
    using conn mig rows by simp
  define rl where "rl n ms = fst (load_quotes codec ops n ms b)" for n ms
  define bl where "bl n ms = snd (load_quotes codec ops n ms b)" for n ms
  have l: "load_quotes codec ops n ms b = (rl n ms, bl n ms)" for n ms
    by (simp add: rl_def bl_def)
  have "rl n ms \<noteq> Panic \<and> (rl n ms = Ok () \<longrightarrow> inv (bl n ms) \<and> abs (bl n ms) = B)"
    if cnt: "sql_count eng dm = Ok n" and mods: "load_models eng dm = Ok ms" for n ms
  proof -
    obtain qs where qs: "ms = map (model_from_quote codec) qs" "set qs = B" "distinct qs"
      using load_models_law [OF dm] mods B by (auto simp: book_inv_def)
    have "n = card B"
      using count_law(2) [OF cnt] dm row_of_quote_inj B
      by (simp add: card_image book_inv_def)
    then have "n \<noteq> 0 \<or> qs = []"
      using qs(2) B by (auto simp: book_inv_def)
    then show ?thesis
      using load_quotes_law [OF b(1), of qs n "rl n ms" "bl n ms"] l [of n ms] qs b(2) B by auto
  qed
  then show ?thesis
    using run conn mig c m l dm load_models_law [OF dm] B count_law(1) [of dm]
    by (cases rc; cases rm; cases "sql_count eng dm"; cases "load_models eng dm")
      (auto simp: sqlite_new_def on_db_def sqlite_inv_def book_inv_def simp del: book_error.simps)
qed

end

text \<open>When the engine answers and the inner book is reliable, reopening succeeds.\<close>

locale reliable_sqlite_on =
  reliable_quote_book lib ops abs inv + sqlite_on lib ops abs inv eng rows codec
  for lib and ops :: "'b quote_book_ops" and abs inv and eng :: "('d, 'b) sql_engine"
    and rows codec +
  assumes engine_up: "is_ok (fst (pool_get eng d))" "is_ok (fst (run_pending_migrations eng d))"
    "is_ok (sql_count eng d)" "is_ok (sql_load eng d)"
begin

lemma load_quotes_succeeds:
  assumes "inv b" and "book_inv (abs b \<union> set qs)" and "abs b \<inter> set qs = {}" and "distinct qs"
    and "n \<noteq> 0 \<or> qs = []"
  shows "fst (load_quotes codec ops n (map (model_from_quote codec) qs) b) = Ok ()"
  using assms
proof (induction qs arbitrary: b)
  case (Cons q qs)
  have q: "quote_from_model codec (model_from_quote codec q) = Ok q" "admissible q (abs b)"
    and fresh: "\<forall>x\<in>abs b. \<not> clash q x"
    using Cons.prems(2,3) quote_from_model_from_quote [OF codec_law, of q]
    by (auto simp: book_inv_def admissible_def inj_on_def)
  obtain ba where a: "add_quote ops q b = (Ok (), ba)"
    using add_decided [OF Cons.prems(1) q(2)] fresh by (cases "add_quote ops q b") auto
  have ba: "inv ba" "abs ba = insert q (abs b)"
    using add_law [OF Cons.prems(1) q(2) a] by (simp_all add: add_spec_def)
  have "abs ba \<union> set qs = abs b \<union> set (q # qs)" "abs ba \<inter> set qs = {}"
    using ba(2) Cons.prems(3,4) by auto
  with Cons.IH [OF ba(1)] Cons.prems(2,4,5) a q(1) show ?case by simp
qed simp

lemma sqlite_new_succeeds:
  assumes b: "inv b" "abs b = {}" and B: "book_inv B" and rows: "rows d = row_of_quote codec ` B"
  obtains d' b' where "sqlite_new codec eng ops (d, b) = (Ok (), d', b')"
    "sqlite_inv codec rows abs inv (d', b')" "abs b' = B"
proof -
  obtain dc where c: "pool_get eng d = (Ok (), dc)"
    using engine_up(1) [of d] by (cases "pool_get eng d") (auto simp: is_ok_iff)
  obtain dm where m: "run_pending_migrations eng dc = (Ok (), dm)"
    using engine_up(2) [of dc] by (cases "run_pending_migrations eng dc") (auto simp: is_ok_iff)
  have dm: "rows dm = row_of_quote codec ` B"
    using pool_law [OF c] migrations_law [OF m] rows by simp
  obtain n where n: "sql_count eng dm = Ok n"
    using engine_up(3) [of dm] by (auto simp: is_ok_iff)
  obtain xs where xs: "sql_load eng dm = Ok xs"
    using engine_up(4) [of dm] by (auto simp: is_ok_iff)
  have inj: "inj_on q_id B" using B by (simp add: book_inv_def)
  obtain qs where qs: "xs = map (row_of_quote codec) qs" "set qs = B" "distinct qs"
    using load_law(2) [OF xs] dm row_of_quote_inj [OF inj] list_of_image by metis
  have ms: "load_models eng dm = Ok (map (model_from_quote codec) qs)"
    using xs qs(1) collect_results_map [of qs model_of_row "row_of_quote codec"]
    by (simp add: load_models_def row_of_quote_def)
  have "n = card B"
    using count_law(2) [OF n] dm row_of_quote_inj [OF inj] by (simp add: card_image)
  then have "fst (load_quotes codec ops n (map (model_from_quote codec) qs) b) = Ok ()"
    using qs b B by (intro load_quotes_succeeds) (auto simp: book_inv_def)
  then have "fst (sqlite_new codec eng ops (d, b)) = Ok ()"
    using c m n ms by (simp add: sqlite_new_def get_conn_def on_db_def split_beta)
  then show ?thesis
    using that sqlite_new_law [OF b B rows] by (metis prod.collapse prod_cases3)
qed

end

end
