(* ===== verification/Byte_Codecs.thy ===== *)
theory Byte_Codecs
  imports Sqlite_Book
begin

text \<open>
  Self-delimiting byte encodings of numbers, lists, pairs and options, and of the types of the
  MobileCoin crates. They are concrete codecs for the places where the sources use a serialization
  library, which the models take as a parameter: the SCI column of the database, and the state file
  of the wallet.
\<close>

section \<open>Encodings\<close>

definition self_delimiting :: "('a \<Rightarrow> bytes) \<Rightarrow> (bytes \<Rightarrow> ('a \<times> bytes) option) \<Rightarrow> bool" where
  "self_delimiting enc dec \<longleftrightarrow> (\<forall>x r. dec (enc x @ r) = Some (x, r))"

definition enc_u64 :: "u64 \<Rightarrow> bytes" where
  "enc_u64 x = vec_u64_to_sql x"

definition dec_u64 :: "bytes \<Rightarrow> (u64 \<times> bytes) option" where
  "dec_u64 bs = (case vec_u64_from_sql (take 8 bs) of Ok x \<Rightarrow> Some (x, drop 8 bs) | _ \<Rightarrow> None)"

fun enc_list :: "('a \<Rightarrow> bytes) \<Rightarrow> 'a list \<Rightarrow> bytes" where
  "enc_list e [] = [0]"
| "enc_list e (x # xs) = 1 # e x @ enc_list e xs"

fun dec_items :: "(bytes \<Rightarrow> ('a \<times> bytes) option) \<Rightarrow> nat \<Rightarrow> bytes \<Rightarrow> ('a list \<times> bytes) option" where
  "dec_items d 0 bs = None"
| "dec_items d (Suc n) [] = None"
| "dec_items d (Suc n) (b # bs) =
     (if b = 0 then Some ([], bs)
      else (case d bs of None \<Rightarrow> None
        | Some (x, bs') \<Rightarrow> (case dec_items d n bs' of None \<Rightarrow> None
            | Some (xs, bs'') \<Rightarrow> Some (x # xs, bs''))))"

definition dec_list :: "(bytes \<Rightarrow> ('a \<times> bytes) option) \<Rightarrow> bytes \<Rightarrow> ('a list \<times> bytes) option" where
  "dec_list d bs = dec_items d (length bs) bs"

definition enc_two :: "('a \<Rightarrow> bytes) \<Rightarrow> ('b \<Rightarrow> bytes) \<Rightarrow> 'a \<times> 'b \<Rightarrow> bytes" where
  "enc_two e f p = e (fst p) @ f (snd p)"

definition dec_two ::
  "(bytes \<Rightarrow> ('a \<times> bytes) option) \<Rightarrow> (bytes \<Rightarrow> ('b \<times> bytes) option) \<Rightarrow> bytes \<Rightarrow>
     (('a \<times> 'b) \<times> bytes) option" where
  "dec_two d g bs =
     (case d bs of None \<Rightarrow> None
      | Some (x, bs') \<Rightarrow> (case g bs' of None \<Rightarrow> None | Some (y, bs'') \<Rightarrow> Some ((x, y), bs'')))"

definition enc_via :: "('a \<Rightarrow> 'b) \<Rightarrow> ('b \<Rightarrow> bytes) \<Rightarrow> 'a \<Rightarrow> bytes" where
  "enc_via f e x = e (f x)"

definition dec_via :: "('b \<Rightarrow> 'a) \<Rightarrow> (bytes \<Rightarrow> ('b \<times> bytes) option) \<Rightarrow> bytes \<Rightarrow> ('a \<times> bytes) option" where
  "dec_via g d bs = map_option (\<lambda>(y, r). (g y, r)) (d bs)"

lemma self_delimiting_byte: "self_delimiting (\<lambda>b. [b]) (\<lambda>bs. case bs of [] \<Rightarrow> None | b # r \<Rightarrow> Some (b, r))"
  by (simp add: self_delimiting_def)

lemma self_delimiting_u64: "self_delimiting enc_u64 dec_u64"
  by (simp add: self_delimiting_def enc_u64_def dec_u64_def vec_u64_to_sql_def vec_u64_from_sql_def
      flip: vec_u64_to_sql_def)
    (use vec_u64_from_to_sql in \<open>auto simp: vec_u64_from_sql_def vec_u64_to_sql_def\<close>)

lemma self_delimiting_list:
  assumes "self_delimiting e d"
  shows "self_delimiting (enc_list e) (dec_list d)"
proof -
  have "dec_items d n (enc_list e xs @ r) = Some (xs, r)" if "length xs < n" for n xs r
    using that
  proof (induction xs arbitrary: n)
    case Nil
    then show ?case by (cases n) auto
  next
    case (Cons x xs)
    then show ?case
      using assms by (cases n) (auto simp: self_delimiting_def)
  qed
  moreover have "length xs < length (enc_list e xs)" for xs
    by (induction xs) auto
  ultimately show ?thesis
    by (simp add: self_delimiting_def dec_list_def trans_less_add1)
qed

lemma self_delimiting_two:
  "self_delimiting e d \<Longrightarrow> self_delimiting f g \<Longrightarrow> self_delimiting (enc_two e f) (dec_two d g)"
  by (simp add: self_delimiting_def enc_two_def dec_two_def)

lemma self_delimiting_via:
  "self_delimiting e d \<Longrightarrow> (\<And>x. g (f x) = x) \<Longrightarrow> self_delimiting (enc_via f e) (dec_via g d)"
  by (simp add: self_delimiting_def enc_via_def dec_via_def)

abbreviation enc_bytes :: "bytes \<Rightarrow> bytes" where
  "enc_bytes \<equiv> enc_list (\<lambda>b. [b])"

abbreviation dec_bytes :: "bytes \<Rightarrow> (bytes \<times> bytes) option" where
  "dec_bytes \<equiv> dec_list (\<lambda>bs. case bs of [] \<Rightarrow> None | b # r \<Rightarrow> Some (b, r))"

definition enc_amount :: "amount \<Rightarrow> bytes" where
  "enc_amount = enc_via (\<lambda>a. (amount_value a, amount_token_id a)) (enc_two enc_u64 enc_u64)"

definition dec_amount :: "bytes \<Rightarrow> (amount \<times> bytes) option" where
  "dec_amount =
     dec_via (\<lambda>(v, t). \<lparr>amount_value = v, amount_token_id = t\<rparr>) (dec_two dec_u64 dec_u64)"

definition enc_tx_out :: "tx_out \<Rightarrow> bytes" where
  "enc_tx_out = enc_via (\<lambda>t. (public_key t, target_key t, tx_out_rest t))
     (enc_two enc_bytes (enc_two enc_bytes enc_bytes))"

definition dec_tx_out :: "bytes \<Rightarrow> (tx_out \<times> bytes) option" where
  "dec_tx_out = dec_via (\<lambda>(p, k, r). \<lparr>public_key = p, target_key = k, tx_out_rest = r\<rparr>)
     (dec_two dec_bytes (dec_two dec_bytes dec_bytes))"

definition enc_revealed :: "revealed_tx_out \<Rightarrow> bytes" where
  "enc_revealed = enc_via (\<lambda>r. (revealed_output r, revealed_rest r)) (enc_two enc_tx_out enc_bytes)"

definition dec_revealed :: "bytes \<Rightarrow> (revealed_tx_out \<times> bytes) option" where
  "dec_revealed = dec_via (\<lambda>(t, r). \<lparr>revealed_output = t, revealed_rest = r\<rparr>)
     (dec_two dec_tx_out dec_bytes)"

text \<open>An option is encoded as a list of at most one item.\<close>

definition enc_option :: "('a \<Rightarrow> bytes) \<Rightarrow> 'a option \<Rightarrow> bytes" where
  "enc_option e = enc_via (\<lambda>x. case x of None \<Rightarrow> [] | Some y \<Rightarrow> [y]) (enc_list e)"

definition dec_option :: "(bytes \<Rightarrow> ('a \<times> bytes) option) \<Rightarrow> bytes \<Rightarrow> ('a option \<times> bytes) option" where
  "dec_option d = dec_via (\<lambda>xs. case xs of [] \<Rightarrow> None | y # _ \<Rightarrow> Some y) (dec_list d)"

definition enc_rules :: "input_rules \<Rightarrow> bytes" where
  "enc_rules = enc_via (\<lambda>i. (required_outputs i, max_tombstone_block i, partial_fill_outputs i,
       partial_fill_change i, min_partial_fill_value i))
     (enc_two (enc_list enc_tx_out) (enc_two enc_u64 (enc_two (enc_list enc_revealed)
       (enc_two (enc_option enc_revealed) enc_u64))))"

definition dec_rules :: "bytes \<Rightarrow> (input_rules \<times> bytes) option" where
  "dec_rules = dec_via (\<lambda>(ro, mt, pf, pc, mp). \<lparr>required_outputs = ro, max_tombstone_block = mt,
       partial_fill_outputs = pf, partial_fill_change = pc, min_partial_fill_value = mp\<rparr>)
     (dec_two (dec_list dec_tx_out) (dec_two dec_u64 (dec_two (dec_list dec_revealed)
       (dec_two (dec_option dec_revealed) dec_u64))))"

definition enc_sci :: "sci \<Rightarrow> bytes" where
  "enc_sci = enc_via (\<lambda>s. (ring s, sci_input_rules s, tx_out_global_indices s,
       pseudo_output_amount s, required_output_amounts s, sci_key_image s, sci_rest s))
     (enc_two (enc_list enc_tx_out) (enc_two (enc_option enc_rules) (enc_two (enc_list enc_u64)
       (enc_two enc_amount (enc_two (enc_list enc_amount) (enc_two enc_bytes enc_bytes))))))"

definition dec_sci :: "bytes \<Rightarrow> (sci \<times> bytes) option" where
  "dec_sci = dec_via (\<lambda>(ri, ir, gi, pa, ra, ki, re). \<lparr>ring = ri, sci_input_rules = ir,
       tx_out_global_indices = gi, pseudo_output_amount = pa, required_output_amounts = ra,
       sci_key_image = ki, sci_rest = re\<rparr>)
     (dec_two (dec_list dec_tx_out) (dec_two (dec_option dec_rules) (dec_two (dec_list dec_u64)
       (dec_two dec_amount (dec_two (dec_list dec_amount) (dec_two dec_bytes dec_bytes))))))"

definition sample_codec :: sci_codec where
  "sample_codec = \<lparr>sci_encode = enc_sci,
     sci_decode = (\<lambda>bs. case dec_sci bs of Some (s, []) \<Rightarrow> Ok s | _ \<Rightarrow> Err ''malformed'')\<rparr>"

lemmas self_delimiting_basics = self_delimiting_byte self_delimiting_u64 self_delimiting_list
  self_delimiting_two

lemma self_delimiting_option:
  "self_delimiting e d \<Longrightarrow> self_delimiting (enc_option e) (dec_option d)"
  unfolding enc_option_def dec_option_def
  by (rule self_delimiting_via) (auto intro: self_delimiting_list split: option.splits)

lemma self_delimiting_tx_out: "self_delimiting enc_tx_out dec_tx_out"
  unfolding enc_tx_out_def dec_tx_out_def
  by (rule self_delimiting_via) (auto intro!: self_delimiting_basics)

lemma self_delimiting_revealed: "self_delimiting enc_revealed dec_revealed"
  unfolding enc_revealed_def dec_revealed_def
  by (rule self_delimiting_via) (auto intro!: self_delimiting_basics self_delimiting_tx_out)

lemma self_delimiting_amount: "self_delimiting enc_amount dec_amount"
  unfolding enc_amount_def dec_amount_def
  by (rule self_delimiting_via) (auto intro!: self_delimiting_basics)

lemma self_delimiting_rules: "self_delimiting enc_rules dec_rules"
  unfolding enc_rules_def dec_rules_def
  by (rule self_delimiting_via)
    (auto intro!: self_delimiting_basics self_delimiting_option self_delimiting_tx_out
      self_delimiting_revealed)

lemma self_delimiting_sci: "self_delimiting enc_sci dec_sci"
  unfolding enc_sci_def dec_sci_def
  by (rule self_delimiting_via)
    (auto intro!: self_delimiting_basics self_delimiting_option self_delimiting_tx_out
      self_delimiting_rules self_delimiting_amount)

lemma sample_codec_ok: "codec_ok sample_codec"
proof -
  have "dec_sci (enc_sci s @ []) = Some (s, [])" for s
    using self_delimiting_sci by (simp only: self_delimiting_def)
  then show ?thesis
    by (simp add: codec_ok_def sample_codec_def)
qed

end
