(* ===== verification/Sqlite_Instance.thy ===== *)
theory Sqlite_Instance
  imports Byte_Codecs
begin

text \<open>
  The persistent book on a concrete engine: the table as a list of rows, with transactions that
  restore it on an error, and the self-delimiting encoding of SCIs. They show that what
  \<open>sqlite_on\<close> asks of the engine and the codec can be had, here on top of the in-memory book, which
  is how the server stacks the two. The properties of the persistent book follow.
\<close>

section \<open>An engine\<close>

definition list_tx ::
  "(sql_row list \<times> 'b \<Rightarrow> ('a, sqlite_error) result \<times> sql_row list \<times> 'b) \<Rightarrow>
     sql_row list \<times> 'b \<Rightarrow> ('a, sqlite_error) result \<times> sql_row list \<times> 'b" where
  "list_tx f st =
     (case f st of (Ok v, st') \<Rightarrow> (Ok v, st') | (r, st') \<Rightarrow> (r, fst st, snd st'))"

definition list_engine :: "(sql_row list, 'b) sql_engine" where
  "list_engine =
     \<lparr>diesel_display = (\<lambda>e. case e of UniqueViolation m \<Rightarrow> m | OtherDiesel m \<Rightarrow> m),
      pool_get = (\<lambda>d. (Ok (), d)),
      run_pending_migrations = (\<lambda>d. (Ok (), d)),
      sql_insert = (\<lambda>row d. if row_id row \<in> row_id ` set d
        then (Err (UniqueViolation ''UNIQUE constraint failed: quotes.id''), d)
        else (Ok (), d @ [row])),
      sql_delete = (\<lambda>P d. (Ok (length (filter P (remdups d))), filter (\<lambda>r. \<not> P r) d)),
      sql_first = (\<lambda>P d. Ok (List.find P d)),
      sql_count = (\<lambda>d. Ok (length (remdups d))),
      sql_load = (\<lambda>d. Ok (remdups d)),
      tx_unit = list_tx, tx_quote = list_tx, tx_quotes = list_tx\<rparr>"

lemma list_tx_transactional: "transactional set list_tx"
  unfolding transactional_def
proof (intro allI impI disjI2)
  fix f d b r d' b'
  assume run: "list_tx f (d, b) = (r, d', b')"
  obtain r1 d2 b2 where f: "f (d, b) = (r1, d2, b2)" by (metis prod_cases3)
  have "b2 = b' \<and> (case r1 of
      Ok v \<Rightarrow> r = Ok v \<and> set d' = set d2
    | Err e \<Rightarrow> (r = Err e \<or> (\<exists>e'. r = Err (Diesel e'))) \<and> set d' = set d
    | Panic \<Rightarrow> r = Panic)"
    using run f by (cases r1) (auto simp: list_tx_def)
  with f show "\<exists>d1 r1 d2. set d1 = set d \<and> f (d1, b) = (r1, d2, b') \<and> (case r1 of
      Ok v \<Rightarrow> r = Ok v \<and> set d' = set d2
    | Err e \<Rightarrow> (r = Err e \<or> (\<exists>e'. r = Err (Diesel e'))) \<and> set d' = set d
    | Panic \<Rightarrow> r = Panic)"
    by blast
qed

lemma card_filter_set: "card {x. x \<in> set d \<and> P x} = length (filter P (remdups d))"
proof -
  have "{x. x \<in> set d \<and> P x} = set (filter P (remdups d))" by auto
  then show ?thesis by (simp only: distinct_card distinct_filter distinct_remdups)
qed

interpretation list_sql: sql_engine_laws list_engine set
  by unfold_locales
    (auto simp: list_engine_def list_tx_transactional card_filter_set length_remdups_card_conv
      find_None_set split: if_splits option.splits dest: find_Some_set)

interpretation msq: reliable_sqlite_on lib "in_memory_ops lib" mem_abs mem_inv list_engine set
  sample_codec for lib
  by unfold_locales (simp_all add: sample_codec_ok list_engine_def)

section \<open>A sample state\<close>

definition sample_stored :: "sql_row list \<times> in_memory_quote_book" where
  "sample_stored =
     ([row_of_quote sample_codec (sample_full_quote 2 100 20 4),
       row_of_quote sample_codec (sample_full_quote 1 100 10 5)], sample_book)"

lemma sample_stored_inv: "sqlite_inv sample_codec set mem_abs mem_inv sample_stored"
  by (auto simp: sqlite_inv_def sample_stored_def sample_book_inv sample_book_abs)

section \<open>Properties\<close>

text \<open>
  A quote survives the database. Storing a quote as a row and reading the row back gives
  the same quote, including token identifiers, timestamps and amounts that do not fit a signed
  64-bit integer.
\<close>

lemma row_round_trip:
  assumes "codec_ok codec" and "length (q_id q) = 32"
  shows "and_then (map_err ImplementationSpecific (model_of_row (row_of_quote codec q)))
    (quote_from_model codec) = Ok q"
  using quote_from_model_from_quote [OF assms] by (simp add: row_of_quote_def)

lemma row_round_trip_witness:
  "and_then (map_err ImplementationSpecific
     (model_of_row (row_of_quote sample_codec (sample_full_quote 1 (- 1) (- 2) (- 3)))))
    (quote_from_model sample_codec) = Ok (sample_full_quote 1 (- 1) (- 2) (- 3))"
  by (rule row_round_trip) (simp_all add: sample_codec_ok)

text \<open>
  The binary column type. A stored number reads back unchanged, the encoding always has
  eight bytes, and comparing the stored bytes lexicographically, as SQLite compares binary values,
  is comparing the numbers.
\<close>

lemma vec_u64_order_preserving:
  "vec_u64_from_sql (vec_u64_to_sql x) = Ok x \<and> length (vec_u64_to_sql x) = 8 \<and>
   (vec_u64_to_sql x < vec_u64_to_sql y \<longleftrightarrow> x < y)"
proof -
  have "be_value (vec_u64_to_sql z) = unat z" for z
    using unat_u64_less [of z] by (simp add: vec_u64_to_sql_def be_value_be_bytes)
  moreover have "length (vec_u64_to_sql z) = 8" for z
    by (simp add: vec_u64_to_sql_def)
  ultimately show ?thesis
    using be_value_order [of "vec_u64_to_sql x" "vec_u64_to_sql y"]
    by (simp add: word_less_nat_alt)
qed





text \<open>
  C13: Restarting loses nothing. If the table agrees with the book, then opening the database
  again with an empty inner book succeeds whenever the engine answers, and the reopened book holds
  exactly the quotes the book held before.
\<close>

theorem sqlite_restart:
  assumes "reliable_sqlite_on lib ops absf invf eng rows codec"
    and "sqlite_inv codec rows absf invf (d, b)" and "invf b0" and "absf b0 = {}"
  shows "\<exists>d' b'. sqlite_new codec eng ops (d, b0) = (Ok (), d', b') \<and>
    sqlite_inv codec rows absf invf (d', b') \<and> absf b' = absf b"
proof -
  have on: "sqlite_on lib ops absf invf eng rows codec"
    using assms(1) by (simp add: reliable_sqlite_on_def)
  have "book_inv (absf b)" "rows d = row_of_quote codec ` absf b"
    using assms(2) quote_book.inv_book [OF sqlite_on.sqlite_quote_book [OF on] assms(2)] by (simp_all add: sqlite_inv_def)
  then show ?thesis
    using reliable_sqlite_on.sqlite_new_succeeds [OF assms(1,3,4)] by metis
qed

theorem sqlite_restart_witness:
  "\<exists>d' b'. sqlite_new sample_codec list_engine (in_memory_ops sample_lib)
      (fst sample_stored, in_memory_default) = (Ok (), d', b') \<and>
    mem_abs b' = {sample_full_quote 1 100 10 5, sample_full_quote 2 100 20 4}"
proof -
  have "sqlite_inv sample_codec set mem_abs mem_inv (fst sample_stored, sample_book)"
    using sample_stored_inv by (simp add: sample_stored_def)
  from sqlite_restart [OF msq.reliable_sqlite_on_axioms this mem_inv_default]
  show ?thesis unfolding sample_book_abs by blast
qed

section \<open>Divergences\<close>

text \<open>A quote whose tombstone block is more than 20160 blocks ahead: the inner book takes the
  library's error \<open>TombstoneBlockTooFar\<close> for expiry and removes it, the table does not delete its
  row, and the assertion on the counts fails, although table and book agreed before.\<close>

definition far_quote :: quote where
  "far_quote = (sample_full_quote 1 100 10 5)\<lparr>q_sci :=
     (sample_full 1 100 10)\<lparr>sci_input_rules := Some \<lparr>required_outputs = [sample_tx_out 0],
       max_tombstone_block = 30000, partial_fill_outputs = [], partial_fill_change = None,
       min_partial_fill_value = 0\<rparr>\<rparr>\<rparr>"

definition far_state :: "sql_row list \<times> in_memory_quote_book" where
  "far_state = ([row_of_quote sample_codec far_quote],
     \<lparr>scis = [(Pair 0 1, [far_quote])], poisoned = False\<rparr>)"

theorem far_tombstone_panics:
  "sqlite_inv sample_codec set mem_abs mem_inv far_state \<and>
   fst (sqlite_remove_quotes_by_tombstone_block list_engine (in_memory_ops sample_lib) 1 far_state) =
     Panic"
proof
  have q: "q_pair far_quote = Pair 0 1" "quote_tombstone far_quote = 30000" "rated far_quote"
      "length (q_id far_quote) = 32"
    by (simp_all add: far_quote_def quote_tombstone_def rated_def max_base_tokens_def)
  then show "sqlite_inv sample_codec set mem_abs mem_inv far_state"
    by (simp add: sqlite_inv_def far_state_def mem_inv_def mem_abs_def entry_inv_def book_inv_def)
  have "drain_filter_all (past_tombstone sample_lib 1) [(Pair 0 1, [far_quote])] =
      ([far_quote], [(Pair 0 1, [])])"
    using q by (simp add: drain_filter_all_def past_tombstone_def sample_lib_def)
  moreover have "as_i64 30000 = 30000" "as_i64 1 = 1"
    by (simp_all add: as_i64_def)
  ultimately show "fst (sqlite_remove_quotes_by_tombstone_block list_engine
      (in_memory_ops sample_lib) 1 far_state) = Panic"
    using q(2)
    by (simp add: sqlite_remove_quotes_by_tombstone_block_def get_conn_def on_db_def on_book_def
        list_engine_def list_tx_def remove_both_def far_state_def
        mem_remove_quotes_by_tombstone_block_def flip: past_tombstone_fun)
qed

text \<open>An engine whose commit fails: the call returns an error, but the inner book keeps the quote
  while the table does not have its row.\<close>

definition failing_commit_engine :: "(sql_row list, 'b) sql_engine" where
  "failing_commit_engine = list_engine\<lparr>tx_unit := \<lambda>f st.
     (case f st of
        (Ok v, st') \<Rightarrow> (Err (Diesel (OtherDiesel ''disk I/O error'')), fst st, snd st')
      | (r, st') \<Rightarrow> (r, fst st, snd st'))\<rparr>"

theorem failed_commit_diverges:
  "case sqlite_add_quote sample_lib sample_codec failing_commit_engine (in_memory_ops sample_lib)
     (sample_full_quote 1 100 10 5) ([], in_memory_default) of
   (r, d, b) \<Rightarrow> is_err r \<and> d = [] \<and> mem_abs b = {sample_full_quote 1 100 10 5} \<and>
     fst (sqlite_remove_quotes_by_key_image failing_commit_engine (in_memory_ops sample_lib) [1] (d, b))
       = Panic"
  by (simp add: sqlite_add_quote_def get_conn_def on_db_def on_book_def failing_commit_engine_def
      list_engine_def list_tx_def insert_row_def mem_add_quote_def in_memory_default_def mem_abs_def
      sqlite_remove_quotes_by_key_image_def remove_both_def mem_remove_quotes_by_key_image_def
      drain_filter_all_def)

end
