(* ===== verification/Ledger.thy ===== *)
theory Ledger
  imports Quote
begin

text \<open>
  The ledger database of the MobileCoin crates, which the synchronized book and the liquidity bot
  read. It is a parameter: a record of the calls the sources make, on a ledger state \<open>'l\<close>. The
  locale \<open>ledger_laws\<close> states what they rely on, in terms of the list of blocks in the ledger: a
  call answers about that list, or fails.
\<close>

datatype ledger_error = LedgerNotFound | LedgerOther string

record block_contents =
  bc_key_images :: "key_image list"
  bc_outputs :: "tx_out list"

record 'l ledger_ops =
  num_blocks :: "'l \<Rightarrow> (u64, ledger_error) result"
  contains_key_image :: "key_image \<Rightarrow> 'l \<Rightarrow> (bool, ledger_error) result"
  get_tx_out_by_index :: "u64 \<Rightarrow> 'l \<Rightarrow> (tx_out, ledger_error) result"
  get_block_contents :: "u64 \<Rightarrow> 'l \<Rightarrow> (block_contents, ledger_error) result"
  ledger_display :: "ledger_error \<Rightarrow> string"

type_synonym chain = "block_contents list"

definition chain_key_images :: "chain \<Rightarrow> key_image set" where
  "chain_key_images bs = (\<Union>b\<in>set bs. set (bc_key_images b))"

definition chain_outputs :: "chain \<Rightarrow> tx_out list" where
  "chain_outputs bs = concat (map bc_outputs bs)"

text \<open>Block counts stay below \<open>2 ^ 63\<close>, far above what a chain reaches.\<close>

locale ledger_laws =
  fixes ldg :: "'l ledger_ops"
    and blocks :: "'l \<Rightarrow> chain"
  assumes chain_length: "length (blocks l) < 2 ^ 63"
    and num_blocks_law: "num_blocks ldg l \<noteq> Panic"
      "num_blocks ldg l = Ok n \<Longrightarrow> unat n = length (blocks l)"
    and contains_key_image_law: "contains_key_image ldg k l \<noteq> Panic"
      "contains_key_image ldg k l = Ok c \<Longrightarrow> c \<longleftrightarrow> k \<in> chain_key_images (blocks l)"
    and get_tx_out_law: "get_tx_out_by_index ldg i l \<noteq> Panic"
      "get_tx_out_by_index ldg i l = Ok t \<Longrightarrow>
         unat i < length (chain_outputs (blocks l)) \<and> t = chain_outputs (blocks l) ! unat i"
    and get_block_law: "get_block_contents ldg i l \<noteq> Panic"
      "get_block_contents ldg i l = Ok b \<Longrightarrow> unat i < length (blocks l) \<and> b = blocks l ! unat i"
      "get_block_contents ldg i l = Err LedgerNotFound \<Longrightarrow> length (blocks l) \<le> unat i"

text \<open>A ledger that always answers.\<close>

locale healthy_ledger = ledger_laws +
  assumes num_blocks_ok: "num_blocks ldg l = Ok (of_nat (length (blocks l)))"
    and contains_key_image_ok: "is_ok (contains_key_image ldg k l)"
    and get_tx_out_ok: "unat i < length (chain_outputs (blocks l)) \<Longrightarrow> is_ok (get_tx_out_by_index ldg i l)"
    and get_block_ok: "unat i < length (blocks l) \<Longrightarrow> is_ok (get_block_contents ldg i l)"
      "length (blocks l) \<le> unat i \<Longrightarrow> get_block_contents ldg i l = Err LedgerNotFound"

lemma chain_key_images_append [simp]:
  "chain_key_images (bs @ cs) = chain_key_images bs \<union> chain_key_images cs"
  by (auto simp: chain_key_images_def)

lemma chain_key_images_take_mono:
  "n \<le> m \<Longrightarrow> chain_key_images (take n bs) \<subseteq> chain_key_images (take m bs)"
  using set_take_subset_set_take [of n m bs] by (auto simp: chain_key_images_def)

lemma chain_key_images_take_subset: "chain_key_images (take n bs) \<subseteq> chain_key_images bs"
  using chain_key_images_take_mono [of n "max n (length bs)" bs] by simp

lemma chain_key_images_take_Suc:
  "n < length bs \<Longrightarrow>
     chain_key_images (take (Suc n) bs) =
       chain_key_images (take n bs) \<union> set (bc_key_images (bs ! n))"
  by (auto simp: take_Suc_conv_app_nth chain_key_images_def)

section \<open>A concrete ledger\<close>

text \<open>A list of fewer than \<open>2 ^ 63\<close> blocks as the ledger state.\<close>

typedef small_chain = "{bs :: chain. length bs < 2 ^ 63}"
  by (rule exI [of _ "[]"]) simp

setup_lifting type_definition_small_chain

lift_definition chain_blocks :: "small_chain \<Rightarrow> chain" is "\<lambda>bs. bs" .

lift_definition chain_of :: "chain \<Rightarrow> small_chain" is "\<lambda>bs. if length bs < 2 ^ 63 then bs else []"
  by simp

lemma chain_blocks_of [simp]: "length bs < 2 ^ 63 \<Longrightarrow> chain_blocks (chain_of bs) = bs"
  by transfer simp

lemma chain_blocks_length: "length (chain_blocks c) < 2 ^ 63"
  by transfer simp

definition list_ledger :: "small_chain ledger_ops" where
  "list_ledger =
     \<lparr>num_blocks = (\<lambda>l. Ok (of_nat (length (chain_blocks l)))),
      contains_key_image = (\<lambda>k l. Ok (k \<in> chain_key_images (chain_blocks l))),
      get_tx_out_by_index = (\<lambda>i l.
        if unat i < length (chain_outputs (chain_blocks l))
        then Ok (chain_outputs (chain_blocks l) ! unat i) else Err LedgerNotFound),
      get_block_contents = (\<lambda>i l.
        if unat i < length (chain_blocks l) then Ok (chain_blocks l ! unat i)
        else Err LedgerNotFound),
      ledger_display = (\<lambda>e. case e of LedgerNotFound \<Rightarrow> ''NotFound'' | LedgerOther m \<Rightarrow> m)\<rparr>"

lemma unat_of_nat_small: "n < 2 ^ 63 \<Longrightarrow> unat (of_nat n :: u64) = n"
  by (simp add: unsigned_of_nat take_bit_nat_eq_self_iff)

interpretation lc: healthy_ledger list_ledger chain_blocks
  using chain_blocks_length
  by unfold_locales (auto simp: list_ledger_def unat_of_nat_small split: if_splits)

end
