(* ===== verification/Synchronized_Book.thy ===== *)
theory Synchronized_Book
  imports Quote_Book_Spec Ledger
begin

text \<open>
  The crate \<open>quote-book/synchronized\<close>: a quote book that refuses quotes the ledger has already
  overtaken, and a background thread that reads new blocks and removes the quotes they spend or
  expire. The inner book is any implementation of the trait, the ledger is the parameter of the
  theory \<open>Ledger\<close>.

  The first part models the methods and the thread as functions; loops that retry until a call
  succeeds are partial functions, undefined when they do not end. The second part puts the thread
  and its clients together in a step relation and shows what the book holds in every reachable
  state. Arithmetic on block indexes wraps, as in a release build.
\<close>

section \<open>The book\<close>

record ('b, 'l) sync_book =
  sb_quote_book :: 'b
  sb_ledger :: 'l
  sb_highest_processed_block_index :: u64

definition get_current_block_index :: "('b, 'l) sync_book \<Rightarrow> u64" where
  "get_current_block_index st = sb_highest_processed_block_index st"

definition ledger_result :: "'l ledger_ops \<Rightarrow> ('a, ledger_error) result \<Rightarrow> ('a, error) result" where
  "ledger_result ldg r = map_err (\<lambda>e. ImplementationSpecific (ledger_display ldg e)) r"

fun check_ring_members :: "'l ledger_ops \<Rightarrow> 'l \<Rightarrow> (u64 \<times> tx_out) list \<Rightarrow> (unit, error) result" where
  "check_ring_members ldg l [] = Ok ()"
| "check_ring_members ldg l ((index, tx_out) # rest) =
     and_then (ledger_result ldg (get_tx_out_by_index ldg index l)) (\<lambda>real_tx_out.
       if real_tx_out \<noteq> tx_out then Err (InvalidRing ''Invalid ring member'')
       else check_ring_members ldg l rest)"

definition validate_quote_ring_members ::
  "'l ledger_ops \<Rightarrow> 'l \<Rightarrow> quote \<Rightarrow> (unit, error) result" where
  "validate_quote_ring_members ldg l q =
     (let indices = tx_out_global_indices (q_sci q); rng = ring (q_sci q)
      in if length rng \<noteq> length indices then Err (InvalidRing ''Missing index for txo'')
         else check_ring_members ldg l (zip indices rng))"

text \<open>The checks \<open>add_quote\<close> makes before it calls the inner book.\<close>

definition sync_check :: "'l ledger_ops \<Rightarrow> 'l \<Rightarrow> quote \<Rightarrow> (unit, error) result" where
  "sync_check ldg l q =
     and_then (ledger_result ldg (num_blocks ldg l)) (\<lambda>n.
     let current_block_index = n - 1
     in if (case sci_input_rules (q_sci q) of
              Some rules \<Rightarrow> max_tombstone_block rules \<noteq> 0 \<and>
                max_tombstone_block rules \<le> current_block_index
            | None \<Rightarrow> False)
        then Err QuoteIsStale
        else and_then (ledger_result ldg (contains_key_image ldg (quote_key_image q) l)) (\<lambda>spent.
          if spent then Err QuoteIsStale else validate_quote_ring_members ldg l q))"

text \<open>A call of the inner book.\<close>

definition on_inner ::
  "('b \<Rightarrow> 'a \<times> 'b) \<Rightarrow> ('b, 'l) sync_book \<Rightarrow> 'a \<times> ('b, 'l) sync_book" where
  "on_inner f st = (let (r, b') = f (sb_quote_book st) in (r, st\<lparr>sb_quote_book := b'\<rparr>))"

definition sync_add_quote ::
  "'l ledger_ops \<Rightarrow> 'b quote_book_ops \<Rightarrow> quote \<Rightarrow> ('b, 'l) sync_book \<Rightarrow>
     (unit, error) result \<times> ('b, 'l) sync_book" where
  "sync_add_quote ldg ops q st =
     then_do (sync_check ldg (sb_ledger st) q, st) (\<lambda>_ st. on_inner (add_quote ops q) st)"

definition sync_ops ::
  "'l ledger_ops \<Rightarrow> 'b quote_book_ops \<Rightarrow> ('b, 'l) sync_book quote_book_ops" where
  "sync_ops ldg ops =
     \<lparr>add_quote = sync_add_quote ldg ops,
      remove_quote_by_id = (\<lambda>i. on_inner (remove_quote_by_id ops i)),
      remove_quotes_by_key_image = (\<lambda>k. on_inner (remove_quotes_by_key_image ops k)),
      remove_quotes_by_tombstone_block = (\<lambda>n. on_inner (remove_quotes_by_tombstone_block ops n)),
      get_quotes = (\<lambda>p rng limit st. get_quotes ops p rng limit (sb_quote_book st)),
      get_quote_ids = (\<lambda>po st. get_quote_ids ops po (sb_quote_book st)),
      get_quote_by_id = (\<lambda>i st. get_quote_by_id ops i (sb_quote_book st)),
      num_scis = (\<lambda>st. num_scis ops (sb_quote_book st))\<rparr>"

section \<open>The background thread\<close>

text \<open>\<open>DbFetcherThread\<close>. The calls of the removal callback are kept in order, most recent last.\<close>

record 'b db_fetcher =
  quotebook :: 'b
  next_block_index :: u64
  highest_processed_block_index :: u64
  callbacks :: "quote list list"

definition fetcher_start :: "'b \<Rightarrow> u64 \<Rightarrow> 'b db_fetcher" where
  "fetcher_start b highest =
     \<lparr>quotebook = b, next_block_index = highest, highest_processed_block_index = highest,
      callbacks = []\<rparr>"

text \<open>Call until the call does not fail; undefined when it always fails.\<close>

partial_function (option) retry ::
  "('b \<Rightarrow> (quote list, error) result \<times> 'b) \<Rightarrow> 'b \<Rightarrow> ((quote list, error) result \<times> 'b) option" where
  "retry f b =
     (case f b of
        (Ok qs, b') \<Rightarrow> Some (Ok qs, b')
      | (Err e, b') \<Rightarrow> retry f b'
      | (Panic, b') \<Rightarrow> Some (Panic, b'))"

text \<open>Remove with retries, then call back with the removed quotes.\<close>

definition remove_and_report ::
  "('b \<Rightarrow> (quote list, error) result \<times> 'b) \<Rightarrow> 'b db_fetcher \<Rightarrow>
     ((unit, error) result \<times> 'b db_fetcher) option" where
  "remove_and_report f st =
     (case retry f (quotebook st) of
        None \<Rightarrow> None
      | Some (Ok qs, b') \<Rightarrow> Some (Ok (), st\<lparr>quotebook := b', callbacks := callbacks st @ [qs]\<rparr>)
      | Some (Err e, b') \<Rightarrow> Some (Err e, st\<lparr>quotebook := b'\<rparr>)
      | Some (Panic, b') \<Rightarrow> Some (Panic, st\<lparr>quotebook := b'\<rparr>))"

fun remove_key_images ::
  "'b quote_book_ops \<Rightarrow> key_image list \<Rightarrow> 'b db_fetcher \<Rightarrow>
     ((unit, error) result \<times> 'b db_fetcher) option" where
  "remove_key_images ops [] st = Some (Ok (), st)"
| "remove_key_images ops (k # ks) st =
     (case remove_and_report (remove_quotes_by_key_image ops k) st of
        None \<Rightarrow> None
      | Some (Ok _, st') \<Rightarrow> remove_key_images ops ks st'
      | Some (r, st') \<Rightarrow> Some (r, st'))"

definition load_block_data ::
  "'l ledger_ops \<Rightarrow> 'b quote_book_ops \<Rightarrow> 'l \<Rightarrow> 'b db_fetcher \<Rightarrow>
     ((bool, error) result \<times> 'b db_fetcher) option" where
  "load_block_data ldg ops l st =
     (case get_block_contents ldg (next_block_index st) l of
        Err LedgerNotFound \<Rightarrow> Some (Ok False, st)
      | Err (LedgerOther e) \<Rightarrow> Some (Ok True, st)
      | Ok block_contents \<Rightarrow>
          (case remove_key_images ops (bc_key_images block_contents) st of
             None \<Rightarrow> None
           | Some (Ok _, st') \<Rightarrow>
               Some (Ok True, st'\<lparr>next_block_index := next_block_index st' + 1\<rparr>)
           | Some (Err e, st') \<Rightarrow> Some (Err e, st')
           | Some (Panic, st') \<Rightarrow> Some (Panic, st'))
      | Panic \<Rightarrow> Some (Panic, st))"

text \<open>The tombstone removal at the end of a round.\<close>

definition expire_quotes ::
  "'b quote_book_ops \<Rightarrow> 'b db_fetcher \<Rightarrow> ((unit, error) result \<times> 'b db_fetcher) option" where
  "expire_quotes ops st =
     (let last_processed_block_index = next_block_index st - 1
      in case remove_and_report (remove_quotes_by_tombstone_block ops last_processed_block_index) st of
           None \<Rightarrow> None
         | Some (Ok _, st') \<Rightarrow>
             Some (Ok (), st'\<lparr>highest_processed_block_index := last_processed_block_index\<rparr>)
         | Some (r, st') \<Rightarrow> Some (r, st'))"

text \<open>One round of \<open>run\<close> in which no stop is requested: load blocks while there may be more, at
  most \<open>fuel\<close> times, then expire if there was any.\<close>

fun load_loop ::
  "'l ledger_ops \<Rightarrow> 'b quote_book_ops \<Rightarrow> 'l \<Rightarrow> nat \<Rightarrow> 'b db_fetcher \<Rightarrow>
     ((unit, error) result \<times> 'b db_fetcher) option" where
  "load_loop ldg ops l 0 st = None"
| "load_loop ldg ops l (Suc fuel) st =
     (case load_block_data ldg ops l st of
        None \<Rightarrow> None
      | Some (Ok may_have_more, st') \<Rightarrow>
          if may_have_more then load_loop ldg ops l fuel st' else Some (Ok (), st')
      | Some (Err e, st') \<Rightarrow> Some (Err e, st')
      | Some (Panic, st') \<Rightarrow> Some (Panic, st'))"

definition run_round ::
  "'l ledger_ops \<Rightarrow> 'b quote_book_ops \<Rightarrow> 'l \<Rightarrow> nat \<Rightarrow> 'b db_fetcher \<Rightarrow>
     ((unit, error) result \<times> 'b db_fetcher) option" where
  "run_round ldg ops l fuel st =
     (case load_loop ldg ops l fuel st of
        None \<Rightarrow> None
      | Some (Ok _, st') \<Rightarrow>
          if next_block_index st' \<noteq> next_block_index st then expire_quotes ops st'
          else Some (Ok (), st')
      | Some (r, st') \<Rightarrow> Some (r, st'))"

section \<open>Lemmas on the checks\<close>

lemma ledger_result_eq [result_simps]:
  "ledger_result ldg r = Ok a \<longleftrightarrow> r = Ok a" "ledger_result ldg r = Panic \<longleftrightarrow> r = Panic"
  by (simp_all add: ledger_result_def result_simps)

lemma tombstone_test_eq:
  "(case sci_input_rules (q_sci q) of
      Some rules \<Rightarrow> max_tombstone_block rules \<noteq> 0 \<and> max_tombstone_block rules \<le> n
    | None \<Rightarrow> False) \<longleftrightarrow> expired_at n q"
  by (simp add: expired_at_def quote_tombstone_def split: option.splits)

lemma sync_check_eq:
  "sync_check ldg l q =
     and_then (ledger_result ldg (num_blocks ldg l)) (\<lambda>n.
       if expired_at (n - 1) q then Err QuoteIsStale
       else and_then (ledger_result ldg (contains_key_image ldg (quote_key_image q) l)) (\<lambda>spent.
         if spent then Err QuoteIsStale else validate_quote_ring_members ldg l q))"
  by (simp only: sync_check_def tombstone_test_eq Let_def)

text \<open>The members of the ring are the outputs the ledger has at the given indexes.\<close>

definition ring_in_ledger :: "tx_out list \<Rightarrow> quote \<Rightarrow> bool" where
  "ring_in_ledger outs q \<longleftrightarrow>
     list_all2 (\<lambda>i t. unat i < length outs \<and> outs ! unat i = t)
       (tx_out_global_indices (q_sci q)) (ring (q_sci q))"

context ledger_laws
begin

lemma check_ring_members_Ok:
  "check_ring_members ldg l ps = Ok () \<Longrightarrow>
     \<forall>(i, t)\<in>set ps. unat i < length (chain_outputs (blocks l)) \<and> chain_outputs (blocks l) ! unat i = t"
proof (induction ps)
  case (Cons p ps)
  then show ?case
    by (cases p) (auto simp: result_simps split: if_splits dest: get_tx_out_law(2))
qed simp

lemma check_ring_members_no_panic: "check_ring_members ldg l ps \<noteq> Panic"
proof (induction ps)
  case (Cons p ps)
  then show ?case
    using get_tx_out_law(1) by (cases p) (auto simp: result_simps split: if_splits)
qed simp

lemma validate_ring_Ok:
  assumes "validate_quote_ring_members ldg l q = Ok ()"
  shows "ring_in_ledger (chain_outputs (blocks l)) q"
proof -
  have len: "length (ring (q_sci q)) = length (tx_out_global_indices (q_sci q))"
    and chk: "check_ring_members ldg l (zip (tx_out_global_indices (q_sci q)) (ring (q_sci q))) = Ok ()"
    using assms by (auto simp: validate_quote_ring_members_def Let_def split: if_splits)
  from check_ring_members_Ok [OF chk] len show ?thesis
    by (auto simp: ring_in_ledger_def list_all2_iff)
qed

lemma sync_check_no_panic: "sync_check ldg l q \<noteq> Panic"
  using num_blocks_law(1) contains_key_image_law(1) check_ring_members_no_panic
  by (auto simp: sync_check_eq result_simps validate_quote_ring_members_def Let_def split: if_splits)

lemma sync_check_Ok:
  assumes "sync_check ldg l q = Ok ()"
  obtains n where "num_blocks ldg l = Ok n" "unat n = length (blocks l)"
    "\<not> expired_at (n - 1) q" "quote_key_image q \<notin> chain_key_images (blocks l)"
    "ring_in_ledger (chain_outputs (blocks l)) q"
proof -
  from assms obtain n where n: "num_blocks ldg l = Ok n" "\<not> expired_at (n - 1) q"
      "contains_key_image ldg (quote_key_image q) l = Ok False"
      "validate_quote_ring_members ldg l q = Ok ()"
    by (auto simp: sync_check_eq result_simps split: if_splits)
  then show ?thesis
    using that num_blocks_law(2) contains_key_image_law(2) validate_ring_Ok by blast
qed

end

context healthy_ledger
begin

lemma check_ring_members_complete:
  "\<forall>(i, t)\<in>set ps. unat i < length (chain_outputs (blocks l)) \<and> chain_outputs (blocks l) ! unat i = t
   \<Longrightarrow> check_ring_members ldg l ps = Ok ()"
proof (induction ps)
  case (Cons p ps)
  obtain i t where p: "p = (i, t)" by (cases p)
  with Cons.prems obtain t' where "get_tx_out_by_index ldg i l = Ok t'"
    using get_tx_out_ok [of i l] by (auto simp: is_ok_iff)
  with Cons p get_tx_out_law(2) show ?case
    by (force simp: ledger_result_def)
qed simp

lemma sync_check_complete:
  assumes "\<not> expired_at (of_nat (length (blocks l)) - 1) q"
    and "quote_key_image q \<notin> chain_key_images (blocks l)"
    and "ring_in_ledger (chain_outputs (blocks l)) q"
  shows "sync_check ldg l q = Ok ()"
proof -
  obtain c where c: "contains_key_image ldg (quote_key_image q) l = Ok c"
    using contains_key_image_ok by (auto simp: is_ok_iff)
  then have "\<not> c" using contains_key_image_law(2) assms(2) by blast
  moreover have "validate_quote_ring_members ldg l q = Ok ()"
    using assms(3)
    by (auto simp: validate_quote_ring_members_def ring_in_ledger_def list_all2_iff Let_def
        intro!: check_ring_members_complete)
  ultimately show ?thesis
    using assms(1) c by (simp add: sync_check_eq num_blocks_ok ledger_result_def)
qed

end

section \<open>The book implements the contract\<close>

locale sync_on = quote_book lib ops abs inv + ledger_laws ldg blocks
  for lib and ops :: "'b quote_book_ops" and abs inv and ldg :: "'l ledger_ops" and blocks
begin

lemma sync_add_law:
  assumes "inv (sb_quote_book st)" and "admissible q (abs (sb_quote_book st))"
    and "sync_add_quote ldg ops q st = (r, st')"
  shows "inv (sb_quote_book st') \<and>
    add_spec q (abs (sb_quote_book st)) r (abs (sb_quote_book st'))"
proof (cases "sync_check ldg (sb_ledger st) q")
  case (Ok u)
  then show ?thesis
    using assms(3) add_law [OF assms(1,2)]
    by (auto simp: sync_add_quote_def on_inner_def split: prod.splits)
next
  case (Err e)
  have "e \<noteq> QuoteAlreadyExists x" for x
  proof -
    have ring: "check_ring_members ldg l ps = Err e' \<Longrightarrow> e' \<noteq> QuoteAlreadyExists x" for l ps e'
      by (induction ps arbitrary: e') (auto simp: result_simps ledger_result_def split: if_splits)
    show ?thesis
      using Err
      by (auto simp: sync_check_eq result_simps ledger_result_def validate_quote_ring_members_def
          Let_def split: if_splits dest: ring)
  qed
  moreover have "r = Err e" "st' = st"
    using Err assms(3) by (simp_all add: sync_add_quote_def)
  ultimately show ?thesis
    using assms(1) by (simp add: add_spec_def)
qed (use sync_check_no_panic in blast)

end

lemma sync_ops_simps [simp]:
  "add_quote (sync_ops ldg ops) = sync_add_quote ldg ops"
  "remove_quote_by_id (sync_ops ldg ops) i = on_inner (remove_quote_by_id ops i)"
  "remove_quotes_by_key_image (sync_ops ldg ops) k = on_inner (remove_quotes_by_key_image ops k)"
  "remove_quotes_by_tombstone_block (sync_ops ldg ops) n =
     on_inner (remove_quotes_by_tombstone_block ops n)"
  "get_quotes (sync_ops ldg ops) p rng limit st = get_quotes ops p rng limit (sb_quote_book st)"
  "get_quote_ids (sync_ops ldg ops) po st = get_quote_ids ops po (sb_quote_book st)"
  "get_quote_by_id (sync_ops ldg ops) i st = get_quote_by_id ops i (sb_quote_book st)"
  "num_scis (sync_ops ldg ops) st = num_scis ops (sb_quote_book st)"
  by (simp_all add: sync_ops_def)

sublocale sync_on \<subseteq> sy: quote_book lib "sync_ops ldg ops" "\<lambda>st. abs (sb_quote_book st)"
  "\<lambda>st. inv (sb_quote_book st)"
proof (unfold_locales, unfold sync_ops_simps, goal_cases)
  case (2 s q r s')
  then show ?case by (rule sync_add_law)
next
  case (3 s i r1 s')
  then show ?case
    using remove_id_law by (auto simp: on_inner_def split: prod.splits)
next
  case (4 s k r2 s')
  then show ?case
    using remove_key_image_law by (auto simp: on_inner_def split: prod.splits)
next
  case (5 s n r2 s')
  then show ?case
    using remove_tombstone_law by (auto simp: on_inner_def split: prod.splits)
qed (auto simp: inv_book get_quotes_law get_quote_ids_law get_quote_by_id_law num_scis_law)

section \<open>What the thread removes\<close>

lemma retry_removes:
  assumes law: "\<And>b r b'. invf b \<Longrightarrow> absf b = B \<Longrightarrow> f b = (r, b') \<Longrightarrow>
      invf b' \<and> remove_where_spec S B r (absf b')"
    and init: "invf b" "absf b = B" and run: "retry f b = Some (r, b')"
  shows "invf b' \<and> (\<exists>qs. r = Ok qs \<and> remove_where_spec S B (Ok qs) (absf b'))"
proof -
  let ?P = "\<lambda>f' b y. f' = f \<longrightarrow> invf b \<longrightarrow> absf b = B \<longrightarrow>
    invf (snd y) \<and> (\<exists>qs. fst y = Ok qs \<and> remove_where_spec S B (Ok qs) (absf (snd y)))"
  have "?P f b (r, b')"
  proof (rule retry.raw_induct [where P = ?P, OF _ run], intro impI)
    fix retry' f' b y
    assume ih: "\<And>g b y. retry' g b = Some y \<Longrightarrow> ?P g b y"
      and body: "(case f' b of
           (Ok qs, b') \<Rightarrow> Some (Ok qs, b')
         | (Err e, b') \<Rightarrow> retry' f' b'
         | (Panic, b') \<Rightarrow> Some (Panic, b')) = Some y"
      and f: "f' = f" and b: "invf b" "absf b = B"
    obtain r1 b1 where s: "f b = (r1, b1)" by (cases "f b")
    note l = law [OF b s]
    show "invf (snd y) \<and> (\<exists>qs. fst y = Ok qs \<and> remove_where_spec S B (Ok qs) (absf (snd y)))"
    proof (cases r1)
      case (Ok qs)
      with body f s l show ?thesis by auto
    next
      case (Err e)
      with l have "invf b1" "absf b1 = B" by (simp_all add: remove_where_spec_def)
      moreover have "retry' f b1 = Some y" using body f s Err by simp
      ultimately show ?thesis using ih by blast
    next
      case Panic
      with l show ?thesis by (simp add: remove_where_spec_def)
    qed
  qed
  with init show ?thesis by simp
qed

lemma retry_first_try: "f b = (Ok qs, b') \<Longrightarrow> retry f b = Some (Ok qs, b')"
  by (simp add: retry.simps)

text \<open>The thread removed the quotes satisfying \<open>S\<close>, reported each of them once, and changed nothing
  else.\<close>

definition removed_where ::
  "('b \<Rightarrow> quote set) \<Rightarrow> (quote \<Rightarrow> bool) \<Rightarrow> 'b db_fetcher \<Rightarrow> 'b db_fetcher \<Rightarrow> bool" where
  "removed_where absf S st st' \<longleftrightarrow>
     absf (quotebook st') = {x \<in> absf (quotebook st). \<not> S x} \<and>
     (\<exists>new. callbacks st' = callbacks st @ new \<and> distinct (concat new) \<and>
        set (concat new) = {x \<in> absf (quotebook st). S x}) \<and>
     next_block_index st' = next_block_index st \<and>
     highest_processed_block_index st' = highest_processed_block_index st"

lemma removed_where_nothing: "removed_where absf (\<lambda>x. False) st st"
  by (auto simp: removed_where_def intro: exI [of _ "[]"])

lemma removed_where_trans:
  assumes "removed_where absf S st st1" and "removed_where absf T st1 st2"
  shows "removed_where absf (\<lambda>x. S x \<or> T x) st st2"
proof -
  let ?A = "absf (quotebook st)"
  obtain n1 n2 where n: "callbacks st1 = callbacks st @ n1" "distinct (concat n1)"
      "set (concat n1) = {x \<in> ?A. S x}" "callbacks st2 = callbacks st1 @ n2"
      "distinct (concat n2)" "set (concat n2) = {x \<in> absf (quotebook st1). T x}"
    using assms by (auto simp: removed_where_def)
  have a: "absf (quotebook st1) = {x \<in> ?A. \<not> S x}"
    using assms(1) by (simp add: removed_where_def)
  have "callbacks st2 = callbacks st @ (n1 @ n2)" "distinct (concat (n1 @ n2))"
      "set (concat (n1 @ n2)) = {x \<in> ?A. S x \<or> T x}"
    using n a by auto
  moreover have "absf (quotebook st2) = {x \<in> ?A. \<not> (S x \<or> T x)}"
    using assms(2) a by (auto simp: removed_where_def)
  moreover have "next_block_index st2 = next_block_index st"
      "highest_processed_block_index st2 = highest_processed_block_index st"
    using assms by (simp_all add: removed_where_def)
  ultimately show ?thesis
    unfolding removed_where_def by (intro conjI exI [of _ "n1 @ n2"])
qed

lemma removed_where_cong:
  "removed_where absf S st st' \<Longrightarrow> (\<And>x. S x \<longleftrightarrow> T x) \<Longrightarrow> removed_where absf T st st'"
  by (simp add: removed_where_def)

lemma remove_and_report_law:
  assumes law: "\<And>b r b'. invf b \<Longrightarrow> absf b = absf (quotebook st) \<Longrightarrow> f b = (r, b') \<Longrightarrow>
      invf b' \<and> remove_where_spec S (absf (quotebook st)) r (absf b')"
    and init: "invf (quotebook st)" and run: "remove_and_report f st = Some (r, st')"
  shows "r = Ok () \<and> invf (quotebook st') \<and> removed_where absf S st st'"
proof -
  obtain r1 b1 where rt: "retry f (quotebook st) = Some (r1, b1)"
    using run by (auto simp: remove_and_report_def split: option.splits)
  obtain qs where qs: "r1 = Ok qs" "invf b1"
      "remove_where_spec S (absf (quotebook st)) (Ok qs) (absf b1)"
    using retry_removes [where invf = invf and absf = absf and S = S, OF _ init refl rt] law
    by blast
  then have "r = Ok ()" "st' = st\<lparr>quotebook := b1, callbacks := callbacks st @ [qs]\<rparr>"
    using run rt by (simp_all add: remove_and_report_def)
  with qs show ?thesis
    by (auto simp: removed_where_def remove_where_spec_def intro: exI [of _ "[qs]"])
qed

context quote_book
begin

lemma remove_key_images_law:
  assumes "inv (quotebook st)" and "remove_key_images ops ks st = Some (r, st')"
  shows "r = Ok () \<and> inv (quotebook st') \<and>
    removed_where abs (\<lambda>x. quote_key_image x \<in> set ks) st st'"
  using assms
proof (induction ks arbitrary: st)
  case (Cons k ks)
  obtain r1 st1 where s1: "remove_and_report (remove_quotes_by_key_image ops k) st = Some (r1, st1)"
    using Cons.prems(2) by (auto split: option.splits)
  have 1: "r1 = Ok () \<and> inv (quotebook st1) \<and>
      removed_where abs (\<lambda>x. quote_key_image x = k) st st1"
    by (rule remove_and_report_law [where invf = inv and absf = abs, OF _ Cons.prems(1) s1])
      (metis remove_key_image_law)
  then have "remove_key_images ops ks st1 = Some (r, st')"
    using Cons.prems(2) s1 by simp
  with 1 Cons.IH [of st1] have "r = Ok () \<and> inv (quotebook st') \<and>
      removed_where abs (\<lambda>x. quote_key_image x \<in> set ks) st1 st'"
    by blast
  moreover from this 1 have "removed_where abs
      (\<lambda>x. quote_key_image x = k \<or> quote_key_image x \<in> set ks) st st'"
    using removed_where_trans by blast
  ultimately show ?case by simp
qed (auto intro: removed_where_nothing)

lemma expire_quotes_law:
  assumes "inv (quotebook st)"
    and "tombstones_regular lib (next_block_index st - 1) (abs (quotebook st))"
    and "expire_quotes ops st = Some (r, st')"
  shows "r = Ok () \<and> inv (quotebook st') \<and>
    highest_processed_block_index st' = next_block_index st - 1 \<and>
    (\<exists>st1. removed_where abs (expired_at (next_block_index st - 1)) st st1 \<and>
       st' = st1\<lparr>highest_processed_block_index := next_block_index st - 1\<rparr>)"
proof -
  let ?n = "next_block_index st - 1"
  obtain r1 st1 where s1: "remove_and_report (remove_quotes_by_tombstone_block ops ?n) st = Some (r1, st1)"
    using assms(3) by (auto simp: expire_quotes_def Let_def split: option.splits)
  have "r1 = Ok () \<and> inv (quotebook st1) \<and> removed_where abs (expired_at ?n) st st1"
    by (rule remove_and_report_law [where invf = inv and absf = abs, OF _ assms(1) s1])
      (metis assms(2) remove_tombstone_law)
  with assms(3) s1 show ?thesis
    by (auto simp: expire_quotes_def)
qed

end

context sync_on
begin

lemma load_block_data_law:
  assumes "inv (quotebook st)" and "load_block_data ldg ops l st = Some (r, st')"
  obtains (none) "r = Ok False" "st' = st" "length (blocks l) \<le> unat (next_block_index st)"
  | (failed) "r = Ok True" "st' = st"
  | (block) st1 where "r = Ok True" "unat (next_block_index st) < length (blocks l)"
      "inv (quotebook st1)"
      "removed_where abs
         (\<lambda>x. quote_key_image x \<in> set (bc_key_images (blocks l ! unat (next_block_index st)))) st st1"
      "st' = st1\<lparr>next_block_index := next_block_index st + 1\<rparr>"
proof (cases "get_block_contents ldg (next_block_index st) l")
  case (Ok bc)
  obtain r1 st1 where rm: "remove_key_images ops (bc_key_images bc) st = Some (r1, st1)"
    using assms(2) Ok by (auto simp: load_block_data_def split: option.splits)
  note l = remove_key_images_law [OF assms(1) rm]
  have "r = Ok True" "st' = st1\<lparr>next_block_index := next_block_index st + 1\<rparr>"
    using assms(2) Ok rm l by (simp_all add: load_block_data_def removed_where_def)
  then show ?thesis
    using block [of st1] l get_block_law(2) [OF Ok] by simp
next
  case (Err e)
  then show ?thesis
    using assms(2) none failed get_block_law(3) [of "next_block_index st" l]
    by (cases e) (auto simp: load_block_data_def)
qed (use get_block_law(1) in blast)

end

section \<open>A round of the thread\<close>

locale reliable_sync_on =
  reliable_quote_book lib ops abs inv + healthy_ledger ldg blocks
  for lib and ops :: "'b quote_book_ops" and abs inv and ldg :: "'l ledger_ops" and blocks

sublocale reliable_sync_on \<subseteq> sync_on lib ops abs inv ldg blocks
  by unfold_locales

context reliable_sync_on
begin

lemma remove_key_images_total:
  "inv (quotebook st) \<Longrightarrow> \<exists>r st'. remove_key_images ops ks st = Some (r, st')"
proof (induction ks arbitrary: st)
  case (Cons k ks)
  obtain qs b' where k: "remove_quotes_by_key_image ops k (quotebook st) = (Ok qs, b')"
    using remove_key_image_reliable [OF Cons.prems, of k] no_panic(3) [OF Cons.prems, of k]
    by (cases "remove_quotes_by_key_image ops k (quotebook st)"; cases "fst (remove_quotes_by_key_image ops k (quotebook st))")
      auto
  have "inv b'" using remove_key_image_law [OF Cons.prems k] by blast
  with Cons.IH [of "st\<lparr>quotebook := b', callbacks := callbacks st @ [qs]\<rparr>"] k show ?case
    by (simp add: remove_and_report_def retry_first_try)
qed simp

lemma expire_quotes_total:
  assumes "inv (quotebook st)"
    and "tombstones_regular lib (next_block_index st - 1) (abs (quotebook st))"
  shows "\<exists>r st'. expire_quotes ops st = Some (r, st')"
proof -
  let ?f = "remove_quotes_by_tombstone_block ops (next_block_index st - 1)"
  obtain qs b' where "?f (quotebook st) = (Ok qs, b')"
    using remove_tombstone_reliable [OF assms(1), of "next_block_index st - 1"]
      no_panic(4) [OF assms]
    by (cases "?f (quotebook st)"; cases "fst (?f (quotebook st))") auto
  then show ?thesis
    by (simp add: expire_quotes_def remove_and_report_def retry_first_try)
qed

lemma unat_next_Suc: "unat n < length (blocks l) \<Longrightarrow> unat (n + 1 :: u64) = Suc (unat n)"
  using chain_length [of l] unat_saturating_add [of n 1]
  by (simp add: unat_word_ariths)

lemma load_block_data_block:
  assumes "inv (quotebook st)" and "unat (next_block_index st) < length (blocks l)"
  obtains st1 where "inv (quotebook st1)"
    "removed_where abs
       (\<lambda>x. quote_key_image x \<in> set (bc_key_images (blocks l ! unat (next_block_index st)))) st st1"
    "load_block_data ldg ops l st =
       Some (Ok True, st1\<lparr>next_block_index := next_block_index st + 1\<rparr>)"
proof -
  obtain bc where bc: "get_block_contents ldg (next_block_index st) l = Ok bc"
    using get_block_ok(1) [OF assms(2)] by (auto simp: is_ok_iff)
  have bc': "bc = blocks l ! unat (next_block_index st)"
    using get_block_law(2) [OF bc] by simp
  obtain r1 st1 where rm: "remove_key_images ops (bc_key_images bc) st = Some (r1, st1)"
    using remove_key_images_total [OF assms(1)] by blast
  note l1 = remove_key_images_law [OF assms(1) rm]
  have "load_block_data ldg ops l st =
      Some (Ok True, st1\<lparr>next_block_index := next_block_index st + 1\<rparr>)"
    using bc rm l1 by (simp add: load_block_data_def removed_where_def)
  with that l1 bc' show ?thesis by blast
qed

text \<open>With one unit of fuel per block, and one more to see that there is none left, the loop ends.\<close>

lemma load_loop_exact:
  assumes "inv (quotebook st)" and "unat (next_block_index st) \<le> length (blocks l)"
    and "length (blocks l) - unat (next_block_index st) < fuel"
  shows "\<exists>st'. load_loop ldg ops l fuel st = Some (Ok (), st') \<and> inv (quotebook st') \<and>
    unat (next_block_index st') = length (blocks l) \<and>
    removed_where abs
      (\<lambda>x. quote_key_image x \<in> chain_key_images (drop (unat (next_block_index st)) (blocks l)))
      st (st'\<lparr>next_block_index := next_block_index st\<rparr>)"
  using assms
proof (induction fuel arbitrary: st)
  case (Suc fuel)
  let ?n = "unat (next_block_index st)"
  show ?case
  proof (cases "?n < length (blocks l)")
    case True
    let ?S = "\<lambda>x. quote_key_image x \<in> set (bc_key_images (blocks l ! ?n))"
    obtain st1 where st1: "inv (quotebook st1)" "removed_where abs ?S st st1"
        "load_block_data ldg ops l st =
           Some (Ok True, st1\<lparr>next_block_index := next_block_index st + 1\<rparr>)"
      using load_block_data_block [OF Suc.prems(1) True] .
    let ?st1 = "st1\<lparr>next_block_index := next_block_index st + 1\<rparr>"
    have "length (blocks l) - Suc ?n < fuel"
      using True Suc.prems(3) by linarith
    then obtain st' where ih: "load_loop ldg ops l fuel ?st1 = Some (Ok (), st')" "inv (quotebook st')"
        "unat (next_block_index st') = length (blocks l)"
        "removed_where abs (\<lambda>x. quote_key_image x \<in> chain_key_images (drop (Suc ?n) (blocks l)))
           ?st1 (st'\<lparr>next_block_index := next_block_index st + 1\<rparr>)"
      using Suc.IH [of ?st1] st1(1) True unat_next_Suc [OF True] by auto
    have "removed_where abs (\<lambda>x. quote_key_image x \<in> chain_key_images (drop (Suc ?n) (blocks l)))
        st1 (st'\<lparr>next_block_index := next_block_index st\<rparr>)"
      using ih(4) st1(2) by (simp add: removed_where_def)
    with st1(2) have "removed_where abs
        (\<lambda>x. ?S x \<or> quote_key_image x \<in> chain_key_images (drop (Suc ?n) (blocks l)))
        st (st'\<lparr>next_block_index := next_block_index st\<rparr>)"
      by (rule removed_where_trans)
    moreover have "chain_key_images (drop ?n (blocks l)) =
        set (bc_key_images (blocks l ! ?n)) \<union> chain_key_images (drop (Suc ?n) (blocks l))"
      using True by (simp add: Cons_nth_drop_Suc [symmetric] chain_key_images_def)
    ultimately show ?thesis
      using ih(1-3) st1(3) by simp
  next
    case False
    with Suc.prems(2) have n: "?n = length (blocks l)" by simp
    then have "load_block_data ldg ops l st = Some (Ok False, st)"
      using get_block_ok(2) [of l "next_block_index st"] by (simp add: load_block_data_def)
    with n Suc.prems(1) show ?thesis
      using removed_where_nothing by (simp add: chain_key_images_def)
  qed
qed simp

end

context reliable_sync_on
begin

text \<open>A whole round: everything spent in the new blocks and, if there were any, everything expired at
  the last one is removed and reported, and nothing else.\<close>

lemma run_round_exact:
  assumes inv: "inv (quotebook st)" and le: "unat (next_block_index st) \<le> length (blocks l)"
    and fuel: "length (blocks l) - unat (next_block_index st) < fuel"
    and reg: "tombstones_regular lib (of_nat (length (blocks l)) - 1) (abs (quotebook st))"
  shows "\<exists>st'. run_round ldg ops l fuel st = Some (Ok (), st') \<and> inv (quotebook st') \<and>
    unat (next_block_index st') = length (blocks l) \<and>
    (\<exists>new. callbacks st' = callbacks st @ new \<and> distinct (concat new) \<and>
       set (concat new) = abs (quotebook st) - abs (quotebook st')) \<and>
    abs (quotebook st') =
      {x \<in> abs (quotebook st).
         quote_key_image x \<notin> chain_key_images (drop (unat (next_block_index st)) (blocks l)) \<and>
         (unat (next_block_index st) < length (blocks l) \<longrightarrow>
            \<not> expired_at (of_nat (length (blocks l)) - 1) x)}"
proof -
  let ?S = "\<lambda>x. quote_key_image x \<in> chain_key_images (drop (unat (next_block_index st)) (blocks l))"
  obtain st1 where st1: "load_loop ldg ops l fuel st = Some (Ok (), st1)" "inv (quotebook st1)"
      "unat (next_block_index st1) = length (blocks l)"
      "removed_where abs ?S st (st1\<lparr>next_block_index := next_block_index st\<rparr>)"
    using load_loop_exact [OF inv le fuel] by blast
  have next1: "next_block_index st1 = of_nat (length (blocks l))"
    by (simp flip: st1(3))
  show ?thesis
  proof (cases "next_block_index st1 = next_block_index st")
    case True
    then have "run_round ldg ops l fuel st = Some (Ok (), st1)"
      using st1(1) by (simp add: run_round_def)
    with st1 True show ?thesis
      by (auto simp: removed_where_def)
  next
    case False
    let ?E = "expired_at (of_nat (length (blocks l)) - 1)"
    have "abs (quotebook st1) \<subseteq> abs (quotebook st)"
      using st1(4) by (auto simp: removed_where_def)
    then have reg1: "tombstones_regular lib (next_block_index st1 - 1) (abs (quotebook st1))"
      using reg next1 by (auto simp: tombstones_regular_def)
    obtain r st2 where e: "expire_quotes ops st1 = Some (r, st2)"
      using expire_quotes_total [OF st1(2) reg1] by blast
    obtain st3 where st3: "r = Ok ()" "inv (quotebook st2)" "removed_where abs ?E st1 st3"
        "st2 = st3\<lparr>highest_processed_block_index := next_block_index st1 - 1\<rparr>"
      using expire_quotes_law [OF st1(2) reg1 e] unfolding next1 by blast
    have "run_round ldg ops l fuel st = Some (Ok (), st2)"
      using st1(1) False e st3(1) by (simp add: run_round_def)
    moreover have "removed_where abs ?E (st1\<lparr>next_block_index := next_block_index st\<rparr>)
        (st3\<lparr>next_block_index := next_block_index st\<rparr>)"
      using st3(3) by (simp add: removed_where_def)
    with st1(4) have "removed_where abs (\<lambda>x. ?S x \<or> ?E x) st
        (st3\<lparr>next_block_index := next_block_index st\<rparr>)"
      by (rule removed_where_trans)
    moreover have "unat (next_block_index st) < length (blocks l)"
      using False le st1(3) by (metis le_neq_implies_less unsigned_word_eqI)
    ultimately show ?thesis
      using st3 st1(3) by (auto simp: removed_where_def)
  qed
qed

end

end
