(* ===== verification/Synchronized_System.thy ===== *)
theory Synchronized_System
  imports Synchronized_Book In_Memory
begin

text \<open>
  The synchronized book at work: its background thread, clients that call its methods, the ledger
  that grows, and the request to stop, interleaved. The state machine of the thread follows \<open>run\<close>
  in \<open>quote-book/synchronized/src/lib.rs\<close>; a step of it reads one block, makes one call of the inner
  book (a failed one is repeated), calls the callback, or stores an index. The function \<open>run_round\<close> of
  \<open>Synchronized_Book\<close> is a path of these steps.

  With \<open>add_quote\<close> as one step the book never holds a quote that a processed block has spent or
  expired. The real method first checks the ledger and then calls the inner book; the relation
  \<open>split_step\<close> has these as two steps, and a spent quote can then stay in the book.
\<close>

section \<open>The state machine\<close>

text \<open>
  Where the thread is: at the stop flag; before a block; in a block with some key images left; before
  the callback for removed quotes, and where it continues; at the expiry; before it stores the index.
\<close>

datatype fetcher_pc = Polling | Loading u64 | Removing u64 "key_image list"
  | Reporting "quote list" fetcher_pc | Expiring | Storing | Stopped

record ('b, 'l) sync_system =
  sys_fetcher :: "'b db_fetcher"
  sys_ledger :: 'l
  sys_pc :: fetcher_pc
  sys_stop :: bool

definition sys_book :: "('b, 'l) sync_system \<Rightarrow> 'b" where
  "sys_book s = quotebook (sys_fetcher s)"

definition sys_set_book :: "'b \<Rightarrow> ('b, 'l) sync_system \<Rightarrow> ('b, 'l) sync_system" where
  "sys_set_book b s = s\<lparr>sys_fetcher := (sys_fetcher s)\<lparr>quotebook := b\<rparr>\<rparr>"

text \<open>The book a client holds shares the inner book and the ledger with the thread.\<close>

definition sys_view :: "('b, 'l) sync_system \<Rightarrow> ('b, 'l) sync_book" where
  "sys_view s =
     \<lparr>sb_quote_book = sys_book s, sb_ledger = sys_ledger s,
      sb_highest_processed_block_index = highest_processed_block_index (sys_fetcher s)\<rparr>"

definition sync_start :: "'b \<Rightarrow> 'l \<Rightarrow> ('b, 'l) sync_system" where
  "sync_start b l =
     \<lparr>sys_fetcher = fetcher_start b 0, sys_ledger = l, sys_pc = Polling, sys_stop = False\<rparr>"

text \<open>Where the thread continues after a call of \<open>load_block_data\<close>.\<close>

definition after_load :: "u64 \<Rightarrow> bool \<Rightarrow> bool \<Rightarrow> u64 \<Rightarrow> fetcher_pc" where
  "after_load start may_have_more_work stop next =
     (if may_have_more_work \<and> \<not> stop then Loading start
      else if next \<noteq> start then Expiring else Polling)"

text \<open>The steps of the thread and what it sees: the ledger that grows and the request to stop.\<close>

inductive fetcher_step ::
  "mc_lib \<Rightarrow> 'l ledger_ops \<Rightarrow> ('l \<Rightarrow> chain) \<Rightarrow> 'b quote_book_ops \<Rightarrow> ('b \<Rightarrow> quote set) \<Rightarrow>
     ('b, 'l) sync_system \<Rightarrow> ('b, 'l) sync_system \<Rightarrow> bool"
  for lib and ldg :: "'l ledger_ops" and blocks :: "'l \<Rightarrow> chain"
    and ops :: "'b quote_book_ops" and absf :: "'b \<Rightarrow> quote set" where
  ledger_grows: "blocks l = blocks (sys_ledger s) @ bs
    \<Longrightarrow> fetcher_step lib ldg blocks ops absf s (s\<lparr>sys_ledger := l\<rparr>)"
| request_stop: "fetcher_step lib ldg blocks ops absf s (s\<lparr>sys_stop := True\<rparr>)"
| poll_stop: "\<lbrakk>sys_pc s = Polling; sys_stop s\<rbrakk>
    \<Longrightarrow> fetcher_step lib ldg blocks ops absf s (s\<lparr>sys_pc := Stopped\<rparr>)"
| poll_go: "\<lbrakk>sys_pc s = Polling; \<not> sys_stop s\<rbrakk>
    \<Longrightarrow> fetcher_step lib ldg blocks ops absf s
          (s\<lparr>sys_pc := Loading (next_block_index (sys_fetcher s))\<rparr>)"
| load_none: "\<lbrakk>sys_pc s = Loading start;
      get_block_contents ldg (next_block_index (sys_fetcher s)) (sys_ledger s) = Err LedgerNotFound\<rbrakk>
    \<Longrightarrow> fetcher_step lib ldg blocks ops absf s
          (s\<lparr>sys_pc := after_load start False (sys_stop s) (next_block_index (sys_fetcher s))\<rparr>)"
| load_failed: "\<lbrakk>sys_pc s = Loading start;
      get_block_contents ldg (next_block_index (sys_fetcher s)) (sys_ledger s) = Err (LedgerOther e)\<rbrakk>
    \<Longrightarrow> fetcher_step lib ldg blocks ops absf s
          (s\<lparr>sys_pc := after_load start True (sys_stop s) (next_block_index (sys_fetcher s))\<rparr>)"
| load_block: "\<lbrakk>sys_pc s = Loading start;
      get_block_contents ldg (next_block_index (sys_fetcher s)) (sys_ledger s) = Ok block_contents\<rbrakk>
    \<Longrightarrow> fetcher_step lib ldg blocks ops absf s
          (s\<lparr>sys_pc := Removing start (bc_key_images block_contents)\<rparr>)"
| remove: "\<lbrakk>sys_pc s = Removing start (k # ks);
      remove_quotes_by_key_image ops k (sys_book s) = (Ok qs, b)\<rbrakk>
    \<Longrightarrow> fetcher_step lib ldg blocks ops absf s
          ((sys_set_book b s)\<lparr>sys_pc := Reporting qs (Removing start ks)\<rparr>)"
| remove_fails: "\<lbrakk>sys_pc s = Removing start (k # ks);
      remove_quotes_by_key_image ops k (sys_book s) = (Err err, b)\<rbrakk>
    \<Longrightarrow> fetcher_step lib ldg blocks ops absf s (sys_set_book b s)"
| report: "sys_pc s = Reporting qs pc
    \<Longrightarrow> fetcher_step lib ldg blocks ops absf s
          (s\<lparr>sys_fetcher := (sys_fetcher s)\<lparr>callbacks := callbacks (sys_fetcher s) @ [qs]\<rparr>, sys_pc := pc\<rparr>)"
| block_done: "sys_pc s = Removing start []
    \<Longrightarrow> fetcher_step lib ldg blocks ops absf s
          (s\<lparr>sys_fetcher := (sys_fetcher s)\<lparr>next_block_index := next_block_index (sys_fetcher s) + 1\<rparr>,
             sys_pc := after_load start True (sys_stop s) (next_block_index (sys_fetcher s) + 1)\<rparr>)"
| expire: "\<lbrakk>sys_pc s = Expiring;
      tombstones_regular lib (next_block_index (sys_fetcher s) - 1) (absf (sys_book s));
      remove_quotes_by_tombstone_block ops (next_block_index (sys_fetcher s) - 1) (sys_book s) = (Ok qs, b)\<rbrakk>
    \<Longrightarrow> fetcher_step lib ldg blocks ops absf s
          ((sys_set_book b s)\<lparr>sys_pc := Reporting qs Storing\<rparr>)"
| expire_fails: "\<lbrakk>sys_pc s = Expiring;
      tombstones_regular lib (next_block_index (sys_fetcher s) - 1) (absf (sys_book s));
      remove_quotes_by_tombstone_block ops (next_block_index (sys_fetcher s) - 1) (sys_book s) = (Err err, b)\<rbrakk>
    \<Longrightarrow> fetcher_step lib ldg blocks ops absf s (sys_set_book b s)"
| store: "sys_pc s = Storing
    \<Longrightarrow> fetcher_step lib ldg blocks ops absf s
          (s\<lparr>sys_fetcher := (sys_fetcher s)\<lparr>highest_processed_block_index := next_block_index (sys_fetcher s) - 1\<rparr>,
             sys_pc := Polling\<rparr>)"

inductive sync_step ::
  "mc_lib \<Rightarrow> 'l ledger_ops \<Rightarrow> ('l \<Rightarrow> chain) \<Rightarrow> 'b quote_book_ops \<Rightarrow> ('b \<Rightarrow> quote set) \<Rightarrow>
     ('b, 'l) sync_system \<Rightarrow> ('b, 'l) sync_system \<Rightarrow> bool"
  for lib and ldg :: "'l ledger_ops" and blocks :: "'l \<Rightarrow> chain"
    and ops :: "'b quote_book_ops" and absf :: "'b \<Rightarrow> quote set" where
  client_add: "\<lbrakk>admissible q (absf (sys_book s)); sync_add_quote ldg ops q (sys_view s) = (r, v)\<rbrakk>
    \<Longrightarrow> sync_step lib ldg blocks ops absf s (sys_set_book (sb_quote_book v) s)"
| client_remove: "remove_quote_by_id ops i (sys_book s) = (r, b)
    \<Longrightarrow> sync_step lib ldg blocks ops absf s (sys_set_book b s)"
| background: "fetcher_step lib ldg blocks ops absf s s' \<Longrightarrow> sync_step lib ldg blocks ops absf s s'"

abbreviation sync_reachable ::
  "mc_lib \<Rightarrow> 'l ledger_ops \<Rightarrow> ('l \<Rightarrow> chain) \<Rightarrow> 'b quote_book_ops \<Rightarrow> ('b \<Rightarrow> quote set) \<Rightarrow>
     ('b, 'l) sync_system \<Rightarrow> ('b, 'l) sync_system \<Rightarrow> bool" where
  "sync_reachable lib ldg blocks ops absf \<equiv> (sync_step lib ldg blocks ops absf)\<^sup>*\<^sup>*"

text \<open>The real interleaving: a client checks a quote, other steps may happen, then it adds it.\<close>

inductive split_step ::
  "mc_lib \<Rightarrow> 'l ledger_ops \<Rightarrow> ('l \<Rightarrow> chain) \<Rightarrow> 'b quote_book_ops \<Rightarrow> ('b \<Rightarrow> quote set) \<Rightarrow>
     quote list \<times> ('b, 'l) sync_system \<Rightarrow> quote list \<times> ('b, 'l) sync_system \<Rightarrow> bool"
  for lib and ldg :: "'l ledger_ops" and blocks :: "'l \<Rightarrow> chain"
    and ops :: "'b quote_book_ops" and absf :: "'b \<Rightarrow> quote set" where
  other: "sync_step lib ldg blocks ops absf s s'
    \<Longrightarrow> split_step lib ldg blocks ops absf (qs, s) (qs, s')"
| check: "sync_check ldg (sys_ledger s) q = Ok ()
    \<Longrightarrow> split_step lib ldg blocks ops absf (qs, s) (q # qs, s)"
| insert_checked: "\<lbrakk>admissible q (absf (sys_book s)); add_quote ops q (sys_book s) = (r, b)\<rbrakk>
    \<Longrightarrow> split_step lib ldg blocks ops absf (q # qs, s) (qs, sys_set_book b s)"

section \<open>The invariant\<close>

text \<open>
  What the thread relies on between its steps: it only expires after it has loaded a block; of the
  quotes that the current block spends only those of the remaining key images are left; and before
  it stores the index nothing in the book has expired there.
\<close>

primrec pc_clean :: "chain \<Rightarrow> 'b db_fetcher \<Rightarrow> quote set \<Rightarrow> fetcher_pc \<Rightarrow> bool" where
  "pc_clean bs f B Polling \<longleftrightarrow> True"
| "pc_clean bs f B Stopped \<longleftrightarrow> True"
| "pc_clean bs f B (Loading start) \<longleftrightarrow> start \<le> next_block_index f"
| "pc_clean bs f B (Removing start ks) \<longleftrightarrow>
     start \<le> next_block_index f \<and> unat (next_block_index f) < length bs \<and>
     (\<forall>x\<in>B. quote_key_image x \<in> set (bc_key_images (bs ! unat (next_block_index f))) \<longrightarrow>
        quote_key_image x \<in> set ks)"
| "pc_clean bs f B (Reporting qs pc) \<longleftrightarrow> pc_clean bs f B pc"
| "pc_clean bs f B Expiring \<longleftrightarrow> next_block_index f \<noteq> 0"
| "pc_clean bs f B Storing \<longleftrightarrow>
     next_block_index f \<noteq> 0 \<and> (\<forall>x\<in>B. \<not> expired_at (next_block_index f - 1) x)"

definition clean_book ::
  "chain \<Rightarrow> 'b db_fetcher \<Rightarrow> fetcher_pc \<Rightarrow> quote set \<Rightarrow> bool" where
  "clean_book bs f pc B \<longleftrightarrow>
     unat (next_block_index f) \<le> length bs \<and>
     unat (highest_processed_block_index f) \<le> unat (next_block_index f) - 1 \<and>
     (\<forall>x\<in>B. quote_key_image x \<notin> chain_key_images (take (unat (next_block_index f)) bs) \<and>
        \<not> expired_at (highest_processed_block_index f) x) \<and>
     pc_clean bs f B pc"

abbreviation clean_system :: "('l \<Rightarrow> chain) \<Rightarrow> ('b \<Rightarrow> quote set) \<Rightarrow> ('b, 'l) sync_system \<Rightarrow> bool" where
  "clean_system blocks absf s \<equiv>
     clean_book (blocks (sys_ledger s)) (sys_fetcher s) (sys_pc s) (absf (sys_book s))"

text \<open>What the thread has removed and not yet reported.\<close>

primrec unreported :: "fetcher_pc \<Rightarrow> quote set" where
  "unreported Polling = {}"
| "unreported Stopped = {}"
| "unreported (Loading start) = {}"
| "unreported (Removing start ks) = {}"
| "unreported (Reporting qs pc) = set qs \<union> unreported pc"
| "unreported Expiring = {}"
| "unreported Storing = {}"

lemma pc_clean_subset: "pc_clean bs f B pc \<Longrightarrow> B' \<subseteq> B \<Longrightarrow> pc_clean bs f B' pc"
  by (induction pc) auto

lemma clean_book_subset: "clean_book bs f pc B \<Longrightarrow> B' \<subseteq> B \<Longrightarrow> clean_book bs f pc B'"
  using pc_clean_subset by (auto simp: clean_book_def)

lemma pc_clean_grows: "pc_clean bs f B pc \<Longrightarrow> pc_clean (bs @ bs') f B pc"
  by (induction pc) (auto simp: nth_append)

lemma clean_book_cong:
  assumes "next_block_index f' = next_block_index f"
    and "highest_processed_block_index f' = highest_processed_block_index f"
  shows "clean_book bs f' pc B = clean_book bs f pc B"
proof -
  have "pc_clean bs f' B pc = pc_clean bs f B pc" by (induction pc) (simp_all add: assms)
  then show ?thesis by (simp add: clean_book_def assms)
qed

lemma after_load_clean:
  "start \<le> next_block_index f \<Longrightarrow> pc_clean bs f B (after_load start work stop (next_block_index f))"
  by (auto simp: after_load_def)

lemma after_load_unreported [simp]: "unreported (after_load start work stop n) = {}"
  by (simp add: after_load_def)

lemma sys_book_simps [simp]:
  "sys_book (sys_set_book b s) = b"
  "sys_ledger (sys_set_book b s) = sys_ledger s"
  "sys_pc (sys_set_book b s) = sys_pc s"
  "sys_stop (sys_set_book b s) = sys_stop s"
  "sys_book (s\<lparr>sys_pc := pc\<rparr>) = sys_book s"
  "callbacks (sys_fetcher (sys_set_book b s)) = callbacks (sys_fetcher s)"
  "next_block_index (sys_fetcher (sys_set_book b s)) = next_block_index (sys_fetcher s)"
  "highest_processed_block_index (sys_fetcher (sys_set_book b s)) =
     highest_processed_block_index (sys_fetcher s)"
  "sb_quote_book (sys_view s) = sys_book s"
  "sb_ledger (sys_view s) = sys_ledger s"
  by (simp_all add: sys_set_book_def sys_book_def sys_view_def)

lemma sys_set_book_clean:
  "clean_book bs (sys_fetcher (sys_set_book b s)) pc B = clean_book bs (sys_fetcher s) pc B"
  by (rule clean_book_cong) simp_all

lemma sys_set_book_pc_clean:
  "pc_clean bs (sys_fetcher (sys_set_book b s)) B pc = pc_clean bs (sys_fetcher s) B pc"
  by (induction pc) simp_all

lemma expired_at_mono: "expired_at n q \<Longrightarrow> n \<le> m \<Longrightarrow> expired_at m q"
  by (auto simp: expired_at_def)

context sync_on
begin

text \<open>A quote that passes the checks fits into a clean book.\<close>

lemma checked_quote_unexpired:
  assumes "sync_check ldg l q = Ok ()" and "unat m < length (blocks l)"
  shows "\<not> expired_at m q"
proof -
  obtain n where n: "unat n = length (blocks l)" "\<not> expired_at (n - 1) q"
    using sync_check_Ok [OF assms(1)] by metis
  then have "unat (n - 1) = unat n - 1"
    using assms(2) by (intro unat_minus_one) auto
  then have "m \<le> n - 1"
    using n(1) assms(2) by (simp add: word_le_nat_alt)
  then show ?thesis
    using n(2) expired_at_mono by blast
qed

lemma checked_quote_pc_clean:
  assumes chk: "sync_check ldg l q = Ok ()" and le: "unat (next_block_index f) \<le> length (blocks l)"
    and "pc_clean (blocks l) f B pc"
  shows "pc_clean (blocks l) f (insert q B) pc"
  using assms(3)
proof (induction pc)
  case (Removing start ks)
  have "quote_key_image q \<notin> chain_key_images (blocks l)"
    using sync_check_Ok [OF chk] by metis
  with Removing show ?case
    by (auto simp: chain_key_images_def)
next
  case Storing
  then have "unat (next_block_index f - 1) < length (blocks l)"
    using le unat_gt_0 [of "next_block_index f"] by (simp add: unat_minus_one)
  with Storing checked_quote_unexpired [OF chk] show ?case by auto
qed auto

lemma checked_quote_clean:
  assumes "sync_check ldg l q = Ok ()" and "clean_book (blocks l) f pc B"
  shows "clean_book (blocks l) f pc (insert q B)"
proof -
  have "\<not> expired_at (highest_processed_block_index f) q"
  proof (cases "next_block_index f = 0")
    case True
    then have "highest_processed_block_index f = 0"
      using assms(2) by (simp add: clean_book_def unat_eq_zero)
    then show ?thesis by (simp add: expired_at_def)
  next
    case False
    then have "0 < unat (next_block_index f)" by (simp add: unat_gt_0)
    then show ?thesis
      using assms(2) by (intro checked_quote_unexpired [OF assms(1)]) (auto simp: clean_book_def)
  qed
  moreover have "quote_key_image q \<notin> chain_key_images (take (unat (next_block_index f)) (blocks l))"
    using sync_check_Ok [OF assms(1)] chain_key_images_take_subset by blast
  ultimately show ?thesis
    using assms(2) checked_quote_pc_clean [OF assms(1), of f B pc] by (simp add: clean_book_def)
qed

text \<open>A step of the thread only removes quotes, and reports what it removes.\<close>

lemma fetcher_step_book:
  assumes "fetcher_step lib ldg blocks ops abs s s'" and "inv (sys_book s)"
  shows "inv (sys_book s') \<and> abs (sys_book s') \<subseteq> abs (sys_book s) \<and>
    (\<exists>new. callbacks (sys_fetcher s') = callbacks (sys_fetcher s) @ new \<and>
       set (concat new) \<union> unreported (sys_pc s') =
         unreported (sys_pc s) \<union> (abs (sys_book s) - abs (sys_book s')))"
  using assms
proof (induction rule: fetcher_step.induct)
  case (remove s start k ks qs b)
  with remove_key_image_law [OF remove(3,2)] show ?case
    by (auto simp: remove_where_spec_def)
next
  case (remove_fails s start k ks err b)
  with remove_key_image_law [OF remove_fails(3,2)] show ?case
    by (auto simp: remove_where_spec_def)
next
  case (expire s qs b)
  with remove_tombstone_law [OF expire(4,2,3)] show ?case
    by (auto simp: remove_where_spec_def)
next
  case (expire_fails s err b)
  with remove_tombstone_law [OF expire_fails(4,2,3)] show ?case
    by (auto simp: remove_where_spec_def)
qed (auto simp: sys_book_def)

lemma unat_next_index:
  "unat n < length (blocks l) \<Longrightarrow> unat (n + 1 :: u64) = Suc (unat n)"
  using chain_length [of l] by (simp add: unat_word_ariths)

lemma block_done_clean:
  assumes "clean_book (blocks l) f (Removing start []) B"
  shows "clean_book (blocks l) (f\<lparr>next_block_index := next_block_index f + 1\<rparr>)
    (after_load start True stop (next_block_index f + 1)) B"
proof -
  let ?n = "unat (next_block_index f)"
  have n: "?n < length (blocks l)" using assms by (simp add: clean_book_def)
  note suc = unat_next_index [OF n]
  have "start \<le> next_block_index f + 1"
    using assms suc by (simp add: clean_book_def word_le_nat_alt)
  moreover have "chain_key_images (take (Suc ?n) (blocks l)) =
      chain_key_images (take ?n (blocks l)) \<union> set (bc_key_images (blocks l ! ?n))"
    using n by (rule chain_key_images_take_Suc)
  ultimately show ?thesis
    using assms n suc
      after_load_clean [of start "f\<lparr>next_block_index := next_block_index f + 1\<rparr>"]
    by (auto simp: clean_book_def)
qed

lemma fetcher_step_clean:
  assumes "fetcher_step lib ldg blocks ops abs s s'" and "inv (sys_book s)" and "clean_system blocks abs s"
  shows "clean_system blocks abs s'"
  using assms
proof (induction rule: fetcher_step.induct)
  case (ledger_grows l s bs)
  then show ?case
    using pc_clean_grows by (auto simp: clean_book_def sys_book_def)
next
  case (load_none s start)
  then show ?case using after_load_clean by (auto simp: clean_book_def sys_book_def)
next
  case (load_failed s start e)
  then show ?case using after_load_clean by (auto simp: clean_book_def sys_book_def)
next
  case (load_block s start bc)
  then show ?case
    using get_block_law(2) [OF load_block(2)] by (auto simp: clean_book_def sys_book_def)
next
  case (remove s start k ks qs b)
  have "abs b = {x \<in> abs (sys_book s). quote_key_image x \<noteq> k}"
    using remove_key_image_law [OF remove(3,2)] by (simp add: remove_where_spec_def)
  with remove show ?case
    by (auto simp: clean_book_def sys_set_book_pc_clean)
next
  case (remove_fails s start k ks err b)
  have "abs b = abs (sys_book s)"
    using remove_key_image_law [OF remove_fails(3,2)] by (simp add: remove_where_spec_def)
  with remove_fails show ?case
    by (simp add: sys_set_book_clean)
next
  case (report s qs pc)
  then have "clean_book (blocks (sys_ledger s)) (sys_fetcher s) pc (abs (sys_book s))"
    by (simp add: clean_book_def)
  then show ?case
    by (subst clean_book_cong [where f = "sys_fetcher s"]) (simp_all add: sys_book_def)
next
  case (block_done s start)
  then show ?case
    using block_done_clean [of "sys_ledger s" "sys_fetcher s" start] by (simp add: sys_book_def)
next
  case (expire s qs b)
  have "abs b = {x \<in> abs (sys_book s). \<not> expired_at (next_block_index (sys_fetcher s) - 1) x}"
    using remove_tombstone_law [OF expire(4,2,3)] by (simp add: remove_where_spec_def)
  with expire show ?case
    by (auto simp: clean_book_def sys_set_book_pc_clean)
next
  case (expire_fails s err b)
  have "abs b = abs (sys_book s)"
    using remove_tombstone_law [OF expire_fails(4,2,3)] by (simp add: remove_where_spec_def)
  with expire_fails show ?case
    by (simp add: sys_set_book_clean)
next
  case (store s)
  then show ?case
    using unat_minus_one [of "next_block_index (sys_fetcher s)"]
    by (auto simp: clean_book_def sys_book_def)
qed (auto simp: clean_book_def sys_book_def)

end

context sync_on
begin

lemma sync_step_inv:
  assumes "sync_step lib ldg blocks ops abs s s'"
    and "inv (sys_book s)" and "clean_system blocks abs s"
  shows "inv (sys_book s') \<and> clean_system blocks abs s'"
  using assms
proof (induction rule: sync_step.induct)
  case (client_add q s r v)
  have law: "inv (sb_quote_book v) \<and> add_spec q (abs (sys_book s)) r (abs (sb_quote_book v))"
    using sync_add_law [of "sys_view s" q r v] client_add by simp
  have chk: "sync_check ldg (sys_ledger s) q = Ok ()" if "r = Ok u" for u
    using client_add(2) that
    by (cases "sync_check ldg (sys_ledger s) q") (auto simp: sync_add_quote_def)
  have "abs (sb_quote_book v) = abs (sys_book s) \<or>
      abs (sb_quote_book v) = insert q (abs (sys_book s)) \<and> sync_check ldg (sys_ledger s) q = Ok ()"
    using law chk by (cases r) (auto simp: add_spec_def)
  then have "clean_book (blocks (sys_ledger s)) (sys_fetcher s) (sys_pc s) (abs (sb_quote_book v))"
    using client_add(4) checked_quote_clean by metis
  with law show ?case by (simp add: sys_set_book_clean)
next
  case (client_remove i s r b)
  have "inv b" and "abs b \<subseteq> abs (sys_book s)"
    using remove_id_law [OF client_remove(2,1)] by (auto simp: remove_id_spec_def split: result.splits)
  with client_remove show ?case
    using clean_book_subset by (auto simp: sys_set_book_clean)
next
  case (background s s')
  then show ?case using fetcher_step_book fetcher_step_clean by blast
qed

lemma sync_start_inv:
  assumes "inv b"
  shows "inv (sys_book (sync_start b l)) \<and> clean_system blocks abs (sync_start b l)"
  using assms
  by (simp add: sync_start_def sys_book_def fetcher_start_def clean_book_def expired_at_def
      chain_key_images_def)

lemma sync_reachable_inv:
  assumes "sync_reachable lib ldg blocks ops abs (sync_start b l) s" and "inv b"
  shows "inv (sys_book s) \<and> clean_system blocks abs s"
  using assms(1)
  by (induction rule: rtranclp_induct) (use sync_start_inv [OF assms(2)] sync_step_inv in blast)+

end

context sync_on
begin

lemma sync_quote_book:
  "quote_book lib (sync_ops ldg ops) (\<lambda>st. abs (sb_quote_book st)) (\<lambda>st. inv (sb_quote_book st))"
  by (rule sy.quote_book_axioms)

end

context sync_on
begin

text \<open>
  Between two steps of the thread, calls of the synchronized book keep it clean: the book satisfies
  the contract also with cleanness as a part of its invariant.
\<close>

lemma clean_quote_book:
  "quote_book lib (sync_ops ldg ops) (\<lambda>st. abs (sb_quote_book st))
     (\<lambda>st. inv (sb_quote_book st) \<and> sb_ledger st = l \<and> clean_book (blocks l) f pc (abs (sb_quote_book st)))"
proof (unfold_locales, goal_cases)
  case (2 s q r s')
  have law: "inv (sb_quote_book s') \<and> add_spec q (abs (sb_quote_book s)) r (abs (sb_quote_book s'))"
    using sync_add_law [of s q r s'] 2 by simp
  have s': "sb_ledger s' = l"
    using 2 by (cases "sync_check ldg (sb_ledger s) q")
      (auto simp: sync_add_quote_def on_inner_def split: prod.splits)
  have chk: "sync_check ldg l q = Ok ()" if "r = Ok u" for u
    using 2 that by (cases "sync_check ldg (sb_ledger s) q") (auto simp: sync_add_quote_def)
  have "abs (sb_quote_book s') = abs (sb_quote_book s) \<or>
      abs (sb_quote_book s') = insert q (abs (sb_quote_book s)) \<and> sync_check ldg l q = Ok ()"
    using law chk by (cases r) (auto simp: add_spec_def)
  then have "clean_book (blocks l) f pc (abs (sb_quote_book s'))"
    using 2(1) checked_quote_clean by metis
  with law s' show ?case by simp
next
  case (3 s i r1 s')
  then have "inv (sb_quote_book s') \<and> remove_id_spec i (abs (sb_quote_book s)) r1 (abs (sb_quote_book s'))"
    using sy.remove_id_law [of s i r1 s'] by simp
  moreover from this have "abs (sb_quote_book s') \<subseteq> abs (sb_quote_book s)"
    by (auto simp: remove_id_spec_def split: result.splits)
  ultimately show ?case
    using 3 clean_book_subset by (auto simp: on_inner_def split: prod.splits)
next
  case (4 s k r2 s')
  then have "inv (sb_quote_book s') \<and>
      remove_where_spec (\<lambda>x. quote_key_image x = k) (abs (sb_quote_book s)) r2 (abs (sb_quote_book s'))"
    using sy.remove_key_image_law [of s k r2 s'] by simp
  moreover from this have "abs (sb_quote_book s') \<subseteq> abs (sb_quote_book s)"
    by (auto simp: remove_where_spec_def split: result.splits)
  ultimately show ?case
    using 4 clean_book_subset by (auto simp: on_inner_def split: prod.splits)
next
  case (5 s n r2 s')
  then have "inv (sb_quote_book s') \<and>
      remove_where_spec (expired_at n) (abs (sb_quote_book s)) r2 (abs (sb_quote_book s'))"
    using sy.remove_tombstone_law [of s n r2 s'] by simp
  moreover from this have "abs (sb_quote_book s') \<subseteq> abs (sb_quote_book s)"
    by (auto simp: remove_where_spec_def split: result.splits)
  ultimately show ?case
    using 5 clean_book_subset by (auto simp: on_inner_def split: prod.splits)
qed (auto simp: inv_book get_quotes_law get_quote_ids_law get_quote_by_id_law num_scis_law)

end

section \<open>A round is a path of steps\<close>

text \<open>The retry loop makes failing calls until one succeeds.\<close>

lemma retry_path:
  assumes "retry f b = Some (Ok qs, b')"
  shows "\<exists>b1. (\<lambda>x y. \<exists>e. f x = (Err e, y))\<^sup>*\<^sup>* b b1 \<and> f b1 = (Ok qs, b')"
proof -
  let ?P = "\<lambda>f b (y :: (quote list, error) result \<times> 'a). \<forall>qs b'. y = (Ok qs, b') \<longrightarrow>
    (\<exists>b1. (\<lambda>x y. \<exists>e. f x = (Err e, y))\<^sup>*\<^sup>* b b1 \<and> f b1 = (Ok qs, b'))"
  have "?P f b (Ok qs, b')"
  proof (rule retry.raw_induct [where P = ?P, OF _ assms])
    fix retry' f b y
    assume ih: "\<And>g b y. retry' g b = Some y \<Longrightarrow> ?P g b y"
      and body: "(case f b of
           (Ok qs, b') \<Rightarrow> Some (Ok qs, b')
         | (Err e, b') \<Rightarrow> retry' f b'
         | (Panic, b') \<Rightarrow> Some (Panic, b')) = Some y"
    obtain r b1 where f: "f b = (r, b1)" by fastforce
    show "?P f b y"
    proof (cases r)
      case (Err e)
      then have P: "?P f b1 y" using ih body f by simp
      show ?thesis
      proof (intro allI impI)
        fix qs b' assume "y = (Ok qs, b')"
        then obtain b2 where "(\<lambda>x y. \<exists>e. f x = (Err e, y))\<^sup>*\<^sup>* b1 b2" "f b2 = (Ok qs, b')"
          using P by blast
        with f Err show "\<exists>b1. (\<lambda>x y. \<exists>e. f x = (Err e, y))\<^sup>*\<^sup>* b b1 \<and> f b1 = (Ok qs, b')"
          by (intro exI [of _ b2] conjI converse_rtranclp_into_rtranclp [of _ b b1]) auto
      qed
    qed (use body f in \<open>auto intro: exI [of _ b]\<close>)
  qed
  then show ?thesis by blast
qed

lemma remove_and_report_path:
  assumes "remove_and_report f st = Some (Ok (), st')"
  obtains b1 qs b' where "(\<lambda>x y. \<exists>e. f x = (Err e, y))\<^sup>*\<^sup>* (quotebook st) b1" "f b1 = (Ok qs, b')"
    "st' = st\<lparr>quotebook := b', callbacks := callbacks st @ [qs]\<rparr>"
  using assms retry_path [of f "quotebook st"]
  by (auto simp: remove_and_report_def split: option.splits result.splits prod.splits)

lemma remove_retry_steps:
  assumes "(\<lambda>x y. \<exists>e. remove_quotes_by_key_image ops k x = (Err e, y))\<^sup>*\<^sup>* (sys_book s) b"
    and "sys_pc s = Removing start (k # ks)"
  shows "(fetcher_step lib ldg blocks ops absf)\<^sup>*\<^sup>* s (sys_set_book b s)"
  using assms(1)
proof (induction rule: rtranclp_induct)
  case base
  then show ?case by (simp add: sys_set_book_def sys_book_def)
next
  case (step y z)
  then obtain e where "remove_quotes_by_key_image ops k (sys_book (sys_set_book y s)) = (Err e, z)" by auto
  from fetcher_step.remove_fails [of "sys_set_book y s", OF _ this] assms(2)
  have "fetcher_step lib ldg blocks ops absf (sys_set_book y s) (sys_set_book z s)"
    by (simp add: sys_set_book_def)
  with step.IH show ?case by (rule rtranclp.rtrancl_into_rtrancl)
qed

lemma remove_key_images_steps:
  assumes "remove_key_images ops ks (sys_fetcher s) = Some (Ok (), f)" and "sys_pc s = Removing start ks"
  shows "(fetcher_step lib ldg blocks ops absf)\<^sup>*\<^sup>* s (s\<lparr>sys_fetcher := f, sys_pc := Removing start []\<rparr>)"
  using assms
proof (induction ks arbitrary: s)
  case (Cons k ks)
  let ?step = "fetcher_step lib ldg blocks ops absf"
  obtain f1 where f1: "remove_and_report (remove_quotes_by_key_image ops k) (sys_fetcher s) = Some (Ok (), f1)"
      "remove_key_images ops ks f1 = Some (Ok (), f)"
    using Cons.prems(1) by (auto split: option.splits result.splits prod.splits)
  obtain b1 qs b' where b: "(\<lambda>x y. \<exists>e. remove_quotes_by_key_image ops k x = (Err e, y))\<^sup>*\<^sup>* (sys_book s) b1"
      "remove_quotes_by_key_image ops k b1 = (Ok qs, b')"
      "f1 = (sys_fetcher s)\<lparr>quotebook := b', callbacks := callbacks (sys_fetcher s) @ [qs]\<rparr>"
    using remove_and_report_path [OF f1(1)] by (auto simp: sys_book_def)
  let ?s1 = "sys_set_book b1 s" and ?s2 = "(sys_set_book b' s)\<lparr>sys_pc := Reporting qs (Removing start ks)\<rparr>"
  let ?s3 = "s\<lparr>sys_fetcher := f1, sys_pc := Removing start ks\<rparr>"
  have "?step\<^sup>*\<^sup>* s ?s1" by (rule remove_retry_steps [OF b(1) Cons.prems(2)])
  moreover have "?step ?s1 ?s2"
    using fetcher_step.remove [of ?s1 start k ks ops qs b'] b(2) Cons.prems(2)
    by (simp add: sys_set_book_def sys_book_def)
  moreover have "?step ?s2 ?s3"
    using fetcher_step.report [of ?s2 qs "Removing start ks"] b(3) by (simp add: sys_set_book_def)
  moreover have "?step\<^sup>*\<^sup>* ?s3 (s\<lparr>sys_fetcher := f, sys_pc := Removing start []\<rparr>)"
    using Cons.IH [of ?s3] f1(2) by simp
  ultimately show ?case
    by (meson rtranclp.rtrancl_into_rtrancl rtranclp_trans)
next
  case Nil
  then have "s\<lparr>sys_fetcher := f, sys_pc := Removing start []\<rparr> = s" by simp
  then show ?case by simp
qed

lemma load_block_data_steps:
  assumes "sys_pc s = Loading start"
    and "load_block_data ldg ops (sys_ledger s) (sys_fetcher s) = Some (Ok work, f)"
  shows "(fetcher_step lib ldg blocks ops absf)\<^sup>*\<^sup>* s
    (s\<lparr>sys_fetcher := f, sys_pc := after_load start work (sys_stop s) (next_block_index f)\<rparr>)"
proof (cases "get_block_contents ldg (next_block_index (sys_fetcher s)) (sys_ledger s)")
  case (Ok bc)
  let ?step = "fetcher_step lib ldg blocks ops absf" and ?s1 = "s\<lparr>sys_pc := Removing start (bc_key_images bc)\<rparr>"
  obtain f1 where f1: "remove_key_images ops (bc_key_images bc) (sys_fetcher s) = Some (Ok (), f1)"
      "f = f1\<lparr>next_block_index := next_block_index f1 + 1\<rparr>" "work"
    using assms(2) Ok by (auto simp: load_block_data_def split: option.splits result.splits)
  have "?step s ?s1" by (rule fetcher_step.load_block [OF assms(1) Ok])
  moreover have "?step\<^sup>*\<^sup>* ?s1 (?s1\<lparr>sys_fetcher := f1, sys_pc := Removing start []\<rparr>)"
    by (rule remove_key_images_steps) (simp_all add: f1(1))
  moreover have "?step (?s1\<lparr>sys_fetcher := f1, sys_pc := Removing start []\<rparr>)
      (s\<lparr>sys_fetcher := f, sys_pc := after_load start work (sys_stop s) (next_block_index f)\<rparr>)"
    using fetcher_step.block_done [of "?s1\<lparr>sys_fetcher := f1, sys_pc := Removing start []\<rparr>" start] f1(2,3)
    by simp
  ultimately show ?thesis
    by (meson converse_rtranclp_into_rtranclp rtranclp.rtrancl_into_rtrancl)
next
  case (Err e)
  then show ?thesis
    using assms fetcher_step.load_none [OF assms(1)] fetcher_step.load_failed [OF assms(1)]
    by (cases e) (auto simp: load_block_data_def intro: r_into_rtranclp)
next
  case Panic
  with assms(2) show ?thesis by (simp add: load_block_data_def)
qed

lemma load_loop_steps:
  assumes "load_loop ldg ops (sys_ledger s) fuel (sys_fetcher s) = Some (Ok (), f)"
    and "sys_pc s = Loading start" and "\<not> sys_stop s"
  shows "(fetcher_step lib ldg blocks ops absf)\<^sup>*\<^sup>* s
    (s\<lparr>sys_fetcher := f, sys_pc := after_load start False False (next_block_index f)\<rparr>)"
  using assms
proof (induction fuel arbitrary: s)
  case (Suc fuel)
  obtain work f1 where f1: "load_block_data ldg ops (sys_ledger s) (sys_fetcher s) = Some (Ok work, f1)"
    using Suc.prems(1) by (auto split: option.splits result.splits prod.splits)
  note steps = load_block_data_steps [OF Suc.prems(2) f1, where lib = lib and blocks = blocks and absf = absf]
  show ?case
  proof (cases work)
    case True
    let ?s1 = "s\<lparr>sys_fetcher := f1, sys_pc := Loading start\<rparr>"
    have "load_loop ldg ops (sys_ledger ?s1) fuel (sys_fetcher ?s1) = Some (Ok (), f)"
      using Suc.prems(1) f1 True by simp
    from Suc.IH [OF this] have "(fetcher_step lib ldg blocks ops absf)\<^sup>*\<^sup>* ?s1
        (s\<lparr>sys_fetcher := f, sys_pc := after_load start False False (next_block_index f)\<rparr>)"
      using Suc.prems(3) by simp
    moreover have "(fetcher_step lib ldg blocks ops absf)\<^sup>*\<^sup>* s ?s1"
      using steps True Suc.prems(3) by (simp add: after_load_def)
    ultimately show ?thesis by (rule rtranclp_trans [rotated])
  qed (use steps Suc.prems f1 in simp)
qed simp

context sync_on
begin

lemma fetcher_steps_book:
  assumes "(fetcher_step lib ldg blocks ops abs)\<^sup>*\<^sup>* s s'" and "inv (sys_book s)"
  shows "inv (sys_book s') \<and> abs (sys_book s') \<subseteq> abs (sys_book s)"
  using assms by (induction rule: rtranclp_induct) (use fetcher_step_book in blast)+

lemma expire_retry_steps:
  assumes "(\<lambda>x y. \<exists>e. remove_quotes_by_tombstone_block ops (next_block_index (sys_fetcher s) - 1) x = (Err e, y))\<^sup>*\<^sup>*
      (sys_book s) b"
    and "sys_pc s = Expiring" and "inv (sys_book s)"
    and "tombstones_regular lib (next_block_index (sys_fetcher s) - 1) (abs (sys_book s))"
  shows "(fetcher_step lib ldg blocks ops abs)\<^sup>*\<^sup>* s (sys_set_book b s) \<and> inv b \<and> abs b = abs (sys_book s)"
  using assms(1)
proof (induction rule: rtranclp_induct)
  case base
  then show ?case using assms(3) by (simp add: sys_set_book_def sys_book_def)
next
  case (step y z)
  then obtain e where e: "remove_quotes_by_tombstone_block ops (next_block_index (sys_fetcher s) - 1) y = (Err e, z)"
    by auto
  have "fetcher_step lib ldg blocks ops abs (sys_set_book y s) (sys_set_book z s)"
    using fetcher_step.expire_fails [of "sys_set_book y s" lib abs ops e z] step.IH assms(2,4) e
    by (simp add: sys_set_book_def sys_book_def)
  moreover have "inv z \<and> abs z = abs y"
    using remove_tombstone_law [OF _ _ e] step.IH assms(4) by (simp add: remove_where_spec_def)
  ultimately show ?case
    using step.IH by (auto intro: rtranclp.rtrancl_into_rtrancl)
qed

lemma expire_quotes_steps:
  assumes "expire_quotes ops (sys_fetcher s) = Some (Ok (), f)"
    and "sys_pc s = Expiring" and "inv (sys_book s)"
    and "tombstones_regular lib (next_block_index (sys_fetcher s) - 1) (abs (sys_book s))"
  shows "(fetcher_step lib ldg blocks ops abs)\<^sup>*\<^sup>* s (s\<lparr>sys_fetcher := f, sys_pc := Polling\<rparr>)"
proof -
  let ?step = "fetcher_step lib ldg blocks ops abs" and ?n = "next_block_index (sys_fetcher s) - 1"
  obtain f1 where f1: "remove_and_report (remove_quotes_by_tombstone_block ops ?n) (sys_fetcher s) = Some (Ok (), f1)"
      "f = f1\<lparr>highest_processed_block_index := ?n\<rparr>"
    using assms(1) by (auto simp: expire_quotes_def Let_def split: option.splits result.splits prod.splits)
  obtain b1 qs b' where b: "(\<lambda>x y. \<exists>e. remove_quotes_by_tombstone_block ops ?n x = (Err e, y))\<^sup>*\<^sup>* (sys_book s) b1"
      "remove_quotes_by_tombstone_block ops ?n b1 = (Ok qs, b')"
      "f1 = (sys_fetcher s)\<lparr>quotebook := b', callbacks := callbacks (sys_fetcher s) @ [qs]\<rparr>"
    using remove_and_report_path [OF f1(1)] by (auto simp: sys_book_def)
  note retry = expire_retry_steps [OF b(1) assms(2-4)]
  let ?s1 = "sys_set_book b1 s" and ?s2 = "(sys_set_book b' s)\<lparr>sys_pc := Reporting qs Storing\<rparr>"
  let ?s3 = "s\<lparr>sys_fetcher := f1, sys_pc := Storing\<rparr>"
  have "?step\<^sup>*\<^sup>* s ?s1" using retry by blast
  moreover have "?step ?s1 ?s2"
    using fetcher_step.expire [of ?s1 lib abs ops qs b'] b(2) retry assms(2,4)
    by (simp add: sys_set_book_def sys_book_def)
  moreover have "?step ?s2 ?s3"
    using fetcher_step.report [of ?s2 qs Storing] b(3) by (simp add: sys_set_book_def)
  moreover have "?step ?s3 (s\<lparr>sys_fetcher := f, sys_pc := Polling\<rparr>)"
    using fetcher_step.store [of ?s3] f1(2) b(3) by simp
  ultimately show ?thesis
    by (meson rtranclp.rtrancl_into_rtrancl)
qed

text \<open>A round that no client interrupts is the function \<open>run_round\<close>.\<close>

lemma run_round_steps:
  assumes run: "run_round ldg ops (sys_ledger s) fuel (sys_fetcher s) = Some (Ok (), f)"
    and s: "sys_pc s = Polling" "\<not> sys_stop s" and inv: "inv (sys_book s)"
    and reg: "tombstones_regular lib (next_block_index f - 1) (abs (sys_book s))"
  shows "(fetcher_step lib ldg blocks ops abs)\<^sup>*\<^sup>* s (s\<lparr>sys_fetcher := f\<rparr>)"
proof -
  let ?step = "fetcher_step lib ldg blocks ops abs" and ?n = "next_block_index (sys_fetcher s)"
  obtain f1 where f1: "load_loop ldg ops (sys_ledger s) fuel (sys_fetcher s) = Some (Ok (), f1)"
    using run by (auto simp: run_round_def split: option.splits result.splits prod.splits)
  let ?s1 = "s\<lparr>sys_pc := Loading ?n\<rparr>"
  let ?s2 = "s\<lparr>sys_fetcher := f1, sys_pc := after_load ?n False False (next_block_index f1)\<rparr>"
  have "?step s ?s1" by (rule fetcher_step.poll_go [OF s])
  moreover have "?step\<^sup>*\<^sup>* ?s1 ?s2"
    using load_loop_steps [of ldg ops ?s1 fuel f1 ?n] f1 s(2) by simp
  ultimately have start: "?step\<^sup>*\<^sup>* s ?s2" by (rule converse_rtranclp_into_rtranclp)
  show ?thesis
  proof (cases "next_block_index f1 = ?n")
    case True
    then have "s\<lparr>sys_fetcher := f\<rparr> = ?s2"
      using run f1 s(1) by (simp add: run_round_def after_load_def)
    with start show ?thesis by simp
  next
    case False
    have e: "expire_quotes ops (sys_fetcher ?s2) = Some (Ok (), f)"
      using run f1 False by (simp add: run_round_def)
    then have "next_block_index f = next_block_index f1"
      by (auto simp: expire_quotes_def Let_def remove_and_report_def split: option.splits result.splits prod.splits)
    then have b: "inv (sys_book ?s2)" "tombstones_regular lib (next_block_index f1 - 1) (abs (sys_book ?s2))"
      using fetcher_steps_book [OF start inv] reg by (auto simp: tombstones_regular_def)
    have "?step\<^sup>*\<^sup>* ?s2 (?s2\<lparr>sys_fetcher := f, sys_pc := Polling\<rparr>)"
      by (rule expire_quotes_steps [OF e]) (use b False in \<open>simp_all add: after_load_def\<close>)
    moreover have "?s2\<lparr>sys_fetcher := f, sys_pc := Polling\<rparr> = s\<lparr>sys_fetcher := f\<rparr>"
      using s(1) by simp
    ultimately show ?thesis
      using start by (metis rtranclp_trans)
  qed
qed

end

interpretation msy: reliable_sync_on lib "in_memory_ops lib" mem_abs mem_inv list_ledger chain_blocks
  for lib
  by unfold_locales

lemma reliable_sync_on_sync_on:
  "reliable_sync_on lib ops absf invf ldg blocks \<Longrightarrow> sync_on lib ops absf invf ldg blocks"
  by (simp add: reliable_sync_on_def reliable_quote_book_def healthy_ledger_def sync_on_def)

section \<open>A sample ledger\<close>

text \<open>Two blocks: the first creates the output that the sample quote on key image \<open>[0]\<close> spends, the
  second spends it.\<close>

definition sample_block :: block_contents where
  "sample_block = \<lparr>bc_key_images = [], bc_outputs = [sample_tx_out 0]\<rparr>"

definition spending_block :: block_contents where
  "spending_block = \<lparr>bc_key_images = [[0]], bc_outputs = []\<rparr>"

abbreviation chain_one :: small_chain where
  "chain_one \<equiv> chain_of [sample_block]"

abbreviation chain_two :: small_chain where
  "chain_two \<equiv> chain_of [sample_block, spending_block]"

lemma sample_quote_passes: "sync_check list_ledger chain_one (sample_full_quote 0 100 10 5) = Ok ()"
  by (rule lc.sync_check_complete)
    (simp_all add: expired_at_def chain_key_images_def sample_block_def ring_in_ledger_def
      sample_full_def chain_outputs_def)

section \<open>Properties\<close>

text \<open>
  C16: What is admitted. With a ledger that answers, the checks of \<open>add_quote\<close> succeed if and
  only if the tombstone block of the quote is still ahead of the last block, its input is not spent
  anywhere in the ledger, and every ring member is the output the ledger has at the claimed index.
\<close>

theorem sync_check_exact:
  assumes "healthy_ledger ldg blocks"
  shows "sync_check ldg l q = Ok () \<longleftrightarrow>
    \<not> expired_at (of_nat (length (blocks l)) - 1) q \<and>
    quote_key_image q \<notin> chain_key_images (blocks l) \<and>
    ring_in_ledger (chain_outputs (blocks l)) q"
proof -
  have laws: "ledger_laws ldg blocks"
    using assms by (simp add: healthy_ledger_def)
  show ?thesis
    using ledger_laws.sync_check_Ok [OF laws, of l q] healthy_ledger.sync_check_complete [OF assms]
      healthy_ledger.num_blocks_ok [OF assms, of l]
    by (metis result.inject(1))
qed

theorem sync_check_exact_witness:
  "sync_check list_ledger chain_two (sample_full_quote 0 100 10 5) \<noteq> Ok ()"
  using sync_check_exact [OF lc.healthy_ledger_axioms, of chain_two "sample_full_quote 0 100 10 5"]
  by (simp add: chain_key_images_def spending_block_def)



text \<open>
  C15: A round of the background thread ends and is exact. With a reliable inner book and a
  ledger that answers, a round that starts at any block ends after the last block of the ledger;
  it removes exactly the quotes whose input a new block spends and, if there was a new block, those
  that have expired at the last block; and it reports each removed quote exactly once. The steps of
  the thread, when nothing else happens in between, take it from the start of such a round to its end.
\<close>

theorem sync_round_exact:
  assumes "reliable_sync_on lib ops absf invf ldg blocks"
    and "invf (quotebook st)" and "unat (next_block_index st) \<le> length (blocks l)"
    and "length (blocks l) - unat (next_block_index st) < fuel"
    and "tombstones_regular lib (of_nat (length (blocks l)) - 1) (absf (quotebook st))"
  shows "\<exists>st'. run_round ldg ops l fuel st = Some (Ok (), st') \<and> invf (quotebook st') \<and>
    unat (next_block_index st') = length (blocks l) \<and>
    (\<exists>new. callbacks st' = callbacks st @ new \<and> distinct (concat new) \<and>
       set (concat new) = absf (quotebook st) - absf (quotebook st')) \<and>
    absf (quotebook st') =
      {x \<in> absf (quotebook st).
         quote_key_image x \<notin> chain_key_images (drop (unat (next_block_index st)) (blocks l)) \<and>
         (unat (next_block_index st) < length (blocks l) \<longrightarrow>
            \<not> expired_at (of_nat (length (blocks l)) - 1) x)} \<and>
    (fetcher_step lib ldg blocks ops absf)\<^sup>*\<^sup>*
      \<lparr>sys_fetcher = st, sys_ledger = l, sys_pc = Polling, sys_stop = False\<rparr>
      \<lparr>sys_fetcher = st', sys_ledger = l, sys_pc = Polling, sys_stop = False\<rparr>"
proof -
  have sync: "sync_on lib ops absf invf ldg blocks"
    using assms(1) by (rule reliable_sync_on_sync_on)
  obtain st' where st': "run_round ldg ops l fuel st = Some (Ok (), st')" "unat (next_block_index st') = length (blocks l)"
    and rest: "invf (quotebook st')" "\<exists>new. callbacks st' = callbacks st @ new \<and> distinct (concat new) \<and>
       set (concat new) = absf (quotebook st) - absf (quotebook st')"
      "absf (quotebook st') = {x \<in> absf (quotebook st).
         quote_key_image x \<notin> chain_key_images (drop (unat (next_block_index st)) (blocks l)) \<and>
         (unat (next_block_index st) < length (blocks l) \<longrightarrow> \<not> expired_at (of_nat (length (blocks l)) - 1) x)}"
    using reliable_sync_on.run_round_exact [OF assms] by blast
  have "next_block_index st' = of_nat (length (blocks l))"
    by (simp flip: st'(2))
  then show ?thesis
    using st' rest assms(2,5) sync_on.run_round_steps [OF sync,
        of "\<lparr>sys_fetcher = st, sys_ledger = l, sys_pc = Polling, sys_stop = False\<rparr>" fuel st']
    by (intro exI [of _ st']) (simp add: sys_book_def)
qed

theorem sync_round_exact_witness:
  "\<exists>st'. run_round list_ledger (in_memory_ops sample_lib) chain_two 3
      (fetcher_start sample_book 0) = Some (Ok (), st') \<and> unat (next_block_index st') = 2"
proof -
  have "tombstones_regular sample_lib (of_nat (length (chain_blocks chain_two)) - 1)
      (mem_abs (quotebook (fetcher_start sample_book 0)))"
    by (simp add: tombstones_regular_def fetcher_start_def sample_book_abs past_tombstone_def
        expired_at_def sample_lib_def)
  with sync_round_exact [OF msy.reliable_sync_on_axioms, of "fetcher_start sample_book 0" chain_two 3
      sample_lib]
  show ?thesis
    by (auto simp: fetcher_start_def sample_book_inv)
qed



section \<open>Divergences\<close>

text \<open>The check and the insertion of \<open>add_quote\<close> are not atomic. A client checks a quote; a block that
  spends its input arrives and the thread processes it; the client then inserts the quote. The book
  now offers a quote that a processed block has spent, and the thread will not look at that block
  again.\<close>

definition race_fetcher :: "in_memory_quote_book db_fetcher" where
  "race_fetcher = \<lparr>quotebook = in_memory_default, next_block_index = 2,
     highest_processed_block_index = 0, callbacks = [[]]\<rparr>"

lemma race_loads:
  "load_block_data list_ledger (in_memory_ops lib) chain_two (fetcher_start in_memory_default 0) =
     Some (Ok True, (fetcher_start in_memory_default 0)\<lparr>next_block_index := 1\<rparr>)"
  "load_block_data list_ledger (in_memory_ops lib) chain_two
     ((fetcher_start in_memory_default 0)\<lparr>next_block_index := 1\<rparr>) = Some (Ok True, race_fetcher)"
proof -
  have "retry (mem_remove_quotes_by_key_image [0]) in_memory_default = Some (Ok [], in_memory_default)"
    by (rule retry_first_try)
      (simp add: mem_remove_quotes_by_key_image_def in_memory_default_def drain_filter_all_def)
  then show
    "load_block_data list_ledger (in_memory_ops lib) chain_two (fetcher_start in_memory_default 0) =
       Some (Ok True, (fetcher_start in_memory_default 0)\<lparr>next_block_index := 1\<rparr>)"
    "load_block_data list_ledger (in_memory_ops lib) chain_two
       ((fetcher_start in_memory_default 0)\<lparr>next_block_index := 1\<rparr>) = Some (Ok True, race_fetcher)"
    by (simp_all add: load_block_data_def list_ledger_def fetcher_start_def sample_block_def
        spending_block_def remove_and_report_def race_fetcher_def)
qed

lemma fetcher_steps_background:
  "(fetcher_step lib ldg blocks ops absf)\<^sup>*\<^sup>* s s' \<Longrightarrow> sync_reachable lib ldg blocks ops absf s s'"
  using mono_rtranclp [of "fetcher_step lib ldg blocks ops absf" "sync_step lib ldg blocks ops absf"]
    sync_step.background by blast

lemma split_step_others:
  assumes "sync_reachable lib ldg blocks ops absf s s'"
  shows "(split_step lib ldg blocks ops absf)\<^sup>*\<^sup>* (qs, s) (qs, s')"
  using assms
  by (induction rule: rtranclp_induct) (auto intro: rtranclp.rtrancl_into_rtrancl split_step.other)

theorem split_add_race:
  "\<exists>s. (split_step sample_lib list_ledger chain_blocks (in_memory_ops sample_lib) mem_abs)\<^sup>*\<^sup>*
      ([], sync_start in_memory_default chain_one) ([], s) \<and>
    sample_full_quote 0 100 10 5 \<in> mem_abs (sys_book s) \<and>
    quote_key_image (sample_full_quote 0 100 10 5) \<in>
      chain_key_images (take (unat (next_block_index (sys_fetcher s))) (chain_blocks (sys_ledger s)))"
proof -
  let ?q = "sample_full_quote 0 100 10 5"
  let ?step = "sync_step sample_lib list_ledger chain_blocks (in_memory_ops sample_lib) mem_abs"
  let ?split = "split_step sample_lib list_ledger chain_blocks (in_memory_ops sample_lib) mem_abs"
  let ?s0 = "sync_start in_memory_default chain_one"
  let ?s1 = "?s0\<lparr>sys_ledger := chain_two\<rparr>"
  let ?s2 = "?s1\<lparr>sys_pc := Loading 0\<rparr>"
  let ?s3 = "?s2\<lparr>sys_fetcher := (fetcher_start in_memory_default 0)\<lparr>next_block_index := 1\<rparr>\<rparr>"
  let ?s4 = "?s2\<lparr>sys_fetcher := race_fetcher\<rparr>"
  let ?b = "snd (mem_add_quote ?q in_memory_default)"
  have "?split ([], ?s0) ([?q], ?s0)"
    by (rule split_step.check) (simp add: sync_start_def sample_quote_passes)
  moreover have "?step ?s0 ?s1"
    by (intro sync_step.background fetcher_step.ledger_grows [where bs = "[spending_block]"]) (simp add: sync_start_def)
  moreover have "?step ?s1 ?s2"
    using sync_step.background [OF fetcher_step.poll_go [of ?s1]] by (simp add: sync_start_def fetcher_start_def)
  moreover have "?step\<^sup>*\<^sup>* ?s2 ?s3"
    using fetcher_steps_background [OF load_block_data_steps [of ?s2 0 list_ledger "in_memory_ops sample_lib" True]]
      race_loads(1) [of sample_lib]
    by (simp add: sync_start_def after_load_def)
  moreover have "?step\<^sup>*\<^sup>* ?s3 ?s4"
    using fetcher_steps_background [OF load_block_data_steps [of ?s3 0 list_ledger "in_memory_ops sample_lib" True]]
      race_loads(2) [of sample_lib]
    by (simp add: sync_start_def after_load_def)
  moreover have "?split ([?q], ?s4) ([], sys_set_book ?b ?s4)"
  proof (rule split_step.insert_checked)
    show "admissible ?q (mem_abs (sys_book ?s4))"
      by (simp add: admissible_def rated_def sys_book_def race_fetcher_def mem_inv_default)
    show "add_quote (in_memory_ops sample_lib) ?q (sys_book ?s4) =
        (fst (mem_add_quote ?q in_memory_default), ?b)"
      by (simp add: sys_book_def race_fetcher_def)
  qed
  ultimately have "?split\<^sup>*\<^sup>* ([], ?s0) ([], sys_set_book ?b ?s4)"
    by (meson split_step_others converse_rtranclp_into_rtranclp r_into_rtranclp rtranclp_trans)
  moreover have "?q \<in> mem_abs ?b"
    by (simp add: mem_add_quote_def in_memory_default_def mem_abs_def)
  ultimately show ?thesis
    by (intro exI [of _ "sys_set_book ?b ?s4"])
      (simp add: race_fetcher_def sync_start_def chain_key_images_def spending_block_def)
qed

text \<open>After a panic under the write lock every removal answers \<open>LockPoisoned\<close>. The thread then retries
  for ever, and \<open>SyncThread::stop\<close>, which joins it, does not return either.\<close>

theorem poisoned_book_blocks_thread:
  assumes "poisoned b"
  shows "retry (mem_remove_quotes_by_key_image k) b = None"
proof -
  let ?f = "mem_remove_quotes_by_key_image k"
  let ?P = "\<lambda>f b y. f = ?f \<longrightarrow> \<not> poisoned b"
  have "?P ?f b y" if run: "retry ?f b = Some y" for y
  proof (rule retry.raw_induct [where P = ?P, OF _ run], intro impI)
    fix retry' f b y
    assume ih: "\<And>g b y. retry' g b = Some y \<Longrightarrow> ?P g b y" and f: "f = ?f"
      and body: "(case f b of
           (Ok qs, b') \<Rightarrow> Some (Ok qs, b')
         | (Err e, b') \<Rightarrow> retry' f b'
         | (Panic, b') \<Rightarrow> Some (Panic, b')) = Some y"
    show "\<not> poisoned b"
    proof
      assume "poisoned b"
      then have "retry' f b = Some y"
        using body f by (simp add: mem_remove_quotes_by_key_image_def)
      with ih f \<open>poisoned b\<close> show False by blast
    qed
  qed
  with assms show ?thesis by (cases "retry ?f b") auto
qed

end
