(* ===== verification/Net_Event_Loop.thy ===== *)
theory Net_Event_Loop
  imports P2P_Client "HOL-Library.Multiset"
begin

text \<open>
  The event loop of the crate \<open>p2p\<close> (\<open>p2p/src/network_event_loop.rs\<close>). It receives commands of
  clients and events of the libp2p swarm. The swarm is a state \<open>'w\<close> with the operations of
  \<open>swarm_ops\<close>; what a client was answered and what was sent to the event queue are recorded in the
  state of the loop. A send on a channel whose receiver is gone is an \<open>expect\<close> that fails, so the
  loop panics.
\<close>

section \<open>The swarm\<close>

record ('req, 'resp, 'w) swarm_ops =
  all_peers :: "'w \<Rightarrow> peer_id list"
  listen_on :: "multiaddr \<Rightarrow> 'w \<Rightarrow> (string + nat) \<times> 'w"
  listeners :: "'w \<Rightarrow> multiaddr list"
  local_peer_id :: "'w \<Rightarrow> peer_id"
  swarm_connected_peers :: "'w \<Rightarrow> peer_id list"
  send_request :: "peer_id \<Rightarrow> 'req \<Rightarrow> 'w \<Rightarrow> nat \<times> 'w"
  send_response :: "response_channel \<Rightarrow> 'resp \<Rightarrow> 'w \<Rightarrow> bool \<times> 'w"
  publish :: "topic \<Rightarrow> bytes \<Rightarrow> 'w \<Rightarrow> (string + message_id) \<times> 'w"
  subscribe :: "topic \<Rightarrow> 'w \<Rightarrow> (string + bool) \<times> 'w"
  kad_add_address :: "peer_id \<Rightarrow> multiaddr \<Rightarrow> 'w \<Rightarrow> 'w"
  kad_bootstrap :: "'w \<Rightarrow> string option \<times> 'w"
  kad_start_providing :: "string \<Rightarrow> 'w \<Rightarrow> string option \<times> 'w"
  kad_get_providers :: "string \<Rightarrow> 'w \<Rightarrow> 'w"
  peer_id_from_multihash :: "bytes \<Rightarrow> string + peer_id"
  DEFAULT_PROTO_NAME :: string

datatype ('req, 'resp) swarm_event =
    SwNewListenAddr multiaddr nat
  | SwConnectionEstablished peer_id u32
  | SwRequest peer_id 'req response_channel
  | SwResponse nat 'resp
  | SwOutboundFailure nat string
  | SwGossip gossip_message
  | SwIdentifyReceived peer_id "multiaddr list" "string list"
  | SwPing
  | SwKademliaQueryCompleted
  | SwOther

section \<open>The loop and its state\<close>

datatype 'resp answer =
    PeersAnswer "peer_id list"
  | ListenAnswer "client_error + multiaddr"
  | AddrsAnswer "multiaddr list"
  | PublishAnswer "string + message_id"
  | SubscribeAnswer "string + bool"
  | RpcAnswer "client_error + 'resp"

record ('req, 'resp, 'w) event_loop =
  swarm :: 'w
  pending_rpc_requests :: "(nat \<times> chan) list"
  listener_requests :: "(nat \<times> chan) list"
  answers :: "(chan \<times> 'resp answer) list"
  dropped_receivers :: "chan set"
  event_queue :: "'req network_event list"
  event_queue_open :: bool

definition KAD_PEER_KEY :: string where
  "KAD_PEER_KEY = ''mc/deqs/p2p/kad/peer''"

definition KADEMLIA_PROTO_NAME :: string where
  "KADEMLIA_PROTO_NAME = ''/mc/deqs/kad/1.0.0''"

text \<open>\<open>HashMap::insert\<close> replaces the value of a key, \<open>HashMap::remove\<close> returns it.\<close>

definition hm_insert :: "nat \<Rightarrow> chan \<Rightarrow> (nat \<times> chan) list \<Rightarrow> (nat \<times> chan) list" where
  "hm_insert k v m = (k, v) # filter (\<lambda>e. fst e \<noteq> k) m"

definition hm_remove :: "nat \<Rightarrow> (nat \<times> chan) list \<Rightarrow> chan option \<times> (nat \<times> chan) list" where
  "hm_remove k m = (map_of m k, filter (\<lambda>e. fst e \<noteq> k) m)"

definition answer ::
  "chan \<Rightarrow> 'resp answer \<Rightarrow> ('req, 'resp, 'w) event_loop \<Rightarrow> (unit, unit) result \<times> ('req, 'resp, 'w) event_loop" where
  "answer c v st =
     (if c \<in> dropped_receivers st then (Panic, st) else (Ok (), st\<lparr>answers := answers st @ [(c, v)]\<rparr>))"

definition send_event ::
  "'req network_event \<Rightarrow> ('req, 'resp, 'w) event_loop \<Rightarrow> (unit, unit) result \<times> ('req, 'resp, 'w) event_loop" where
  "send_event e st =
     (if event_queue_open st then (Ok (), st\<lparr>event_queue := event_queue st @ [e]\<rparr>) else (Panic, st))"

section \<open>Events of the swarm\<close>

text \<open>The answer to a pending request; a response to an unknown request is only logged.\<close>

definition answer_request ::
  "nat \<Rightarrow> client_error + 'resp \<Rightarrow> ('req, 'resp, 'w) event_loop \<Rightarrow>
     (unit, unit) result \<times> ('req, 'resp, 'w) event_loop" where
  "answer_request request_id v st =
     (case hm_remove request_id (pending_rpc_requests st) of
        (Some sender, m) \<Rightarrow> answer sender (RpcAnswer v) (st\<lparr>pending_rpc_requests := m\<rparr>)
      | (None, m) \<Rightarrow> (Ok (), st\<lparr>pending_rpc_requests := m\<rparr>))"

fun handle_swarm_event ::
  "('req, 'resp, 'w) swarm_ops \<Rightarrow> ('req, 'resp) swarm_event \<Rightarrow> ('req, 'resp, 'w) event_loop \<Rightarrow>
     (unit, unit) result \<times> ('req, 'resp, 'w) event_loop" where
  "handle_swarm_event sw (SwNewListenAddr address listener_id) st =
     then_do
       (case hm_remove listener_id (listener_requests st) of
          (Some sender, m) \<Rightarrow> answer sender (ListenAnswer (Inr address)) (st\<lparr>listener_requests := m\<rparr>)
        | (None, m) \<Rightarrow> (Ok (), st\<lparr>listener_requests := m\<rparr>))
       (\<lambda>_ st. send_event (NewListenAddr address) st)"
| "handle_swarm_event sw (SwConnectionEstablished peer_id num_established) st =
     (if num_established = 1 then send_event (ConnectionEstablished peer_id) st else (Ok (), st))"
| "handle_swarm_event sw (SwRequest peer request channel) st =
     send_event (RpcRequestEvent peer request channel) st"
| "handle_swarm_event sw (SwResponse request_id response) st =
     answer_request request_id (Inr response) st"
| "handle_swarm_event sw (SwOutboundFailure request_id error) st =
     answer_request request_id (Inl (OutboundFailure error)) st"
| "handle_swarm_event sw (SwGossip message) st = send_event (GossipMessage message) st"
| "handle_swarm_event sw (SwIdentifyReceived peer_id addrs protocols) st =
     (Ok (), st\<lparr>swarm :=
        (if DEFAULT_PROTO_NAME sw \<in> set protocols
         then fold (kad_add_address sw peer_id) addrs (swarm st) else swarm st)\<rparr>)"
| "handle_swarm_event sw SwPing st = (Ok (), st)"
| "handle_swarm_event sw SwKademliaQueryCompleted st = (Ok (), st)"
| "handle_swarm_event sw SwOther st = (Ok (), st)"

section \<open>Commands of clients\<close>

fun handle_command ::
  "('req, 'resp, 'w) swarm_ops \<Rightarrow> ('req, 'resp) command \<Rightarrow> ('req, 'resp, 'w) event_loop \<Rightarrow>
     (unit, unit) result \<times> ('req, 'resp, 'w) event_loop" where
  "handle_command sw (PeerList c) st = answer c (PeersAnswer (all_peers sw (swarm st))) st"
| "handle_command sw (Listen address c) st =
     (case listen_on sw address (swarm st) of
        (Inr listener_id, w) \<Rightarrow>
          (Ok (), st\<lparr>swarm := w, listener_requests := hm_insert listener_id c (listener_requests st)\<rparr>)
      | (Inl err, w) \<Rightarrow> answer c (ListenAnswer (Inl (Transport err))) (st\<lparr>swarm := w\<rparr>))"
| "handle_command sw (ListenAddrList c) st =
     answer c (AddrsAnswer (map (\<lambda>a. a @ [P2p (local_peer_id sw (swarm st))]) (listeners sw (swarm st)))) st"
| "handle_command sw (ConnectedPeerList c) st =
     answer c (PeersAnswer (swarm_connected_peers sw (swarm st))) st"
| "handle_command sw (RpcRequest peer request c) st =
     (case send_request sw peer request (swarm st) of
        (request_id, w) \<Rightarrow>
          (Ok (), st\<lparr>swarm := w,
             pending_rpc_requests := hm_insert request_id c (pending_rpc_requests st)\<rparr>))"
| "handle_command sw (RpcResponse response channel) st =
     (Ok (), st\<lparr>swarm := snd (send_response sw channel response (swarm st))\<rparr>)"
| "handle_command sw (PublishGossip topic msg c) st =
     (case publish sw topic msg (swarm st) of (resp, w) \<Rightarrow> answer c (PublishAnswer resp) (st\<lparr>swarm := w\<rparr>))"
| "handle_command sw (SubscribeGossip topic c) st =
     (case subscribe sw topic (swarm st) of
        (resp, w) \<Rightarrow> answer c (SubscribeAnswer resp) (st\<lparr>swarm := w\<rparr>))"

section \<open>Joining the network\<close>

text \<open>The addresses of the bootstrap peers end in the identifier of the peer.\<close>

fun add_bootstrap_peers ::
  "('req, 'resp, 'w) swarm_ops \<Rightarrow> multiaddr list \<Rightarrow> 'w \<Rightarrow> (unit, p2p_error) result \<times> 'w" where
  "add_bootstrap_peers sw [] w = (Ok (), w)"
| "add_bootstrap_peers sw (addr # addrs) w =
     (if addr = [] then (Err (InvalidPeerAddress addr None), w)
      else case last addr of
        P2p hash \<Rightarrow>
          (case peer_id_from_multihash sw hash of
             Inr peer_id \<Rightarrow>
               add_bootstrap_peers sw addrs (kad_add_address sw peer_id (butlast addr) w)
           | Inl err \<Rightarrow> (Err (Multihash err), w))
      | other \<Rightarrow> (Err (InvalidPeerAddress addr (Some other)), w))"

definition bootstrap ::
  "('req, 'resp, 'w) swarm_ops \<Rightarrow> multiaddr list \<Rightarrow> 'w \<Rightarrow> (unit, p2p_error) result \<times> 'w" where
  "bootstrap sw bootstrap_peers w =
     then_do (add_bootstrap_peers sw bootstrap_peers w) (\<lambda>_ w.
     then_do
       (if bootstrap_peers \<noteq> []
        then (case kad_bootstrap sw w of
                (Some e, w) \<Rightarrow> (Err (Bootstrap e), w)
              | (None, w) \<Rightarrow> (Ok (), w))
        else (Ok (), w)) (\<lambda>_ w.
     then_do
       (case kad_start_providing sw KAD_PEER_KEY w of
          (Some e, w) \<Rightarrow> (Err (KadStore e), w)
        | (None, w) \<Rightarrow> (Ok (), w)) (\<lambda>_ w.
     (Ok (), kad_get_providers sw KAD_PEER_KEY w))))"

section \<open>Running\<close>

datatype ('req, 'resp) loop_input =
    SwarmInput "('req, 'resp) swarm_event"
  | CommandInput "('req, 'resp) command"
  | IntervalTick
  | ShutdownInput

text \<open>One iteration; the loop goes on unless shutdown was requested.\<close>

fun loop_step ::
  "('req, 'resp, 'w) swarm_ops \<Rightarrow> multiaddr list \<Rightarrow> ('req, 'resp) loop_input \<Rightarrow>
     ('req, 'resp, 'w) event_loop \<Rightarrow> (bool, unit) result \<times> ('req, 'resp, 'w) event_loop" where
  "loop_step sw peers (SwarmInput e) st =
     (case handle_swarm_event sw e st of (r, st') \<Rightarrow> (map_ok (\<lambda>_. True) r, st'))"
| "loop_step sw peers (CommandInput c) st =
     (case handle_command sw c st of (r, st') \<Rightarrow> (map_ok (\<lambda>_. True) r, st'))"
| "loop_step sw peers IntervalTick st =
     (case bootstrap sw peers (swarm st) of
        (Panic, w) \<Rightarrow> (Panic, st\<lparr>swarm := w\<rparr>)
      | (_, w) \<Rightarrow> (Ok True, st\<lparr>swarm := w\<rparr>))"
| "loop_step sw peers ShutdownInput st = (Ok False, st)"

fun loop_run ::
  "('req, 'resp, 'w) swarm_ops \<Rightarrow> multiaddr list \<Rightarrow> ('req, 'resp) loop_input list \<Rightarrow>
     ('req, 'resp, 'w) event_loop \<Rightarrow>
     (('req, 'resp) loop_input list, unit) result \<times> ('req, 'resp, 'w) event_loop" where
  "loop_run sw peers [] st = (Ok [], st)"
| "loop_run sw peers (i # is) st =
     (case loop_step sw peers i st of
        (Ok True, st') \<Rightarrow> loop_run sw peers is st'
      | (Ok False, st') \<Rightarrow> (Ok is, st')
      | (_, st') \<Rightarrow> (Panic, st'))"

definition loop_init :: "'w \<Rightarrow> ('req, 'resp, 'w) event_loop" where
  "loop_init w =
     \<lparr>swarm = w, pending_rpc_requests = [], listener_requests = [], answers = [],
      dropped_receivers = {}, event_queue = [], event_queue_open = True\<rparr>"

text \<open>The task of the loop: a failing first bootstrap ends it with a panic.\<close>

definition event_loop_start ::
  "('req, 'resp, 'w) swarm_ops \<Rightarrow> multiaddr list \<Rightarrow> ('req, 'resp) loop_input list \<Rightarrow> 'w \<Rightarrow>
     (('req, 'resp) loop_input list, unit) result \<times> ('req, 'resp, 'w) event_loop" where
  "event_loop_start sw peers inputs w =
     (case bootstrap sw peers w of
        (Ok _, w') \<Rightarrow> loop_run sw peers inputs (loop_init w')
      | (_, w') \<Rightarrow> (Panic, loop_init w'))"

section \<open>Identifiers of the swarm\<close>

text \<open>
  What the loop relies on: the swarm gives each outbound request and each listener an identifier it
  has not given before. \<open>reqs\<close> and \<open>lis\<close> are the identifiers given so far.
\<close>

definition keeps_ids :: "('w \<Rightarrow> nat set) \<Rightarrow> ('w \<Rightarrow> nat set) \<Rightarrow> 'w \<Rightarrow> 'w \<Rightarrow> bool" where
  "keeps_ids reqs lis w w' \<longleftrightarrow> reqs w' = reqs w \<and> lis w' = lis w"

fun listen_ids ::
  "('w \<Rightarrow> nat set) \<Rightarrow> ('w \<Rightarrow> nat set) \<Rightarrow> 'w \<Rightarrow> (string + nat) \<times> 'w \<Rightarrow> bool" where
  "listen_ids reqs lis w (Inr i, w') \<longleftrightarrow> i \<notin> lis w \<and> lis w' = insert i (lis w) \<and> reqs w' = reqs w"
| "listen_ids reqs lis w (Inl e, w') \<longleftrightarrow> keeps_ids reqs lis w w'"

definition swarm_ids_ok ::
  "('req, 'resp, 'w) swarm_ops \<Rightarrow> ('w \<Rightarrow> nat set) \<Rightarrow> ('w \<Rightarrow> nat set) \<Rightarrow> bool" where
  "swarm_ids_ok sw reqs lis \<longleftrightarrow>
     (\<forall>p q w. case send_request sw p q w of (i, w') \<Rightarrow>
        i \<notin> reqs w \<and> reqs w' = insert i (reqs w) \<and> lis w' = lis w) \<and>
     (\<forall>a w. listen_ids reqs lis w (listen_on sw a w)) \<and>
     (\<forall>ch v w. keeps_ids reqs lis w (snd (send_response sw ch v w))) \<and>
     (\<forall>t bs w. keeps_ids reqs lis w (snd (publish sw t bs w))) \<and>
     (\<forall>t w. keeps_ids reqs lis w (snd (subscribe sw t w))) \<and>
     (\<forall>p a w. keeps_ids reqs lis w (kad_add_address sw p a w)) \<and>
     (\<forall>w. keeps_ids reqs lis w (snd (kad_bootstrap sw w))) \<and>
     (\<forall>k w. keeps_ids reqs lis w (snd (kad_start_providing sw k w))) \<and>
     (\<forall>k w. keeps_ids reqs lis w (kad_get_providers sw k w))"

lemma send_request_fresh:
  "swarm_ids_ok sw reqs lis \<Longrightarrow> send_request sw p q w = (i, w') \<Longrightarrow>
     i \<notin> reqs w \<and> reqs w' = insert i (reqs w) \<and> lis w' = lis w"
  unfolding swarm_ids_ok_def by (metis (mono_tags, lifting) case_prod_conv)

lemma listen_on_ids: "swarm_ids_ok sw reqs lis \<Longrightarrow> listen_ids reqs lis w (listen_on sw a w)"
  by (simp add: swarm_ids_ok_def)

lemma others_keep:
  assumes "swarm_ids_ok sw reqs lis"
  shows "keeps_ids reqs lis w (snd (send_response sw ch v w))"
    "keeps_ids reqs lis w (snd (publish sw t bs w))"
    "keeps_ids reqs lis w (snd (subscribe sw t w))"
    "keeps_ids reqs lis w (kad_add_address sw p a w)"
    "keeps_ids reqs lis w (snd (kad_bootstrap sw w))"
    "keeps_ids reqs lis w (snd (kad_start_providing sw k w))"
    "keeps_ids reqs lis w (kad_get_providers sw k w)"
  using assms by (simp_all add: swarm_ids_ok_def)

lemma keeps_ids_refl [simp]: "keeps_ids reqs lis w w"
  by (simp add: keeps_ids_def)

lemma keeps_ids_trans: "keeps_ids reqs lis w w1 \<Longrightarrow> keeps_ids reqs lis w1 w2 \<Longrightarrow> keeps_ids reqs lis w w2"
  by (simp add: keeps_ids_def)

text \<open>
  The invariant: clients are waiting, and the channels of the commands handled so far are exactly
  those answered and those still pending, each once.
\<close>

definition map_ok_ids :: "nat set \<Rightarrow> (nat \<times> chan) list \<Rightarrow> bool" where
  "map_ok_ids I m \<longleftrightarrow> distinct (map fst m) \<and> fst ` set m \<subseteq> I"

definition loop_ok ::
  "('w \<Rightarrow> nat set) \<Rightarrow> ('w \<Rightarrow> nat set) \<Rightarrow> ('req, 'resp, 'w) event_loop \<Rightarrow> chan list \<Rightarrow> bool" where
  "loop_ok reqs lis st cs \<longleftrightarrow>
     dropped_receivers st = {} \<and> event_queue_open st \<and>
     map_ok_ids (reqs (swarm st)) (pending_rpc_requests st) \<and>
     map_ok_ids (lis (swarm st)) (listener_requests st) \<and>
     mset (map fst (answers st)) + mset (map snd (pending_rpc_requests st)) +
       mset (map snd (listener_requests st)) = mset cs"

fun command_chans :: "('req, 'resp) command \<Rightarrow> chan list" where
  "command_chans (PeerList c) = [c]"
| "command_chans (Listen a c) = [c]"
| "command_chans (ListenAddrList c) = [c]"
| "command_chans (ConnectedPeerList c) = [c]"
| "command_chans (PublishGossip t m c) = [c]"
| "command_chans (SubscribeGossip t c) = [c]"
| "command_chans (RpcRequest p q c) = [c]"
| "command_chans (RpcResponse v ch) = []"

fun input_chans :: "('req, 'resp) loop_input \<Rightarrow> chan list" where
  "input_chans (CommandInput c) = command_chans c"
| "input_chans _ = []"

lemma filter_other_keys: "k \<notin> fst ` set m \<Longrightarrow> filter (\<lambda>e. fst e \<noteq> k) m = m"
  by (induction m) auto

lemma filter_key:
  "distinct (map fst m) \<Longrightarrow> map_of m k = Some c \<Longrightarrow> filter (\<lambda>e. fst e = k) m = [(k, c)]"
proof (induction m)
  case (Cons e m)
  show ?case
  proof (cases "fst e = k")
    case True
    have "\<forall>x\<in>set m. fst e \<noteq> fst x" using Cons.prems(1) by (simp add: image_iff)
    then have "filter (\<lambda>e. fst e = k) m = []" using True by (metis (mono_tags, lifting) filter_False)
    with True Cons.prems(2) show ?thesis by (cases e) simp
  qed (use Cons in \<open>cases e, simp\<close>)
qed simp

lemma hm_remove_Some:
  assumes "map_ok_ids I m" and "hm_remove k m = (Some c, m')"
  shows "map_ok_ids I m' \<and> mset (map snd m) = add_mset c (mset (map snd m'))"
proof -
  have m': "m' = filter (\<lambda>e. fst e \<noteq> k) m" "map_of m k = Some c"
    using assms(2) by (simp_all add: hm_remove_def)
  have d: "distinct (map fst m)" "fst ` set m \<subseteq> I" using assms(1) by (simp_all add: map_ok_ids_def)
  have "mset m = add_mset (k, c) (mset m')"
    using multiset_partition [of "mset m" "\<lambda>e. fst e = k"] filter_key [OF d(1) m'(2)] m'(1)
    by (simp add: mset_filter [symmetric] del: mset_filter)
  then have "image_mset snd (mset m) = add_mset c (image_mset snd (mset m'))" by simp
  moreover have "distinct (map fst m')" "fst ` set m' \<subseteq> I"
    using d m'(1) by (auto simp: distinct_map_filter)
  ultimately show ?thesis by (simp add: map_ok_ids_def)
qed

lemma hm_remove_None: "hm_remove k m = (None, m') \<Longrightarrow> m' = m"
  using filter_other_keys [of k m] by (auto simp: hm_remove_def map_of_eq_None_iff)

lemma hm_insert_fresh:
  assumes "map_ok_ids I m" and "k \<notin> I"
  shows "map_ok_ids (insert k I) (hm_insert k c m) \<and> mset (map snd (hm_insert k c m)) = add_mset c (mset (map snd m))"
proof -
  have "k \<notin> fst ` set m" using assms by (auto simp: map_ok_ids_def)
  with assms filter_other_keys [OF this] show ?thesis
    by (auto simp: map_ok_ids_def hm_insert_def)
qed

text \<open>\<open>loop_ok\<close> after answering, after sending an event, and after a change of the swarm.\<close>

lemma loop_ok_answer:
  "loop_ok reqs lis st cs \<Longrightarrow> \<exists>st'. answer c v st = (Ok (), st') \<and> loop_ok reqs lis st' (c # cs)"
  by (simp add: answer_def loop_ok_def)

lemma loop_ok_event:
  "loop_ok reqs lis st cs \<Longrightarrow> \<exists>st'. send_event e st = (Ok (), st') \<and> loop_ok reqs lis st' cs"
  by (simp add: send_event_def loop_ok_def)

lemma loop_ok_swarm:
  "loop_ok reqs lis st cs \<Longrightarrow> keeps_ids reqs lis (swarm st) w \<Longrightarrow> loop_ok reqs lis (st\<lparr>swarm := w\<rparr>) cs"
  by (simp add: loop_ok_def keeps_ids_def)

lemma loop_ok_mset: "loop_ok reqs lis st cs \<Longrightarrow> mset cs = mset cs' \<Longrightarrow> loop_ok reqs lis st cs'"
  by (simp add: loop_ok_def)

lemma answer_request_ok:
  assumes "loop_ok reqs lis st cs"
  shows "\<exists>st'. answer_request i v st = (Ok (), st') \<and> loop_ok reqs lis st' cs \<and>
    swarm st' = swarm st \<and> pending_rpc_requests st' = snd (hm_remove i (pending_rpc_requests st)) \<and>
    answers st' = answers st @ (case map_of (pending_rpc_requests st) i of
      None \<Rightarrow> [] | Some c \<Rightarrow> [(c, RpcAnswer v)])"
proof (cases "hm_remove i (pending_rpc_requests st)")
  case (Pair o' m)
  show ?thesis
  proof (cases o')
    case None
    then have "m = pending_rpc_requests st" using Pair hm_remove_None by simp
    moreover have "map_of (pending_rpc_requests st) i = None" using Pair None by (simp add: hm_remove_def)
    ultimately show ?thesis using assms Pair None by (simp add: answer_request_def)
  next
    case (Some c)
    then have rm: "map_ok_ids (reqs (swarm st)) m"
        "mset (map snd (pending_rpc_requests st)) = add_mset c (mset (map snd m))"
      using hm_remove_Some [of "reqs (swarm st)" "pending_rpc_requests st" i c m] assms Pair
      by (simp_all add: loop_ok_def)
    have "map_of (pending_rpc_requests st) i = Some c" using Pair Some by (simp add: hm_remove_def)
    with assms Pair Some rm show ?thesis
      by (auto simp: answer_request_def answer_def loop_ok_def)
  qed
qed

lemma answer_request_keeps:
  "loop_ok reqs lis st cs \<Longrightarrow>
     \<exists>st'. answer_request i v st = (Ok (), st') \<and> loop_ok reqs lis st' cs"
  using answer_request_ok by blast

lemma new_listen_addr_ok:
  assumes "loop_ok reqs lis st cs"
  shows "\<exists>st'. handle_swarm_event sw (SwNewListenAddr a i) st = (Ok (), st') \<and> loop_ok reqs lis st' cs"
proof (cases "hm_remove i (listener_requests st)")
  case (Pair o' m)
  show ?thesis
  proof (cases o')
    case None
    then have "m = listener_requests st" using Pair hm_remove_None by simp
    then show ?thesis using assms Pair None by (auto simp: send_event_def loop_ok_def)
  next
    case (Some c)
    then have "map_ok_ids (lis (swarm st)) m"
        "mset (map snd (listener_requests st)) = add_mset c (mset (map snd m))"
      using hm_remove_Some [of "lis (swarm st)" "listener_requests st" i c m] assms Pair
      by (simp_all add: loop_ok_def)
    with assms Pair Some show ?thesis
      by (auto simp: answer_def send_event_def loop_ok_def)
  qed
qed

lemma fold_add_address:
  assumes "swarm_ids_ok sw reqs lis"
  shows "keeps_ids reqs lis w (fold (kad_add_address sw p) as w)"
proof (induction as arbitrary: w)
  case (Cons a as)
  show ?case using keeps_ids_trans [OF others_keep(4) [OF assms] Cons.IH] by simp
qed simp

lemma swarm_event_ok:
  assumes "swarm_ids_ok sw reqs lis" and ok: "loop_ok reqs lis st cs"
  shows "\<exists>st'. handle_swarm_event sw e st = (Ok (), st') \<and> loop_ok reqs lis st' cs"
proof (cases e)
  case (SwNewListenAddr a i)
  then show ?thesis using new_listen_addr_ok [OF ok] by simp
next
  case (SwIdentifyReceived p as ps)
  then show ?thesis using loop_ok_swarm [OF ok] fold_add_address [OF assms(1)] by simp
qed (use ok in \<open>simp_all add: loop_ok_event answer_request_keeps\<close>)

lemma listen_ok:
  assumes ids: "swarm_ids_ok sw reqs lis" and ok: "loop_ok reqs lis st cs"
  shows "\<exists>st'. handle_command sw (Listen a c) st = (Ok (), st') \<and> loop_ok reqs lis st' (c # cs)"
proof -
  obtain r w where l: "listen_on sw a (swarm st) = (r, w)" by fastforce
  show ?thesis
  proof (cases r)
    case (Inl e)
    have "loop_ok reqs lis (st\<lparr>swarm := w\<rparr>) cs"
      using loop_ok_swarm [OF ok] listen_on_ids [OF ids, of "swarm st" a] l Inl by simp
    then show ?thesis using loop_ok_answer l Inl by simp
  next
    case (Inr i)
    then have "i \<notin> lis (swarm st)" "lis w = insert i (lis (swarm st))" "reqs w = reqs (swarm st)"
      using listen_on_ids [OF ids, of "swarm st" a] l by simp_all
    then show ?thesis
      using hm_insert_fresh [of "lis (swarm st)" "listener_requests st" i c] l Inr ok
      by (simp add: loop_ok_def)
  qed
qed

lemma command_ok:
  assumes ids: "swarm_ids_ok sw reqs lis" and ok: "loop_ok reqs lis st cs"
  shows "\<exists>st'. handle_command sw c st = (Ok (), st') \<and> loop_ok reqs lis st' (command_chans c @ cs)"
proof (cases c)
  case (Listen a ch)
  then show ?thesis using listen_ok [OF ids ok] by simp
next
  case (RpcRequest p q ch)
  obtain i w where s: "send_request sw p q (swarm st) = (i, w)" by fastforce
  then show ?thesis
    using send_request_fresh [OF ids s] hm_insert_fresh [of "reqs (swarm st)" "pending_rpc_requests st" i ch]
      RpcRequest ok by (simp add: loop_ok_def)
next
  case (PublishGossip t m ch)
  obtain r w where p: "publish sw t m (swarm st) = (r, w)" by fastforce
  then have "loop_ok reqs lis (st\<lparr>swarm := w\<rparr>) cs"
    using loop_ok_swarm [OF ok others_keep(2) [OF ids, of _ t m]] by simp
  then show ?thesis using loop_ok_answer PublishGossip p by simp
next
  case (SubscribeGossip t ch)
  obtain r w where p: "subscribe sw t (swarm st) = (r, w)" by fastforce
  then have "loop_ok reqs lis (st\<lparr>swarm := w\<rparr>) cs"
    using loop_ok_swarm [OF ok others_keep(3) [OF ids, of _ t]] by simp
  then show ?thesis using loop_ok_answer SubscribeGossip p by simp
next
  case (RpcResponse v ch)
  then show ?thesis using loop_ok_swarm [OF ok others_keep(1) [OF ids]] by simp
qed (simp_all add: loop_ok_answer ok)

lemma add_bootstrap_peers_keep:
  assumes "swarm_ids_ok sw reqs lis"
  shows "add_bootstrap_peers sw ps w = (r, w') \<Longrightarrow> r \<noteq> Panic \<and> keeps_ids reqs lis w w'"
proof (induction ps arbitrary: w)
  case (Cons a ps)
  show ?case
  proof (cases "a = []")
    case False
    with Cons show ?thesis
      by (cases "last a") (auto split: sum.splits intro: keeps_ids_trans [OF others_keep(4) [OF assms]])
  qed (use Cons.prems in auto)
qed auto

lemma bootstrap_keep:
  assumes ids: "swarm_ids_ok sw reqs lis" and "bootstrap sw ps w = (r, w')"
  shows "r \<noteq> Panic \<and> keeps_ids reqs lis w w'"
proof -
  obtain r1 w1 where 1: "add_bootstrap_peers sw ps w = (r1, w1)" by fastforce
  obtain r2 w2 where 2: "kad_bootstrap sw w1 = (r2, w2)" by fastforce
  define w3 where "w3 = (if ps \<noteq> [] then w2 else w1)"
  obtain r4 w4 where 4: "kad_start_providing sw KAD_PEER_KEY w3 = (r4, w4)" by fastforce
  have k: "keeps_ids reqs lis w1 w2" "keeps_ids reqs lis w3 w4"
    using others_keep(5) [OF ids, of w1] others_keep(6) [OF ids, of w3] 2 4 by (metis snd_conv)+
  have "r \<noteq> Panic \<and> (w' = w1 \<or> w' = w2 \<or> w' = w4 \<or> w' = kad_get_providers sw KAD_PEER_KEY w4)"
    using assms add_bootstrap_peers_keep [OF ids 1] 1 2 4 unfolding bootstrap_def w3_def
    by (cases r1; cases r2; cases r4; cases "ps = []") (auto simp del: add_bootstrap_peers.simps)
  then show ?thesis
    using add_bootstrap_peers_keep [OF ids 1] k others_keep(7) [OF ids, of w4 KAD_PEER_KEY]
    by (auto simp: w3_def keeps_ids_def split: if_splits)
qed

lemma step_ok:
  assumes ids: "swarm_ids_ok sw reqs lis" and ok: "loop_ok reqs lis st cs"
  shows "\<exists>st'. loop_step sw ps i st = (Ok (i \<noteq> ShutdownInput), st') \<and> loop_ok reqs lis st' (input_chans i @ cs)"
proof (cases i)
  case (SwarmInput e)
  then show ?thesis using swarm_event_ok [OF assms, of e] by auto
next
  case (CommandInput c)
  then show ?thesis using command_ok [OF assms, of c] by auto
next
  case IntervalTick
  obtain r w where b: "bootstrap sw ps (swarm st) = (r, w)" by fastforce
  then have "loop_ok reqs lis (st\<lparr>swarm := w\<rparr>) cs" "r \<noteq> Panic"
    using bootstrap_keep [OF ids b] loop_ok_swarm [OF ok] by simp_all
  with b IntervalTick show ?thesis by (cases r) simp_all
qed (use ok in simp)

lemma run_ok:
  assumes ids: "swarm_ids_ok sw reqs lis" and "loop_ok reqs lis st cs"
  shows "\<exists>st'. loop_run sw ps inputs st = (Ok (tl (dropWhile (\<lambda>i. i \<noteq> ShutdownInput) inputs)), st') \<and>
    loop_ok reqs lis st' (concat (map input_chans (takeWhile (\<lambda>i. i \<noteq> ShutdownInput) inputs)) @ cs)"
  using assms(2)
proof (induction inputs arbitrary: st cs)
  case (Cons i inputs)
  obtain st1 where 1: "loop_step sw ps i st = (Ok (i \<noteq> ShutdownInput), st1)"
      "loop_ok reqs lis st1 (input_chans i @ cs)"
    using step_ok [OF ids Cons.prems] by blast
  show ?case
  proof (cases "i = ShutdownInput")
    case False
    obtain st2 where 2: "loop_run sw ps inputs st1 = (Ok (tl (dropWhile (\<lambda>i. i \<noteq> ShutdownInput) inputs)), st2)"
        "loop_ok reqs lis st2
           (concat (map input_chans (takeWhile (\<lambda>i. i \<noteq> ShutdownInput) inputs)) @ input_chans i @ cs)"
      using Cons.IH [OF 1(2)] by blast
    have "loop_ok reqs lis st2
        ((input_chans i @ concat (map input_chans (takeWhile (\<lambda>i. i \<noteq> ShutdownInput) inputs))) @ cs)"
      by (rule loop_ok_mset [OF 2(2)]) simp
    with 1(1) 2(1) False show ?thesis by simp
  qed (use 1 in simp)
qed simp

lemma loop_ok_init: "loop_ok reqs lis (loop_init w) []"
  by (simp add: loop_ok_def loop_init_def map_ok_ids_def)

section \<open>Correlation of responses\<close>




lemma answer_pending [simp]: "pending_rpc_requests (snd (answer c v st)) = pending_rpc_requests st"
  by (simp add: answer_def)

lemma send_event_pending [simp]: "pending_rpc_requests (snd (send_event e st)) = pending_rpc_requests st"
  by (simp add: send_event_def)







section \<open>Every command is answered once\<close>

text \<open>A swarm that numbers its requests and its listeners.\<close>

definition sample_swarm :: "(nat, nat, nat \<times> nat) swarm_ops" where
  "sample_swarm =
     \<lparr>all_peers = (\<lambda>_. []), listen_on = (\<lambda>a (r, l). if a = [] then (Inl ''no address'', (r, l)) else (Inr l, (r, l + 1))),
      listeners = (\<lambda>_. []), local_peer_id = (\<lambda>_. [7]), swarm_connected_peers = (\<lambda>_. []),
      send_request = (\<lambda>_ _ (r, l). (r, (r + 1, l))), send_response = (\<lambda>_ _ w. (True, w)),
      publish = (\<lambda>_ _ w. (Inl ''InsufficientPeers'', w)), subscribe = (\<lambda>_ w. (Inr True, w)),
      kad_add_address = (\<lambda>_ _ w. w), kad_bootstrap = (\<lambda>w. (None, w)),
      kad_start_providing = (\<lambda>_ w. (None, w)), kad_get_providers = (\<lambda>_ w. w),
      peer_id_from_multihash = Inr, DEFAULT_PROTO_NAME = ''/ipfs/kad/1.0.0''\<rparr>"

abbreviation sample_reqs :: "nat \<times> nat \<Rightarrow> nat set" where "sample_reqs \<equiv> \<lambda>w. {..<fst w}"

abbreviation sample_lis :: "nat \<times> nat \<Rightarrow> nat set" where "sample_lis \<equiv> \<lambda>w. {..<snd w}"

lemma sample_swarm_ids: "swarm_ids_ok sample_swarm sample_reqs sample_lis"
  by (simp add: swarm_ids_ok_def sample_swarm_def keeps_ids_def lessThan_Suc split: prod.split)

lemmas sample_swarm_eval = sample_swarm_def loop_init_def hm_insert_def hm_remove_def answer_def
  send_event_def answer_request_def

text \<open>
  C29: As long as no client drops the future it awaits, the event loop never panics whatever commands
  and swarm events arrive, stops exactly at the first shutdown request, and has then answered or
  still holds each reply channel of the commands it handled: the channels answered, those of pending
  requests and those of pending listeners are together those of the commands, each as often as it
  was handed in. No reply is lost and none is given twice.
\<close>

theorem event_loop_answers_once:
  assumes "swarm_ids_ok sw reqs lis"
  shows "\<exists>st. loop_run sw peers inputs (loop_init w) =
      (Ok (tl (dropWhile (\<lambda>i. i \<noteq> ShutdownInput) inputs)), st) \<and>
    mset (map fst (answers st)) + mset (map snd (pending_rpc_requests st)) +
      mset (map snd (listener_requests st)) =
    mset (concat (map input_chans (takeWhile (\<lambda>i. i \<noteq> ShutdownInput) inputs)))"
  using run_ok [OF assms loop_ok_init, of peers inputs w] by (auto simp: loop_ok_def)

theorem event_loop_answers_once_witness:
  "\<exists>st. loop_run sample_swarm []
       [CommandInput (RpcRequest [1] 5 10), CommandInput (PeerList 11), SwarmInput (SwResponse 0 6),
        CommandInput (Listen [P2p [1]] 12), ShutdownInput, CommandInput (PeerList 13)]
       (loop_init (0, 0)) = (Ok [CommandInput (PeerList 13)], st) \<and>
     mset (map fst (answers st)) + mset (map snd (pending_rpc_requests st)) +
       mset (map snd (listener_requests st)) = {#10, 11, 12#}"
  using event_loop_answers_once [OF sample_swarm_ids, of "[]"
    "[CommandInput (RpcRequest [1] 5 10), CommandInput (PeerList 11), SwarmInput (SwResponse 0 6),
      CommandInput (Listen [P2p [1]] 12), ShutdownInput, CommandInput (PeerList 13)]" "(0, 0)"]
  by simp



section \<open>What the loop does not tolerate\<close>

text \<open>A client that drops its future before the answer arrives makes the whole loop panic.\<close>

lemma dropped_receiver_panics:
  "fst (loop_run sample_swarm []
     [CommandInput (RpcRequest [1] 5 10), SwarmInput (SwResponse 0 6)]
     ((loop_init (0, 0))\<lparr>dropped_receivers := {10}\<rparr>)) = Panic"
  by (simp add: sample_swarm_eval)

text \<open>
  The addresses of a peer that identifies itself with the Kademlia protocol of this program are not
  added to the routing table, when the library's default protocol name is a different one.
\<close>

lemma identify_ignores_own_protocol:
  "DEFAULT_PROTO_NAME sw \<noteq> KADEMLIA_PROTO_NAME \<Longrightarrow>
     handle_swarm_event sw (SwIdentifyReceived p addrs [KADEMLIA_PROTO_NAME]) st = (Ok (), st)"
  by simp

end
