(* ===== verification/Server_Main.thy ===== *)
theory Server_Main
  imports P2P_Server Sqlite_Instance Synchronized_System Net_Event_Loop
begin

text \<open>
  How the server is put together: the command line option with the minimum quote sizes
  (\<open>server/src/config.rs\<close>), the construction of the network (\<open>p2p/src/behaviour.rs\<close>,
  \<open>p2p/src/network_builder.rs\<close>, \<open>P2P::new\<close>), the gRPC server (\<open>server/src/grpc_server.rs\<close>), starting
  and stopping the server (\<open>server/src/server.rs\<close>), and \<open>main\<close> (\<open>server/src/bin/main.rs\<close>), which
  stacks the synchronized book on the persistent one on the in-memory one. The property is that the
  minimum sizes given on the command line hold for every quote a client submits.
\<close>

section \<open>The minimum sizes on the command line\<close>

text \<open>\<open>str::find\<close> for a character, and \<open>u64::from_str\<close>.\<close>

definition str_find :: "char \<Rightarrow> string \<Rightarrow> nat option" where
  "str_find c s = (if c \<in> set s then Some (length (takeWhile (\<lambda>x. x \<noteq> c) s)) else None)"

definition is_digit :: "char \<Rightarrow> bool" where
  "is_digit c \<longleftrightarrow> 48 \<le> (of_char c :: nat) \<and> (of_char c :: nat) \<le> 57"

fun parse_digits :: "nat \<Rightarrow> string \<Rightarrow> (u64, string) result" where
  "parse_digits acc [] = Ok (of_nat acc)"
| "parse_digits acc (c # cs) =
     (if \<not> is_digit c then Err ''invalid digit found in string''
      else if 2 ^ 64 \<le> acc * 10 + (of_char c - 48) then Err ''number too large to fit in target type''
      else parse_digits (acc * 10 + (of_char c - 48)) cs)"

fun u64_from_str :: "string \<Rightarrow> (u64, string) result" where
  "u64_from_str [] = Err ''cannot parse integer from empty string''"
| "u64_from_str (c # cs) =
     (if cs = [] \<and> (c = CHR ''+'' \<or> c = CHR ''-'') then Err ''invalid digit found in string''
      else if c = CHR ''+'' then parse_digits 0 cs else parse_digits 0 (c # cs))"

definition parse_key_val ::
  "(string \<Rightarrow> ('k, string) result) \<Rightarrow> (string \<Rightarrow> ('v, string) result) \<Rightarrow> string \<Rightarrow> ('k \<times> 'v, string) result" where
  "parse_key_val key_from_str val_from_str s =
     and_then (ok_or (''invalid KEY=value: no `=` found in `'' @ s @ ''`'') (str_find CHR ''='' s)) (\<lambda>pos.
     and_then (key_from_str (take pos s)) (\<lambda>k.
     and_then (val_from_str (drop (pos + 1) s)) (\<lambda>v. Ok (k, v))))"

text \<open>Collecting pairs into a hash map: the last one given for a key counts.\<close>

definition quote_minimum_map :: "(token_id \<times> u64) list \<Rightarrow> (token_id \<rightharpoonup> u64)" where
  "quote_minimum_map quote_minimum_tuples = fold (\<lambda>(k, v) m. m(k \<mapsto> v)) quote_minimum_tuples Map.empty"

section \<open>Building the network\<close>

type_synonym keypair = bytes

record behaviour =
  bh_local_key :: keypair
  bh_gossipsub_prefix :: string
  bh_kademlia_protocol :: string
  bh_identify_protocol :: string
  bh_rpc_protocol :: string

text \<open>What the construction uses of libp2p; \<open>spawn_swarm\<close> builds the swarm and starts the event loop
  on it.\<close>

record 'n net_lib =
  generate_ed25519 :: keypair
  gossipsub_config_build :: "string \<Rightarrow> (unit, string) result"
  gossipsub_new :: "keypair \<Rightarrow> (unit, string) result"
  dns_config_system :: "(unit, string) result"
  noise_authenticated_xx :: "keypair \<Rightarrow> (unit, string) result"
  multiaddr_from_str :: "string \<Rightarrow> (multiaddr, string) result"
  spawn_swarm :: "behaviour \<Rightarrow> multiaddr list \<Rightarrow> multiaddr list \<Rightarrow> 'n"

definition IDENTIFY_PROTO_NAME :: string where
  "IDENTIFY_PROTO_NAME = ''/mc/deqs/ide/1.0.0''"

definition GOSSIPSUB_PROTO_ID_PREFIX :: string where
  "GOSSIPSUB_PROTO_ID_PREFIX = ''mc/deqs/gossipsub''"

definition rpc_protocol_name :: string where
  "rpc_protocol_name = ''/mc/deqs/p2p/rpc''"

definition create_gossipsub :: "'n net_lib \<Rightarrow> keypair \<Rightarrow> (unit, p2p_error) result" where
  "create_gossipsub nl local_key =
     and_then (map_err GossipsubBuild (gossipsub_config_build nl GOSSIPSUB_PROTO_ID_PREFIX)) (\<lambda>_.
       map_err GossipsubNew (gossipsub_new nl local_key))"

definition behaviour_new :: "'n net_lib \<Rightarrow> keypair \<Rightarrow> (behaviour, p2p_error) result" where
  "behaviour_new nl local_key =
     and_then (create_gossipsub nl local_key) (\<lambda>_.
       Ok \<lparr>bh_local_key = local_key, bh_gossipsub_prefix = GOSSIPSUB_PROTO_ID_PREFIX,
           bh_kademlia_protocol = KADEMLIA_PROTO_NAME, bh_identify_protocol = IDENTIFY_PROTO_NAME,
           bh_rpc_protocol = rpc_protocol_name\<rparr>)"

record network_builder =
  nb_keypair :: keypair
  nb_listen_address :: multiaddr
  nb_external_addresses :: "multiaddr list"
  nb_behaviour :: behaviour
  nb_bootstrap_peers :: "multiaddr list"

definition default_listen_address :: "'n net_lib \<Rightarrow> (multiaddr, p2p_error) result" where
  "default_listen_address nl = map_err MultiaddrError (multiaddr_from_str nl ''/ip4/127.0.0.1/tcp/0'')"

definition default_transport :: "'n net_lib \<Rightarrow> keypair \<Rightarrow> (unit, p2p_error) result" where
  "default_transport nl keypair =
     and_then (map_err Io (dns_config_system nl)) (\<lambda>_.
     and_then (map_err Io (dns_config_system nl)) (\<lambda>_.
       map_err Noise (noise_authenticated_xx nl keypair)))"

definition network_builder_new ::
  "'n net_lib \<Rightarrow> keypair \<Rightarrow> behaviour \<Rightarrow> multiaddr list \<Rightarrow> (network_builder, p2p_error) result" where
  "network_builder_new nl keypair bh bootstrap_peers =
     and_then (default_transport nl keypair) (\<lambda>_.
     and_then (default_listen_address nl) (\<lambda>listen_address.
       Ok \<lparr>nb_keypair = keypair, nb_listen_address = listen_address, nb_external_addresses = [],
           nb_behaviour = bh, nb_bootstrap_peers = bootstrap_peers\<rparr>))"

definition set_listen_address :: "multiaddr \<Rightarrow> network_builder \<Rightarrow> network_builder" where
  "set_listen_address address nb = nb\<lparr>nb_listen_address := address\<rparr>"

definition set_external_addresses :: "multiaddr list \<Rightarrow> network_builder \<Rightarrow> network_builder" where
  "set_external_addresses addresses nb = nb\<lparr>nb_external_addresses := addresses\<rparr>"

definition network_build ::
  "'n net_lib \<Rightarrow> ('req, 'resp, 'n) client_env \<Rightarrow> network_builder \<Rightarrow> ('n, p2p_error) result" where
  "network_build nl env nb =
     (let n = spawn_swarm nl (nb_behaviour nb) (nb_external_addresses nb) (nb_bootstrap_peers nb);
          (r, n) = listen env (nb_listen_address nb) n
      in map_ok (\<lambda>_. n) (map_err ClientError r))"

definition p2p_new ::
  "'n net_lib \<Rightarrow> (request, response, 'n) client_env \<Rightarrow> rpc_metrics \<Rightarrow> 'b \<Rightarrow> multiaddr list \<Rightarrow>
     multiaddr option \<Rightarrow> multiaddr option \<Rightarrow> keypair option \<Rightarrow> (('b, 'n) p2p, server_error) result" where
  "p2p_new nl env metrics book bootstrap_peers listen_addr external_addr keypair =
     (let keypair = (case keypair of Some k \<Rightarrow> k | None \<Rightarrow> generate_ed25519 nl)
      in and_then (map_err ServerP2P (behaviour_new nl keypair)) (\<lambda>bh.
         and_then (map_err ServerP2P (network_builder_new nl keypair bh bootstrap_peers)) (\<lambda>nb.
           let nb = (case listen_addr of Some a \<Rightarrow> set_listen_address a nb | None \<Rightarrow> nb);
               nb = (case external_addr of Some a \<Rightarrow> set_external_addresses [a] nb | None \<Rightarrow> nb)
           in and_then (map_err ServerP2P (network_build nl env nb)) (\<lambda>n.
              case subscribe_gossip env MSG_BUS_TOPIC n of (r, n) \<Rightarrow>
              and_then (map_err ServerP2PClient r) (\<lambda>_.
                Ok \<lparr>p2p_book = book, p2p_net = n, p2p_metrics = metrics, p2p_sync_tasks = []\<rparr>)))))"

definition p2p_listen_addrs ::
  "(request, response, 'n) client_env \<Rightarrow> ('b, 'n) p2p \<Rightarrow>
     (multiaddr list, server_error) result \<times> ('b, 'n) p2p" where
  "p2p_listen_addrs env st =
     (case listen_addrs env (p2p_net st) of (r, n) \<Rightarrow> (map_err ServerP2PClient r, st\<lparr>p2p_net := n\<rparr>))"

section \<open>The gRPC server\<close>

record client_uri =
  uri_host :: string
  uri_port :: nat

record grpc_lib =
  server_builder_build :: "(unit, string) result"
  add_listening_port :: "client_uri \<Rightarrow> (nat, string) result"
  grpcio_shutdown :: "(unit, string) result"

text \<open>The book and the sender of the bus are those of the client service. \<open>gs_server\<close> says whether a
  server is held.\<close>

record 'b grpc_server =
  gs_service :: "'b client_service"
  gs_client_listen_uri :: client_uri
  gs_server :: bool
  gs_quote_minimum_map :: "token_id \<rightharpoonup> u64"
  gs_actual_listen_uri :: "client_uri option"

definition grpc_server_new ::
  "'b client_service \<Rightarrow> client_uri \<Rightarrow> (token_id \<rightharpoonup> u64) \<Rightarrow> 'b grpc_server" where
  "grpc_server_new service uri minimum_map =
     \<lparr>gs_service = service, gs_client_listen_uri = uri, gs_server = False,
      gs_quote_minimum_map = minimum_map, gs_actual_listen_uri = None\<rparr>"

definition start_client_rpc_server ::
  "grpc_lib \<Rightarrow> 'b grpc_server \<Rightarrow> (unit, server_error) result \<times> 'b grpc_server" where
  "start_client_rpc_server g gs =
     then_do (map_err ServerGrpc (server_builder_build g), gs) (\<lambda>_ gs.
     then_do (map_err ServerGrpc (add_listening_port g (gs_client_listen_uri gs)), gs) (\<lambda>port gs.
       (Ok (), gs\<lparr>gs_server := True,
          gs_actual_listen_uri := Some ((gs_client_listen_uri gs)\<lparr>uri_port := port\<rparr>)\<rparr>)))"

definition grpc_stop :: "grpc_lib \<Rightarrow> 'b grpc_server \<Rightarrow> (unit, server_error) result \<times> 'b grpc_server" where
  "grpc_stop g gs =
     (if gs_server gs
      then (case grpcio_shutdown g of Ok _ \<Rightarrow> Ok () | _ \<Rightarrow> Panic, gs\<lparr>gs_server := False\<rparr>)
      else (Ok (), gs))"

definition grpc_start :: "grpc_lib \<Rightarrow> 'b grpc_server \<Rightarrow> (unit, server_error) result \<times> 'b grpc_server" where
  "grpc_start g gs =
     (case start_client_rpc_server g gs of
        (Err err, gs) \<Rightarrow> then_do (grpc_stop g gs) (\<lambda>_ gs. (Err err, gs))
      | out \<Rightarrow> out)"

section \<open>Starting and stopping the server\<close>

record ('b, 'n) server_handle =
  sh_loop :: "('b, 'n) server"
  sh_grpc_server :: "'b grpc_server"
  sh_p2p_listen_addrs :: "multiaddr list"

definition server_start ::
  "'n net_lib \<Rightarrow> (request, response, 'n) client_env \<Rightarrow> grpc_lib \<Rightarrow> rpc_metrics \<Rightarrow> 'b \<Rightarrow> client_uri \<Rightarrow>
     multiaddr list \<Rightarrow> multiaddr option \<Rightarrow> multiaddr option \<Rightarrow> keypair option \<Rightarrow>
     (token_id \<times> u64) list \<Rightarrow> (('b, 'n) server_handle, server_error) result" where
  "server_start nl env g metrics book grpc_listen_address bootstrap_peers listen_address
     external_address keypair quote_minimum_tuples =
     and_then (p2p_new nl env metrics book bootstrap_peers listen_address external_address keypair)
       (\<lambda>p2p. case p2p_listen_addrs env p2p of (r, p2p) \<Rightarrow>
     and_then r (\<lambda>p2p_listen_addrs.
       let gs = grpc_server_new \<lparr>cs_quote_book = book, cs_bus = [], cs_bus_open = True\<rparr>
                  grpc_listen_address (quote_minimum_map quote_minimum_tuples)
       in case grpc_start g gs of
            (Ok _, gs) \<Rightarrow>
              Ok \<lparr>sh_loop = \<lparr>srv_p2p = p2p, SCI_COUNT = 0, P2P_NUM_CONNECTED_PEERS = 0\<rparr>,
                  sh_grpc_server = gs, sh_p2p_listen_addrs = p2p_listen_addrs\<rparr>
          | _ \<Rightarrow> Panic))"

text \<open>
  \<open>shutdown\<close> sends the signal, which fails when the loop is over, and otherwise waits until the loop
  ends. \<open>inputs\<close> are those the loop takes up before the signal.
\<close>

definition server_shutdown ::
  "mc_lib \<Rightarrow> p2p_lib \<Rightarrow> 'b quote_book_ops \<Rightarrow> (request, response, 'n) client_env \<Rightarrow>
     (int \<times> server_input) list \<Rightarrow> int \<Rightarrow> bool \<Rightarrow> ('b, 'n) server \<Rightarrow> (unit, unit) result \<times> ('b, 'n) server" where
  "server_shutdown lib plib ops env inputs now loop_running sv =
     (if \<not> loop_running then (Ok (), sv)
      else case server_loop lib plib ops env (inputs @ [(now, Shutdown)]) sv of
             (r, sv) \<Rightarrow> (map_ok (\<lambda>_. ()) r, sv))"

definition grpc_listen_uri :: "('b, 'n) server_handle \<Rightarrow> client_uri option" where
  "grpc_listen_uri sh = gs_actual_listen_uri (sh_grpc_server sh)"

section \<open>The main function\<close>

record server_config =
  cfg_client_listen_uri :: client_uri
  cfg_admin_listen_uri :: "string option"
  cfg_p2p_bootstrap_peers :: "multiaddr list"
  cfg_p2p_listen :: "multiaddr option"
  cfg_p2p_external_address :: "multiaddr option"
  cfg_p2p_keypair_path :: "string option"
  cfg_quote_minimum_map :: "(token_id \<times> u64) list"

text \<open>Reading a file, decoding a key and starting the admin server.\<close>

record main_lib =
  fs_read :: "string \<Rightarrow> (bytes, string) result"
  keypair_from_protobuf :: "bytes \<Rightarrow> (keypair, string) result"
  admin_server_start :: "string \<Rightarrow> (unit, string) result"

datatype main_error = MainIo string | MainDecode string | MainServer server_error

type_synonym ('d, 'l) deployed_book = "('d \<times> in_memory_quote_book, 'l) sync_book"

definition persistent_ops ::
  "mc_lib \<Rightarrow> sci_codec \<Rightarrow> ('d, in_memory_quote_book) sql_engine \<Rightarrow>
     ('d \<times> in_memory_quote_book) quote_book_ops" where
  "persistent_ops lib codec eng = sqlite_ops lib codec eng (in_memory_ops lib)"

definition deployed_ops ::
  "mc_lib \<Rightarrow> sci_codec \<Rightarrow> ('d, in_memory_quote_book) sql_engine \<Rightarrow> 'l ledger_ops \<Rightarrow>
     ('d, 'l) deployed_book quote_book_ops" where
  "deployed_ops lib codec eng ldg = sync_ops ldg (persistent_ops lib codec eng)"

fun read_keypair :: "main_lib \<Rightarrow> string option \<Rightarrow> (keypair option, main_error) result" where
  "read_keypair ml None = Ok None"
| "read_keypair ml (Some path) =
     and_then (map_err MainIo (fs_read ml path)) (\<lambda>bytes.
       map_ok Some (map_err MainDecode (keypair_from_protobuf ml bytes)))"

definition server_main ::
  "mc_lib \<Rightarrow> sci_codec \<Rightarrow> ('d, in_memory_quote_book) sql_engine \<Rightarrow> 'l ledger_ops \<Rightarrow> 'n net_lib \<Rightarrow>
     (request, response, 'n) client_env \<Rightarrow> grpc_lib \<Rightarrow> main_lib \<Rightarrow> rpc_metrics \<Rightarrow> server_config \<Rightarrow> 'd \<Rightarrow> 'l \<Rightarrow>
     (('d \<times> in_memory_quote_book, 'l) sync_system \<times> (('d, 'l) deployed_book, 'n) server_handle,
      main_error) result" where
  "server_main lib codec eng ldg nl env g ml metrics config db ledger_db =
     and_then (expect (num_blocks ldg ledger_db)) (\<lambda>num_blocks.
     if num_blocks = 0 then Panic
     else
       and_then (read_keypair ml (cfg_p2p_keypair_path config)) (\<lambda>keypair.
       case sqlite_new codec eng (in_memory_ops lib) (db, in_memory_default) of
         (r, internal_quote_book) \<Rightarrow>
       and_then (expect r) (\<lambda>_.
       let system = sync_start internal_quote_book ledger_db
       in and_then (case cfg_admin_listen_uri config of None \<Rightarrow> Ok ()
                    | Some uri \<Rightarrow> expect (admin_server_start ml uri)) (\<lambda>_.
          and_then (map_err MainServer (server_start nl env g metrics (sys_view system)
              (cfg_client_listen_uri config) (cfg_p2p_bootstrap_peers config) (cfg_p2p_listen config)
              (cfg_p2p_external_address config) keypair (cfg_quote_minimum_map config)))
            (\<lambda>deqs_server. Ok (system, deqs_server))))))"

section \<open>Lemmas on the command line option\<close>

lemma digit_char:
  assumes "d < 10"
  shows "is_digit (char_of (48 + d))" and "of_char (char_of (48 + d) :: char) = 48 + (d :: nat)"
  using assms by (simp_all add: is_digit_def)

lemma parse_digits_show: "n < 2 ^ 64 \<Longrightarrow> parse_digits 0 (show_nat n @ cs) = parse_digits n cs"
proof (induction n arbitrary: cs rule: show_nat.induct)
  case (1 n)
  show ?case
  proof (cases "n < 10")
    case True
    then show ?thesis using 1(2) digit_char [of n] by (simp add: show_nat.simps [of n])
  next
    case False
    have "parse_digits 0 (show_nat n @ cs) = parse_digits (n div 10) (char_of (48 + n mod 10) # cs)"
      using 1(1) [OF False, of "char_of (48 + n mod 10) # cs"] 1(2) False
      by (simp add: show_nat.simps [of n])
    then show ?thesis
      using 1(2) digit_char [of "n mod 10"] by simp
  qed
qed

lemma show_nat_digits: "c \<in> set (show_nat n) \<Longrightarrow> is_digit c"
proof (induction n rule: show_nat.induct)
  case (1 n)
  then show ?case
    by (cases "n < 10") (auto simp: show_nat.simps [of n] digit_char)
qed

lemma show_nat_not_Nil: "show_nat n \<noteq> []"
  by (simp add: show_nat.simps [of n])

lemma u64_from_str_show: "u64_from_str (show_u64 x) = Ok x"
proof -
  obtain c cs where s: "show_u64 x = c # cs"
    using show_nat_not_Nil by (metis neq_Nil_conv show_u64_def)
  then have "is_digit c" using show_nat_digits [of c "unat x"] by (simp add: show_u64_def)
  then have "u64_from_str (show_u64 x) = parse_digits 0 (show_nat (unat x) @ [])"
    using s by (auto simp: is_digit_def show_u64_def)
  also have "\<dots> = Ok x"
    using parse_digits_show [of "unat x" "[]"] unat_u64_less [of x] by simp
  finally show ?thesis .
qed

lemma parse_key_val_show:
  assumes "key_from_str (show_u64 k) = Ok k'"
  shows "parse_key_val key_from_str u64_from_str (show_u64 k @ ''='' @ show_u64 v) = Ok (k', v)"
proof -
  have "\<forall>c\<in>set (show_u64 k). c \<noteq> CHR ''=''"
    using show_nat_digits by (fastforce simp: show_u64_def is_digit_def)
  then have "str_find CHR ''='' (show_u64 k @ ''='' @ show_u64 v) = Some (length (show_u64 k))"
    by (simp add: str_find_def takeWhile_append2)
  then show ?thesis
    using assms by (simp add: parse_key_val_def u64_from_str_show)
qed

lemma quote_minimum_map_eq: "quote_minimum_map ts k = map_of (rev ts) k"
proof -
  have "fold (\<lambda>(k, v) m. m(k \<mapsto> v)) ts m0 k = (m0 ++ map_of (rev ts)) k" for m0
    by (induction ts arbitrary: m0) (auto simp: map_add_def split: option.splits)
  then show ?thesis by (simp add: quote_minimum_map_def)
qed

lemma quote_minimum_map_last:
  assumes "i < length ts" and "ts ! i = (k, m)" and "k \<notin> fst ` set (drop (Suc i) ts)"
  shows "quote_minimum_map ts k = Some m"
proof -
  have ts: "ts = take i ts @ (k, m) # drop (Suc i) ts"
    using id_take_nth_drop [OF assms(1)] assms(2) by simp
  have "map_of (rev (drop (Suc i) ts)) k = None"
    using assms(3) by (simp add: map_of_eq_None_iff)
  then have "map_of (rev (take i ts @ (k, m) # drop (Suc i) ts)) k = Some m"
    by (simp add: map_add_def)
  then show ?thesis using ts quote_minimum_map_eq by metis
qed

lemma sci_validator_Ok:
  "sci_validator mm s = Ok () \<longleftrightarrow>
     (case mm (amount_token_id (pseudo_output_amount s)) of
        None \<Rightarrow> True | Some m \<Rightarrow> m \<le> amount_value (pseudo_output_amount s))"
  by (auto simp: sci_validator_def Let_def split: option.splits)

section \<open>Lemmas on starting\<close>

definition grpc_ready :: "grpc_lib \<Rightarrow> bool" where
  "grpc_ready g \<longleftrightarrow> is_ok (server_builder_build g) \<and> (\<forall>uri. is_ok (add_listening_port g uri))"

text \<open>The operating system gives what the network asks for and the event loop answers.\<close>

definition net_ready :: "'n net_lib \<Rightarrow> (request, response, 'n) client_env \<Rightarrow> bool" where
  "net_ready nl env \<longleftrightarrow>
     (\<forall>p. is_ok (gossipsub_config_build nl p)) \<and> (\<forall>k. is_ok (gossipsub_new nl k)) \<and>
     is_ok (dns_config_system nl) \<and> (\<forall>k. is_ok (noise_authenticated_xx nl k)) \<and>
     is_ok (multiaddr_from_str nl ''/ip4/127.0.0.1/tcp/0'') \<and>
     (\<forall>a n. is_ok (fst (listen env a n))) \<and> (\<forall>t n. is_ok (fst (subscribe_gossip env t n))) \<and>
     (\<forall>n. is_ok (fst (listen_addrs env n)))"

lemma is_ok_obtain: "is_ok r \<Longrightarrow> \<exists>a. r = Ok a"
  by (cases r) simp_all

lemma grpc_start_ready:
  assumes "grpc_ready g"
  shows "\<exists>gs'. grpc_start g gs = (Ok (), gs') \<and> gs_service gs' = gs_service gs \<and>
    gs_quote_minimum_map gs' = gs_quote_minimum_map gs \<and> gs_server gs'"
proof -
  obtain port where "add_listening_port g (gs_client_listen_uri gs) = Ok port"
    using assms is_ok_obtain unfolding grpc_ready_def by metis
  moreover have "server_builder_build g = Ok ()"
    using assms is_ok_obtain unfolding grpc_ready_def by fastforce
  ultimately show ?thesis
    by (simp add: grpc_start_def start_client_rpc_server_def)
qed

lemma grpc_start_Ok:
  assumes "fst (grpc_start g gs) = Ok u"
  shows "gs_service (snd (grpc_start g gs)) = gs_service gs"
    and "gs_quote_minimum_map (snd (grpc_start g gs)) = gs_quote_minimum_map gs"
  using assms
  by (cases "server_builder_build g"; cases "add_listening_port g (gs_client_listen_uri gs)";
      cases "grpc_stop g gs"; cases "fst (grpc_stop g gs)";
      auto simp: grpc_start_def start_client_rpc_server_def)+

lemma p2p_new_book: "p2p_new nl env metrics b peers la ea kp = Ok p \<Longrightarrow> p2p_book p = b"
  by (auto simp: p2p_new_def Let_def result_simps case_prod_beta)

lemma p2p_listen_addrs_book [simp]: "p2p_book (snd (p2p_listen_addrs env p)) = p2p_book p"
  by (simp add: p2p_listen_addrs_def case_prod_beta)

lemma server_start_Ok:
  assumes "server_start nl env g metrics b uri peers la ea kp tuples = Ok sh"
  shows "p2p_book (srv_p2p (sh_loop sh)) = b" and "gs_service (sh_grpc_server sh) = \<lparr>cs_quote_book = b, cs_bus = [], cs_bus_open = True\<rparr>"
    and "gs_quote_minimum_map (sh_grpc_server sh) = quote_minimum_map tuples"
proof -
  let ?gs = "grpc_server_new \<lparr>cs_quote_book = b, cs_bus = [], cs_bus_open = True\<rparr> uri
    (quote_minimum_map tuples)"
  obtain p where p: "p2p_new nl env metrics b peers la ea kp = Ok p"
    using assms by (auto simp: server_start_def result_simps)
  obtain addrs p' where a: "p2p_listen_addrs env p = (Ok addrs, p')"
    using assms p by (cases "p2p_listen_addrs env p") (auto simp: server_start_def result_simps)
  obtain gs' where gs: "grpc_start g ?gs = (Ok (), gs')"
    using assms p a
    by (cases "grpc_start g ?gs"; cases "fst (grpc_start g ?gs)") (auto simp: server_start_def Let_def)
  have "p2p_book p' = b"
    using p2p_listen_addrs_book [of env p] p2p_new_book [OF p] a by simp
  with assms p a gs grpc_start_Ok [of g ?gs "()"]
  show "p2p_book (srv_p2p (sh_loop sh)) = b" and "gs_service (sh_grpc_server sh) = \<lparr>cs_quote_book = b, cs_bus = [], cs_bus_open = True\<rparr>"
    and "gs_quote_minimum_map (sh_grpc_server sh) = quote_minimum_map tuples"
    by (auto simp: server_start_def grpc_server_new_def Let_def)
qed

lemma p2p_new_ready:
  assumes "net_ready nl env"
  shows "\<exists>p. p2p_new nl env metrics b peers la ea kp = Ok p"
proof -
  have ok: "\<exists>u. gossipsub_config_build nl p = Ok u" "\<exists>u. gossipsub_new nl k = Ok u"
      "\<exists>u. dns_config_system nl = Ok u" "\<exists>u. noise_authenticated_xx nl k = Ok u"
      "\<exists>a. multiaddr_from_str nl ''/ip4/127.0.0.1/tcp/0'' = Ok a"
      "\<exists>l n'. listen env a n = (Ok l, n')" "\<exists>x n'. subscribe_gossip env t n = (Ok x, n')"
    for p k a n t
    using assms is_ok_obtain unfolding net_ready_def by (metis prod.collapse)+
  have bh: "\<exists>bh. behaviour_new nl k = Ok bh" for k
    using ok(1) [of GOSSIPSUB_PROTO_ID_PREFIX] ok(2) [of k]
    by (auto simp: behaviour_new_def create_gossipsub_def)
  have nb: "\<exists>nb. network_builder_new nl k bh ps = Ok nb" for k bh ps
    using ok(3,5) ok(4) [of k]
    by (auto simp: network_builder_new_def default_transport_def default_listen_address_def)
  have build: "\<exists>n. network_build nl env nb = Ok n" for nb
    using ok(6) [of "nb_listen_address nb"
        "spawn_swarm nl (nb_behaviour nb) (nb_external_addresses nb) (nb_bootstrap_peers nb)"]
    by (auto simp: network_build_def)
  let ?k = "case kp of Some k \<Rightarrow> k | None \<Rightarrow> generate_ed25519 nl"
  obtain bh1 where 1: "behaviour_new nl ?k = Ok bh1" using bh by blast
  obtain nb1 where 2: "network_builder_new nl ?k bh1 peers = Ok nb1" using nb by blast
  let ?nb = "let nb = (case la of Some a \<Rightarrow> set_listen_address a nb1 | None \<Rightarrow> nb1)
    in case ea of Some a \<Rightarrow> set_external_addresses [a] nb | None \<Rightarrow> nb"
  obtain n where 3: "network_build nl env ?nb = Ok n" using build by blast
  obtain x n' where 4: "subscribe_gossip env MSG_BUS_TOPIC n = (Ok x, n')" using ok(7) by blast
  show ?thesis
    using 1 2 3 4 by (simp add: p2p_new_def Let_def)
qed

lemma server_start_ready:
  assumes "net_ready nl env" and "grpc_ready g"
  shows "\<exists>sh. server_start nl env g metrics b uri peers la ea kp tuples = Ok sh"
proof -
  obtain p where p: "p2p_new nl env metrics b peers la ea kp = Ok p"
    using p2p_new_ready [OF assms(1), where metrics = metrics and b = b] by blast
  obtain addrs n where a: "listen_addrs env (p2p_net p) = (Ok addrs, n)"
    using assms(1) is_ok_obtain unfolding net_ready_def by (metis prod.collapse)
  obtain gs' where "grpc_start g (grpc_server_new \<lparr>cs_quote_book = b, cs_bus = [], cs_bus_open = True\<rparr>
      uri (quote_minimum_map tuples)) = (Ok (), gs')"
    using grpc_start_ready [OF assms(2)] by blast
  with p a show ?thesis
    by (simp add: server_start_def p2p_listen_addrs_def Let_def)
qed

text \<open>Shutting down returns, whatever the loop still handles before it sees the signal, unless one of
  those inputs ends it first; the book keeps its invariant.\<close>

lemma shutdown_returns:
  assumes "quote_book lib ops absf invf" and "mc_lib_ok lib" "p2p_lib_ok plib" and "coherent U"
    and "invf (p2p_book (srv_p2p sv))" "absf (p2p_book (srv_p2p sv)) \<subseteq> U"
    and "\<forall>x\<in>set inputs. input_within lib plib U x"
    and run: "server_shutdown lib plib ops env inputs now running sv = (r, sv')"
  shows "r = Ok () \<and> invf (p2p_book (srv_p2p sv'))"
proof (cases running)
  case True
  obtain r1 sv1 where l: "server_loop lib plib ops env (inputs @ [(now, Shutdown)]) sv = (r1, sv1)"
    by fastforce
  have "\<forall>x\<in>set (inputs @ [(now, Shutdown)]). input_within lib plib U x" using assms(7) by simp
  from quote_book.server_loop_law [OF assms(1-6) this l] l True run
  show ?thesis by (simp add: server_shutdown_def)
qed (use run assms(5) in \<open>simp add: server_shutdown_def\<close>)

section \<open>The stack of books\<close>

text \<open>What \<open>main\<close> relies on: an engine, a ledger and an encoding of SCIs with the documented behaviour.\<close>

locale deployment = sql_engine_laws eng rows + ledger_laws ldg blocks
  for eng :: "('d, in_memory_quote_book) sql_engine" and rows and ldg :: "'l ledger_ops" and blocks +
  fixes codec :: sci_codec and lib :: mc_lib
  assumes codec_law: "codec_ok codec"

sublocale deployment \<subseteq> per: sqlite_on lib "in_memory_ops lib" mem_abs mem_inv eng rows codec
  by unfold_locales (rule codec_law)

sublocale deployment \<subseteq> dep: sync_on lib "persistent_ops lib codec eng" "\<lambda>st. mem_abs (snd st)"
  "sqlite_inv codec rows mem_abs mem_inv" ldg blocks
  by (intro sync_on.intro ledger_laws_axioms) (unfold persistent_ops_def, rule per.sqlite_quote_book)

interpretation sample_deployment: deployment list_engine set list_ledger chain_blocks sample_codec lib
  for lib
  by unfold_locales (rule sample_codec_ok)

context deployment
begin

lemma main_book:
  assumes B: "book_inv B" "rows db = row_of_quote codec ` B"
    and main: "server_main lib codec eng ldg nl env g ml metrics config db l = Ok (sys, sh)"
  shows "\<exists>b. sys = sync_start b l \<and> sqlite_inv codec rows mem_abs mem_inv b \<and> mem_abs (snd b) = B"
    and "p2p_book (srv_p2p (sh_loop sh)) = sys_view sys"
    and "gs_service (sh_grpc_server sh) = \<lparr>cs_quote_book = sys_view sys, cs_bus = [], cs_bus_open = True\<rparr>"
    and "gs_quote_minimum_map (sh_grpc_server sh) = quote_minimum_map (cfg_quote_minimum_map config)"
proof -
  obtain r d' b' where new: "sqlite_new codec eng (in_memory_ops lib) (db, in_memory_default) = (r, d', b')"
    by (metis prod_cases3)
  obtain kp where r: "r = Ok ()" and sys: "sys = sync_start (d', b') l"
    and start: "server_start nl env g metrics (sys_view sys) (cfg_client_listen_uri config)
      (cfg_p2p_bootstrap_peers config) (cfg_p2p_listen config) (cfg_p2p_external_address config) kp
      (cfg_quote_minimum_map config) = Ok sh"
    using main new
    by (cases r) (auto simp: server_main_def Let_def result_simps split: if_splits)
  have "sqlite_inv codec rows mem_abs mem_inv (d', b') \<and> mem_abs b' = B"
    using per.sqlite_new_law [OF mem_inv_default B new] r by blast
  with sys show "\<exists>b. sys = sync_start b l \<and> sqlite_inv codec rows mem_abs mem_inv b \<and> mem_abs (snd b) = B"
    by force
  from server_start_Ok [OF start]
  show "p2p_book (srv_p2p (sh_loop sh)) = sys_view sys"
    and "gs_service (sh_grpc_server sh) = \<lparr>cs_quote_book = sys_view sys, cs_bus = [], cs_bus_open = True\<rparr>"
    and "gs_quote_minimum_map (sh_grpc_server sh) = quote_minimum_map (cfg_quote_minimum_map config)"
    by simp_all
qed

end

text \<open>A server refuses to start on an empty ledger.\<close>

lemma main_refuses_empty_ledger:
  assumes "healthy_ledger ldg blocks" and "blocks l = []"
  shows "server_main lib codec eng ldg nl env g ml metrics config db l = Panic"
  using healthy_ledger.num_blocks_ok [OF assms(1), of l] assms(2) by (simp add: server_main_def)

lemma main_starts:
  assumes eng: "reliable_sqlite_on lib (in_memory_ops lib) mem_abs mem_inv eng rows codec"
    and ldg: "healthy_ledger ldg blocks" "blocks l \<noteq> []"
    and B: "book_inv B" "rows db = row_of_quote codec ` B"
    and ready: "net_ready nl env" "grpc_ready g"
    and kp: "read_keypair ml (cfg_p2p_keypair_path config) = Ok kp"
    and admin: "\<forall>uri. cfg_admin_listen_uri config = Some uri \<longrightarrow> admin_server_start ml uri = Ok ()"
  shows "\<exists>sys sh. server_main lib codec eng ldg nl env g ml metrics config db l = Ok (sys, sh)"
proof -
  have "length (blocks l) < 2 ^ 63"
    using ledger_laws.chain_length [OF healthy_ledger.axioms(1) [OF ldg(1)]] .
  then have "of_nat (length (blocks l)) \<noteq> (0 :: u64)"
    using ldg(2) by (metis length_0_conv unat_of_nat_small unsigned_0)
  moreover obtain d' b' where "sqlite_new codec eng (in_memory_ops lib) (db, in_memory_default) = (Ok (), d', b')"
    by (rule reliable_sqlite_on.sqlite_new_succeeds [OF eng mem_inv_default B])
  moreover obtain sh where "server_start nl env g metrics (sys_view (sync_start (d', b') l))
      (cfg_client_listen_uri config) (cfg_p2p_bootstrap_peers config) (cfg_p2p_listen config)
      (cfg_p2p_external_address config) kp (cfg_quote_minimum_map config) = Ok sh"
    using server_start_ready [OF ready, where metrics = metrics and b = "sys_view (sync_start (d', b') l)"]
    by blast
  ultimately show ?thesis
    using healthy_ledger.num_blocks_ok [OF ldg(1), of l] kp admin
    by (cases "cfg_admin_listen_uri config") (simp_all add: server_main_def)
qed

lemma reliable_deployment:
  assumes "reliable_sqlite_on lib (in_memory_ops lib) mem_abs mem_inv eng rows codec"
    and "healthy_ledger ldg blocks"
  shows "deployment eng rows ldg blocks codec"
proof -
  have "sqlite_on lib (in_memory_ops lib) mem_abs mem_inv eng rows codec"
    using assms(1) by (simp add: reliable_sqlite_on_def)
  then have "sql_engine_laws eng rows" "codec_ok codec"
    by (auto simp: sqlite_on_def sqlite_on_axioms_def)
  then show ?thesis
    using healthy_ledger.axioms(1) [OF assms(2)]
    by (simp add: deployment_def deployment_axioms_def)
qed

section \<open>A sample server\<close>

definition sample_net_lib :: "unit net_lib" where
  "sample_net_lib =
     \<lparr>generate_ed25519 = [], gossipsub_config_build = (\<lambda>_. Ok ()), gossipsub_new = (\<lambda>_. Ok ()),
      dns_config_system = Ok (), noise_authenticated_xx = (\<lambda>_. Ok ()),
      multiaddr_from_str = (\<lambda>_. Ok []), spawn_swarm = (\<lambda>_ _ _. ())\<rparr>"

definition sample_net_env :: "(request, response, unit) client_env" where
  "sample_net_env =
     \<lparr>oneshot_channel = (\<lambda>n. (0, n)), mpsc_send = (\<lambda>_ n. (True, n)), await_rpc = (\<lambda>_ n. (None, n)),
      await_subscribe = (\<lambda>_ n. (Some (Inr True), n)), await_publish = (\<lambda>_ n. (None, n)),
      await_listen = (\<lambda>_ n. (Some (Inr []), n)), await_peers = (\<lambda>_ n. (Some [], n)),
      await_addrs = (\<lambda>_ n. (Some [[]], n)), retry_spawn = retry_times\<rparr>"

definition sample_grpc_lib :: grpc_lib where
  "sample_grpc_lib =
     \<lparr>server_builder_build = Ok (), add_listening_port = (\<lambda>_. Ok 7000), grpcio_shutdown = Ok ()\<rparr>"

definition sample_main_lib :: main_lib where
  "sample_main_lib =
     \<lparr>fs_read = (\<lambda>_. Err ''no file''), keypair_from_protobuf = Ok, admin_server_start = (\<lambda>_. Ok ())\<rparr>"

definition sample_config :: server_config where
  "sample_config =
     \<lparr>cfg_client_listen_uri = \<lparr>uri_host = ''localhost'', uri_port = 0\<rparr>, cfg_admin_listen_uri = None,
      cfg_p2p_bootstrap_peers = [], cfg_p2p_listen = None, cfg_p2p_external_address = None,
      cfg_p2p_keypair_path = None, cfg_quote_minimum_map = [(0, 1000)]\<rparr>"

lemma sample_ready: "net_ready sample_net_lib sample_net_env" "grpc_ready sample_grpc_lib"
  by (simp_all add: net_ready_def grpc_ready_def sample_net_lib_def sample_net_env_def sample_grpc_lib_def
      listen_def subscribe_gossip_def listen_addrs_def send_and_await_def)

section \<open>Properties\<close>

text \<open>
  C39: The minimum sizes of the command line are enforced. Every option is read as the pair of numbers
  it shows, and the last minimum given for a token counts. A submission to a server started with these
  options adds no quote of that token that offers less, whatever the request contains and in
  whatever order its SCIs are added.
\<close>

theorem quote_minimum_enforced:
  assumes tok: "\<forall>k. token_from_str (show_u64 k) = Ok k"
    and args: "collect_results (parse_key_val token_from_str u64_from_str) args = Ok tuples"
    and i: "i < length args" "args ! i = show_u64 k @ ''='' @ show_u64 m" "k \<notin> fst ` set (drop (Suc i) tuples)"
    and book: "quote_book lib ops absf invf" and lib: "mc_lib_ok lib" and cs: "invf (cs_quote_book cs)"
    and few: "length req < MAX_SIMULTANEOUS_QUOTES" and time: "system_time_nanos now = Ok t"
    and sci_list: "collect_results (sci_from_api api) req = Ok sci_list"
    and U: "coherent (absf (cs_quote_book cs) \<union> offered_quotes lib now t (set sci_list))"
    and sched: "distinct schedule" "set schedule = {..<length req}"
  shows "tuples ! i = (k, m) \<and>
    (\<exists>resp cs'. submit_quotes_impl lib api ops (sci_validator (quote_minimum_map tuples)) schedule now req cs =
        (Ok resp, cs') \<and>
      (\<forall>q\<in>absf (cs_quote_book cs') - absf (cs_quote_book cs).
         base_token_id (q_pair q) = k \<longrightarrow> m \<le> offered_value q))"
proof -
  have len: "length tuples = length args" and nth: "\<forall>j<length args. parse_key_val token_from_str u64_from_str (args ! j) = Ok (tuples ! j)"
    using args by (simp_all add: collect_results_eq_Ok list_all2_conv_all_nth)
  have "parse_key_val token_from_str u64_from_str (args ! i) = Ok (k, m)"
    using i(2) tok parse_key_val_show [of token_from_str k k m] by simp
  then have km: "tuples ! i = (k, m)" using nth i(1) by simp
  then have min: "quote_minimum_map tuples k = Some m"
    using i len by (intro quote_minimum_map_last) simp_all
  have val: "sci_validator (quote_minimum_map tuples) s \<noteq> Panic" for s
    by (simp add: sci_validator_def Let_def)
  have large: "m \<le> offered_value q"
    if "quote_new lib now s (Some t) = Ok q" "sci_validator (quote_minimum_map tuples) s = Ok ()"
      "base_token_id (q_pair q) = k" for s q
    using that min by (auto simp: quote_new_eq_Ok sci_validator_Ok offered_value_def)
  show ?thesis
    by (rule quote_book.submit_quotes_law [where validator = "sci_validator (quote_minimum_map tuples)",
        OF book lib val cs few time sci_list U sched])
      (use km large in blast)
qed

theorem quote_minimum_enforced_witness:
  "\<exists>resp cs'. submit_quotes_impl sample_lib sample_api (in_memory_ops sample_lib)
      (sci_validator (quote_minimum_map [(0, 1000), (0, 50)])) [1, 0] 5 [[7], [8]] sample_service = (Ok resp, cs') \<and>
    (\<forall>q\<in>mem_abs (cs_quote_book cs') - mem_abs sample_book. base_token_id (q_pair q) = 0 \<longrightarrow> 50 \<le> offered_value q)"
proof -
  have arg: "parse_key_val u64_from_str u64_from_str (show_u64 0 @ ''='' @ show_u64 v) = Ok (0, v)" for v
    by (rule parse_key_val_show) (rule u64_from_str_show)
  have "[(0, 1000), (0, 50)] ! 1 = (0 :: u64, 50 :: u64) \<and>
    (\<exists>resp cs'. submit_quotes_impl sample_lib sample_api (in_memory_ops sample_lib)
        (sci_validator (quote_minimum_map [(0, 1000), (0, 50)])) [1, 0] 5 [[7], [8]] sample_service =
        (Ok resp, cs') \<and>
      (\<forall>q\<in>mem_abs (cs_quote_book cs') - mem_abs (cs_quote_book sample_service).
         base_token_id (q_pair q) = 0 \<longrightarrow> 50 \<le> offered_value q))"
    by (rule quote_minimum_enforced [where token_from_str = u64_from_str and
          args = "[show_u64 0 @ ''='' @ show_u64 1000, show_u64 0 @ ''='' @ show_u64 50]",
          OF _ _ _ _ _ mem.quote_book_axioms sample_lib_ok _ _ _ _ sample_request_coherent])
      (auto simp: arg [simplified] u64_from_str_show sample_service_def sample_book_inv MAX_SIMULTANEOUS_QUOTES_def
        system_time_nanos_def sample_api_def)
  then show ?thesis by (simp add: sample_service_def)
qed

section \<open>Divergences\<close>

text \<open>The minimum sizes are documented as those required for a quote to be accepted by the server; a
  quote that arrives by gossip is added without looking at them.\<close>

lemma gossip_ignores_minimum:
  defines "q \<equiv> sample_full_quote 1 100 10 5"
  shows "is_err (sci_validator (quote_minimum_map [(base_token_id (q_pair q), 1000)]) (q_sci q))"
    and "mem_abs (p2p_book (snd (handle_sci_quote_added sample_lib (in_memory_ops sample_lib) 9 q
      (sample_p2p in_memory_default)))) = {q}"
proof -
  show "is_err (sci_validator (quote_minimum_map [(base_token_id (q_pair q), 1000)]) (q_sci q))"
    by (simp add: q_def sci_validator_def quote_minimum_map_def sample_full_quote_def sample_full_def Let_def)
  obtain r b where add: "mem_add_quote q in_memory_default = (r, b)" by fastforce
  have adm: "admissible q (mem_abs in_memory_default)"
    by (simp add: q_def admissible_def mem_inv_default rated_def)
  have law: "mem_inv b \<and> add_spec q {} r (mem_abs b)"
    using mem.add_law [OF mem_inv_default(1) adm, where r = r and s' = b] add by (simp add: mem_inv_default)
  have "\<exists>x. e = QuoteAlreadyExists x" if "r = Err e" for e
    using mem.add_reliable [OF mem_inv_default(1) adm, where e = e and s' = b] add that by simp
  with law have ok: "r = Ok ()" "mem_abs b = {q}"
    by (cases r; auto simp: add_spec_def)+
  have "add_sci sample_lib (in_memory_ops sample_lib) 9 (q_sci q) (Some (q_timestamp q)) in_memory_default =
      (Ok q, b)"
    using add ok(1) by (simp add: add_sci_def q_def sample_full_quote_new)
  then show "mem_abs (p2p_book (snd (handle_sci_quote_added sample_lib (in_memory_ops sample_lib) 9 q
      (sample_p2p in_memory_default)))) = {q}"
    using ok(2) by (simp add: handle_sci_quote_added_eq)
qed

end
