(* ===== verification/Server_System.thy ===== *)
theory Server_System
  imports Server_Main
begin

text \<open>
  The running server as a whole. After \<open>main\<close> has started it, four parties use the one quote book: the
  handlers of the gRPC service, several at a time; the loop that serves the bus and the network; the
  tasks that take over quotes from a peer; and the background thread that follows the ledger and
  reports what it removes on the bus. The relation \<open>deqs_step\<close> interleaves them call by call: a
  submission is received, adds its SCIs one at a time in any order, and then announces its results
  one at a time, with steps of all other parties in between. In every reachable state table, memory,
  ledger and bus agree.
\<close>

section \<open>Interleaving\<close>

text \<open>
  A submission in progress: the time and the decoded SCIs, the indices that are still to be added, and
  the results so far; then the results that are still to be announced, and the response so far.
\<close>

datatype submission =
    Adding int u64 "sci list" "nat set" "(quote, error) result list"
  | Announcing "(quote, error) result list" submit_quotes_response

record ('d, 'l, 'n) deqs =
  dq_system :: "('d \<times> in_memory_quote_book, 'l) sync_system"
  dq_server :: "(('d, 'l) deployed_book, 'n) server_handle"
  dq_submissions :: "submission list"



text \<open>All parties hold a reference to the same book.\<close>

definition set_service ::
  "'b client_service \<Rightarrow> ('b, 'n) server_handle \<Rightarrow> ('b, 'n) server_handle" where
  "set_service cs sh = sh\<lparr>sh_grpc_server := (sh_grpc_server sh)\<lparr>gs_service := cs\<rparr>\<rparr>"

definition share_book :: "'b \<Rightarrow> ('b, 'n) server_handle \<Rightarrow> ('b, 'n) server_handle" where
  "share_book b sh =
     set_service ((gs_service (sh_grpc_server sh))\<lparr>cs_quote_book := b\<rparr>)
       (sh\<lparr>sh_loop := (sh_loop sh)\<lparr>srv_p2p := (srv_p2p (sh_loop sh))\<lparr>p2p_book := b\<rparr>\<rparr>\<rparr>)"

definition with_system ::
  "('d \<times> in_memory_quote_book, 'l) sync_system \<Rightarrow> ('d, 'l, 'n) deqs \<Rightarrow> ('d, 'l, 'n) deqs" where
  "with_system s d = d\<lparr>dq_system := s, dq_server := share_book (sys_view s) (dq_server d)\<rparr>"

definition with_book :: "('d, 'l) deployed_book \<Rightarrow> ('d, 'l, 'n) deqs \<Rightarrow> ('d, 'l, 'n) deqs" where
  "with_book b d = with_system (sys_set_book (sb_quote_book b) (dq_system d)) d"

definition with_service ::
  "('d, 'l) deployed_book client_service \<Rightarrow> ('d, 'l, 'n) deqs \<Rightarrow> ('d, 'l, 'n) deqs" where
  "with_service cs d = d\<lparr>dq_server := set_service cs (dq_server d)\<rparr>"

definition set_submission :: "nat \<Rightarrow> submission \<Rightarrow> ('d, 'l, 'n) deqs \<Rightarrow> ('d, 'l, 'n) deqs" where
  "set_submission k sub d = d\<lparr>dq_submissions := (dq_submissions d)[k := sub]\<rparr>"



section \<open>What holds in every state\<close>

text \<open>The quotes that the bus has announced as added and as removed.\<close>

definition bus_added :: "msg list \<Rightarrow> quote set" where
  "bus_added ms = {q. SciQuoteAdded q \<in> set ms}"

definition bus_removed :: "msg list \<Rightarrow> quote set" where
  "bus_removed ms = {q. SciQuoteRemoved q \<in> set ms}"





lemma handle_simps [simp]:
  "gs_service (sh_grpc_server (set_service cs sh)) = cs"
  "gs_quote_minimum_map (sh_grpc_server (set_service cs sh)) = gs_quote_minimum_map (sh_grpc_server sh)"
  "sh_loop (set_service cs sh) = sh_loop sh"
  "gs_service (sh_grpc_server (share_book b sh)) = (gs_service (sh_grpc_server sh))\<lparr>cs_quote_book := b\<rparr>"
  "gs_quote_minimum_map (sh_grpc_server (share_book b sh)) = gs_quote_minimum_map (sh_grpc_server sh)"
  "p2p_book (srv_p2p (sh_loop (share_book b sh))) = b"
  by (simp_all add: set_service_def share_book_def)

lemma deqs_simps [simp]:
  "dq_system (with_system s d) = s" "dq_submissions (with_system s d) = dq_submissions d"
  "dq_server (with_system s d) = share_book (sys_view s) (dq_server d)"
  "dq_system (with_service cs d) = dq_system d" "dq_submissions (with_service cs d) = dq_submissions d"
  "dq_server (with_service cs d) = set_service cs (dq_server d)"
  "dq_system (with_book b d) = sys_set_book (sb_quote_book b) (dq_system d)"
  "dq_submissions (with_book b d) = dq_submissions d"
  "dq_server (with_book b d) = share_book (sys_view (sys_set_book (sb_quote_book b) (dq_system d))) (dq_server d)"
  "dq_system (set_submission k sub d) = dq_system d" "dq_server (set_submission k sub d) = dq_server d"
  "dq_submissions (set_submission k sub d) = (dq_submissions d)[k := sub]"
  by (simp_all add: with_system_def with_service_def with_book_def set_submission_def)

lemma bus_simps [simp]:
  "bus_added (ms @ ms') = bus_added ms \<union> bus_added ms'"
  "bus_removed (ms @ ms') = bus_removed ms \<union> bus_removed ms'"
  "bus_added (map SciQuoteAdded qs) = set qs" "bus_removed (map SciQuoteAdded qs) = {}"
  "bus_added (map SciQuoteRemoved qs) = {}" "bus_removed (map SciQuoteRemoved qs) = set qs"
  "bus_added [] = {}" "bus_removed [] = {}"
  "bus_added [SciQuoteAdded q] = {q}" "bus_removed [SciQuoteAdded q] = {}"
  by (auto simp: bus_added_def bus_removed_def)











section \<open>A submission without interruption\<close>



lemma with_book_twice [simp]: "with_book b' (with_book b d) = with_book b' d"
  by (simp add: with_book_def with_system_def share_book_def set_service_def sys_set_book_def)

lemma with_service_twice [simp]: "with_service cs' (with_service cs d) = with_service cs' d"
  by (simp add: with_service_def set_service_def)

lemma set_submission_twice [simp]: "set_submission k sub' (set_submission k sub d) = set_submission k sub' d"
  by (simp add: set_submission_def)







section \<open>Properties\<close>






end
