(* ===== verification/Mini_Wallet.thy ===== *)
theory Mini_Wallet
  imports Ledger Api_Convert Byte_Codecs "HOL-Library.AList"
begin

text \<open>
  The wallet of the liquidity bot (\<open>liquidity-bot/src/mini_wallet\<close>): a thread scans the blocks of
  the ledger, recognizes the outputs of one account, tracks which of them are unspent and reports
  each block. The cryptography of the MobileCoin crates is the parameter \<open>scan_lib\<close>; the file
  system and the serializer that store the state are the parameter \<open>wallet_io\<close>. A hash map is an
  association list, whose order stands for its unspecified iteration order. Additions wrap, as they
  do in the release profile of the workspace.
\<close>

section \<open>Recognizing outputs\<close>

record matched_tx_out =
  mt_block_index :: block_index
  mt_tx_out :: tx_out
  mt_amount :: amount
  mt_subaddress_index :: u64
  mt_key_image :: key_image

type_synonym account_key = bytes

record scan_lib =
  ristretto_try_from :: "bytes \<Rightarrow> (bytes, string) result"
  view_private_key :: "account_key \<Rightarrow> bytes"
  get_tx_out_shared_secret :: "bytes \<Rightarrow> bytes \<Rightarrow> bytes"
  get_masked_amount :: "tx_out \<Rightarrow> (bytes, string) result"
  masked_get_value :: "bytes \<Rightarrow> bytes \<Rightarrow> (amount, string) result"
  recover_public_subaddress_spend_key :: "bytes \<Rightarrow> bytes \<Rightarrow> bytes \<Rightarrow> bytes"
  recover_onetime_private_key :: "bytes \<Rightarrow> bytes \<Rightarrow> bytes \<Rightarrow> bytes"
  key_image_from :: "bytes \<Rightarrow> key_image"
  subaddress_spend_public :: "account_key \<Rightarrow> u64 \<Rightarrow> bytes"
  subaddress_spend_private :: "account_key \<Rightarrow> u64 \<Rightarrow> bytes"
  DEFAULT_SUBADDRESS_INDEX :: u64
  CHANGE_SUBADDRESS_INDEX :: u64

text \<open>The errors of the bot, which the wallet shares; those of the libraries are strings.\<close>

datatype bot_error =
    LedgerDb ledger_error
  | TxBuilderError string
  | SignedContingentInputBuilder string
  | AmountError string
  | TxOutConversion string
  | Key string
  | IO string
  | Json string
  | Grpc string
  | InvalidGrpcResponse string
  | ApiConversion conversion_error
  | UnknownTokenId token_id
  | DecimalConversion string
  | Deserialize string
  | Serialize string
  | Prometheus string
  | RevealedTxOutError string

definition default_spsk_to_index_map :: "scan_lib \<Rightarrow> account_key \<Rightarrow> bytes \<rightharpoonup> u64" where
  "default_spsk_to_index_map lib ak =
     fold (\<lambda>idx m. m(subaddress_spend_public lib ak idx \<mapsto> idx))
       [DEFAULT_SUBADDRESS_INDEX lib, 1, CHANGE_SUBADDRESS_INDEX lib] Map.empty"

text \<open>An output whose amount cannot be unmasked, or whose subaddress is unknown, is not ours.\<close>

definition view_key_scan ::
  "scan_lib \<Rightarrow> block_index \<Rightarrow> tx_out \<Rightarrow> account_key \<Rightarrow> (bytes \<rightharpoonup> u64) \<Rightarrow>
     (matched_tx_out option, bot_error) result" where
  "view_key_scan lib block_index tx_out ak spsk_to_index =
     and_then (map_err Key (ristretto_try_from lib (public_key tx_out))) (\<lambda>decompressed_tx_pub.
       let shared_secret = get_tx_out_shared_secret lib (view_private_key lib ak) decompressed_tx_pub
       in case and_then (get_masked_amount lib tx_out) (\<lambda>masked. masked_get_value lib masked shared_secret) of
          Panic \<Rightarrow> Panic
        | Err _ \<Rightarrow> Ok None
        | Ok amount \<Rightarrow>
            and_then (map_err Key (ristretto_try_from lib (target_key tx_out))) (\<lambda>tx_out_target_key.
            and_then (map_err Key (ristretto_try_from lib (public_key tx_out))) (\<lambda>tx_public_key.
              let subaddress_spk = recover_public_subaddress_spend_key lib (view_private_key lib ak)
                    tx_out_target_key tx_public_key
              in case spsk_to_index subaddress_spk of
                 None \<Rightarrow> Ok None
               | Some subaddress_index \<Rightarrow>
                   Ok (Some \<lparr>mt_block_index = block_index, mt_tx_out = tx_out, mt_amount = amount,
                     mt_subaddress_index = subaddress_index,
                     mt_key_image = key_image_from lib (recover_onetime_private_key lib
                       decompressed_tx_pub (view_private_key lib ak)
                       (subaddress_spend_private lib ak subaddress_index))\<rparr>))))"

record scanned_block =
  sb_block_index :: block_index
  sb_matched_tx_outs :: "matched_tx_out list"
  sb_key_images :: "key_image list"

fun scan_outputs ::
  "scan_lib \<Rightarrow> account_key \<Rightarrow> block_index \<Rightarrow> tx_out list \<Rightarrow> (matched_tx_out list, bot_error) result" where
  "scan_outputs lib ak i [] = Ok []"
| "scan_outputs lib ak i (t # ts) =
     and_then (view_key_scan lib i t ak (default_spsk_to_index_map lib ak)) (\<lambda>m.
       map_ok (\<lambda>ms. case m of None \<Rightarrow> ms | Some x \<Rightarrow> x # ms) (scan_outputs lib ak i ts))"

definition process_block ::
  "scan_lib \<Rightarrow> account_key \<Rightarrow> block_index \<Rightarrow> block_contents \<Rightarrow> (scanned_block, bot_error) result" where
  "process_block lib ak i b =
     map_ok (\<lambda>ms. \<lparr>sb_block_index = i, sb_matched_tx_outs = ms, sb_key_images = bc_key_images b\<rparr>)
       (scan_outputs lib ak i (bc_outputs b))"

section \<open>State and events\<close>

datatype wallet_event = BlockProcessed block_index "matched_tx_out list" "matched_tx_out list"

record wallet_state =
  next_block_index :: block_index
  matched_tx_outs :: "(key_image \<times> matched_tx_out) list"

record wallet_io =
  ws_serialize :: "wallet_state \<Rightarrow> (bytes, string) result"
  ws_deserialize :: "bytes \<Rightarrow> (wallet_state, string) result"
  fs_read :: "bytes \<Rightarrow> (bytes, string) result"
  fs_write :: "bytes \<Rightarrow> (unit, string) result"

definition state_load ::
  "wallet_io \<Rightarrow> bytes option \<Rightarrow> block_index \<Rightarrow> (wallet_state, bot_error) result" where
  "state_load io file default_first_block_index =
     (case file of
        Some content \<Rightarrow>
          and_then (map_err IO (fs_read io content)) (\<lambda>bytes.
            map_err Deserialize (ws_deserialize io bytes))
      | None \<Rightarrow> Ok \<lparr>next_block_index = default_first_block_index, matched_tx_outs = []\<rparr>)"

definition state_save ::
  "wallet_io \<Rightarrow> wallet_state \<Rightarrow> bytes option \<Rightarrow> (unit, bot_error) result \<times> bytes option" where
  "state_save io st file =
     (case map_err Serialize (ws_serialize io st) of
        Ok bytes \<Rightarrow>
          (case fs_write io bytes of
             Ok _ \<Rightarrow> (Ok (), Some bytes)
           | Err e \<Rightarrow> (Err (IO e), file)
           | Panic \<Rightarrow> (Panic, file))
      | Err e \<Rightarrow> (Err e, file)
      | Panic \<Rightarrow> (Panic, file))"

section \<open>The scanner\<close>

definition SCAN_CHUNK_SIZE :: nat where
  "SCAN_CHUNK_SIZE = 1000"

record scanner =
  sc_state :: wallet_state
  sc_file :: "bytes option"
  sc_events :: "wallet_event list"

text \<open>The tracked outputs that the key images of a block spend; they are removed.\<close>

fun take_spent ::
  "key_image list \<Rightarrow> (key_image \<times> matched_tx_out) list \<Rightarrow>
     matched_tx_out list \<times> (key_image \<times> matched_tx_out) list" where
  "take_spent [] m = ([], m)"
| "take_spent (k # ks) m =
     (case map_of m k of
        None \<Rightarrow> take_spent ks m
      | Some x \<Rightarrow> (case take_spent ks (AList.delete k m) of (xs, m') \<Rightarrow> (x # xs, m')))"

definition insert_matched ::
  "matched_tx_out list \<Rightarrow> (key_image \<times> matched_tx_out) list \<Rightarrow> (key_image \<times> matched_tx_out) list" where
  "insert_matched xs m = fold (\<lambda>x. AList.update (mt_key_image x) x) xs m"

definition record_block :: "scanned_block \<Rightarrow> scanner \<Rightarrow> scanner" where
  "record_block b sc =
     (case take_spent (sb_key_images b) (matched_tx_outs (sc_state sc)) of (spent, m) \<Rightarrow>
        sc\<lparr>sc_state := \<lparr>next_block_index = next_block_index (sc_state sc) + 1,
                        matched_tx_outs = insert_matched (sb_matched_tx_outs b) m\<rparr>,
           sc_events := sc_events sc @
             [BlockProcessed (sb_block_index b) (sb_matched_tx_outs b) spent]\<rparr>)"

fun record_blocks :: "scanned_block list \<Rightarrow> scanner \<Rightarrow> (unit, unit) result \<times> scanner" where
  "record_blocks [] sc = (Ok (), sc)"
| "record_blocks (b # bs) sc =
     (if sb_block_index b = next_block_index (sc_state sc)
      then record_blocks bs (record_block b sc) else (Panic, sc))"

definition scan_block ::
  "scan_lib \<Rightarrow> 'l ledger_ops \<Rightarrow> account_key \<Rightarrow> 'l \<Rightarrow> block_index \<Rightarrow>
     (scanned_block option, bot_error) result" where
  "scan_block lib ldg ak l i =
     (case get_block_contents ldg i l of
        Ok b \<Rightarrow> map_ok Some (process_block lib ak i b)
      | Err LedgerNotFound \<Rightarrow> Ok None
      | Err e \<Rightarrow> Err (LedgerDb e)
      | Panic \<Rightarrow> Panic)"

text \<open>
  One iteration of the thread. The blocks of the chunk are scanned in parallel, which has no effect
  on the state; their results are then processed in the order of the blocks. An error of the scan
  leaves everything as it is, to be retried.
\<close>

definition scan_round ::
  "scan_lib \<Rightarrow> 'l ledger_ops \<Rightarrow> wallet_io \<Rightarrow> account_key \<Rightarrow> 'l \<Rightarrow> scanner \<Rightarrow>
     (unit, unit) result \<times> scanner" where
  "scan_round lib ldg io ak l sc =
     (case num_blocks ldg l of
        Ok n \<Rightarrow>
          (let ledger_last_block_index = n - 1;
               first = next_block_index (sc_state sc);
               last_block_index = min (ledger_last_block_index + 1) (first + of_nat SCAN_CHUNK_SIZE)
           in case collect_results (scan_block lib ldg ak l)
                     (map of_nat [unat first ..< unat last_block_index]) of
              Ok results \<Rightarrow>
                then_do (record_blocks (concat (map (case_option [] (\<lambda>b. [b])) results)) sc) (\<lambda>_ sc.
                  case state_save io (sc_state sc) (sc_file sc) of
                    (Ok _, file) \<Rightarrow> (Ok (), sc\<lparr>sc_file := file\<rparr>)
                  | (_, file) \<Rightarrow> (Panic, sc\<lparr>sc_file := file\<rparr>))
            | Err e \<Rightarrow> (Ok (), sc)
            | Panic \<Rightarrow> (Panic, sc))
      | _ \<Rightarrow> (Panic, sc))"

text \<open>The thread, until it is told to stop; each iteration sees the ledger as it is then.\<close>

fun scanner_run ::
  "scan_lib \<Rightarrow> 'l ledger_ops \<Rightarrow> wallet_io \<Rightarrow> account_key \<Rightarrow> 'l list \<Rightarrow> scanner \<Rightarrow>
     (unit, unit) result \<times> scanner" where
  "scanner_run lib ldg io ak [] sc = (Ok (), sc)"
| "scanner_run lib ldg io ak (l # ls) sc =
     then_do (scan_round lib ldg io ak l sc) (\<lambda>_ sc. scanner_run lib ldg io ak ls sc)"

section \<open>The wallet\<close>

definition mini_wallet_new ::
  "wallet_io \<Rightarrow> bytes option \<Rightarrow> block_index \<Rightarrow> (scanner, bot_error) result" where
  "mini_wallet_new io file default_first_block_index =
     map_ok (\<lambda>st. \<lparr>sc_state = st, sc_file = file, sc_events = []\<rparr>)
       (state_load io file default_first_block_index)"

definition wallet_next_block_index :: "scanner \<Rightarrow> block_index" where
  "wallet_next_block_index sc = next_block_index (sc_state sc)"

definition wallet_matched_tx_outs :: "scanner \<Rightarrow> matched_tx_out list" where
  "wallet_matched_tx_outs sc = sort_key mt_block_index (map snd (matched_tx_outs (sc_state sc)))"

section \<open>What the wallet should know\<close>

text \<open>The outputs of the account in a block, in a range of blocks, and the inputs spent there.\<close>

definition owned :: "scan_lib \<Rightarrow> account_key \<Rightarrow> chain \<Rightarrow> nat \<Rightarrow> matched_tx_out list" where
  "owned lib ak bs i =
     (case scan_outputs lib ak (of_nat i) (bc_outputs (bs ! i)) of Ok ms \<Rightarrow> ms | _ \<Rightarrow> [])"

definition owned_in :: "scan_lib \<Rightarrow> account_key \<Rightarrow> chain \<Rightarrow> nat \<Rightarrow> nat \<Rightarrow> matched_tx_out set" where
  "owned_in lib ak bs f n = (\<Union>i\<in>{f..<n}. set (owned lib ak bs i))"

definition spent_in :: "chain \<Rightarrow> nat \<Rightarrow> nat \<Rightarrow> key_image set" where
  "spent_in bs f n = (\<Union>i\<in>{f..<n}. set (bc_key_images (bs ! i)))"

text \<open>
  What is assumed of the chain: its keys are valid, so that each output can be scanned, each output
  of the account has its own key image, an output is spent in a later block than its own, and no key
  image occurs in two blocks.
\<close>

definition chain_ok :: "scan_lib \<Rightarrow> account_key \<Rightarrow> chain \<Rightarrow> bool" where
  "chain_ok lib ak bs \<longleftrightarrow>
     length bs < 2 ^ 63 \<and>
     (\<forall>i<length bs. is_ok (scan_outputs lib ak (of_nat i) (bc_outputs (bs ! i)))) \<and>
     inj_on mt_key_image (owned_in lib ak bs 0 (length bs)) \<and>
     (\<forall>i<length bs. \<forall>j<length bs. \<forall>m\<in>set (owned lib ak bs i).
        mt_key_image m \<in> set (bc_key_images (bs ! j)) \<longrightarrow> i < j) \<and>
     (\<forall>i<length bs. \<forall>j<length bs. i \<noteq> j \<longrightarrow> set (bc_key_images (bs ! i)) \<inter> set (bc_key_images (bs ! j)) = {})"

definition wallet_at ::
  "scan_lib \<Rightarrow> account_key \<Rightarrow> chain \<Rightarrow> nat \<Rightarrow> nat \<Rightarrow> wallet_state \<Rightarrow> bool" where
  "wallet_at lib ak bs f n st \<longleftrightarrow>
     next_block_index st = of_nat n \<and> distinct (map fst (matched_tx_outs st)) \<and>
     (\<forall>k m. map_of (matched_tx_outs st) k = Some m \<longleftrightarrow>
        m \<in> owned_in lib ak bs f n \<and> mt_key_image m = k \<and> k \<notin> spent_in bs f n)"

definition event_at ::
  "scan_lib \<Rightarrow> account_key \<Rightarrow> chain \<Rightarrow> nat \<Rightarrow> nat \<Rightarrow> wallet_event \<Rightarrow> bool" where
  "event_at lib ak bs f i e \<longleftrightarrow>
     (\<exists>spent. e = BlockProcessed (of_nat i) (owned lib ak bs i) spent \<and> distinct spent \<and>
        set spent = {m \<in> owned_in lib ak bs f i. mt_key_image m \<in> set (bc_key_images (bs ! i))})"

lemma take_spent_law:
  assumes "distinct (map fst m)" and "take_spent ks m = (xs, m')"
  shows "distinct (map fst m') \<and>
    (\<forall>k x. map_of m' k = Some x \<longleftrightarrow> map_of m k = Some x \<and> k \<notin> set ks) \<and>
    set xs = {x. \<exists>k\<in>set ks. map_of m k = Some x}"
  using assms
proof (induction ks m arbitrary: xs m' rule: take_spent.induct)
  case (2 k ks m)
  show ?case
  proof (cases "map_of m k")
    case None
    with 2(1) [OF None 2(3)] 2(4) show ?thesis by auto
  next
    case (Some x)
    obtain ys where ys: "take_spent ks (AList.delete k m) = (ys, m')" "xs = x # ys"
      using 2(4) Some by (auto split: prod.splits)
    have d: "distinct (map fst (AList.delete k m))" using 2(3) by (rule distinct_delete)
    have m: "map_of (AList.delete k m) j = Some y \<longleftrightarrow> j \<noteq> k \<and> map_of m j = Some y" for j y
      by (simp add: delete_conv')
    note ih = 2(2) [OF Some d ys(1), unfolded m]
    have "set xs = {y. \<exists>j\<in>set (k # ks). map_of m j = Some y}"
    proof (intro set_eqI iffI)
      fix y assume "y \<in> {y. \<exists>j\<in>set (k # ks). map_of m j = Some y}"
      then obtain j where "j \<in> set (k # ks)" "map_of m j = Some y" by blast
      then show "y \<in> set xs" using ih ys(2) Some by (cases "j = k") auto
    qed (use ih ys(2) Some in auto)
    then show ?thesis using ih by auto
  qed
qed simp

lemma take_spent_distinct:
  assumes "distinct (map fst m)" and "take_spent ks m = (xs, m')"
    and "\<And>k x. map_of m k = Some x \<Longrightarrow> mt_key_image x = k"
  shows "distinct xs"
  using assms
proof (induction ks m arbitrary: xs m' rule: take_spent.induct)
  case (2 k ks m)
  show ?case
  proof (cases "map_of m k")
    case (Some x)
    obtain ys where ys: "take_spent ks (AList.delete k m) = (ys, m')" "xs = x # ys"
      using 2(4) Some by (auto split: prod.splits)
    have d: "distinct (map fst (AList.delete k m))" using 2(3) by (rule distinct_delete)
    have m: "map_of (AList.delete k m) j = Some y \<longleftrightarrow> j \<noteq> k \<and> map_of m j = Some y" for j y
      by (simp add: delete_conv')
    have "distinct ys" by (rule 2(2) [OF Some d ys(1)]) (use m 2(5) in simp)
    moreover have "x \<notin> set ys"
    proof
      assume "x \<in> set ys"
      then have "\<exists>j. j \<noteq> k \<and> map_of m j = Some x"
        using take_spent_law [OF d ys(1), unfolded m] by auto
      then obtain j where "j \<noteq> k" "map_of m j = Some x" by blast
      then show False using 2(5) [of j x] 2(5) [OF Some] by simp
    qed
    ultimately show ?thesis using ys(2) by simp
  qed (use 2 in simp)
qed simp

lemma insert_matched_distinct: "distinct (map fst m) \<Longrightarrow> distinct (map fst (insert_matched xs m))"
  unfolding insert_matched_def by (induction xs arbitrary: m) (simp_all add: distinct_update)

lemma insert_matched_law:
  assumes "inj_on mt_key_image (set xs)"
  shows "map_of (insert_matched xs m) k =
    (if k \<in> mt_key_image ` set xs then Some (the_inv_into (set xs) mt_key_image k) else map_of m k)"
  using assms
proof (induction xs arbitrary: m)
  case (Cons x xs)
  have u: "map_of (AList.update (mt_key_image x) x m) k = (if k = mt_key_image x then Some x else map_of m k)"
    by (simp add: update_conv')
  have inj: "inj_on mt_key_image (set xs)" using Cons.prems by simp
  have step: "insert_matched (x # xs) m = insert_matched xs (AList.update (mt_key_image x) x m)"
    by (simp add: insert_matched_def)
  show ?case
  proof (cases "k \<in> mt_key_image ` set xs")
    case True
    then obtain y where y: "y \<in> set xs" "k = mt_key_image y" by blast
    then show ?thesis
      using Cons.IH [OF inj] step the_inv_into_f_f [OF inj y(1)] the_inv_into_f_f [OF Cons.prems, of y]
      by simp
  next
    case False
    then show ?thesis
      using Cons.IH [OF inj] step u the_inv_into_f_f [OF Cons.prems, of x] by auto
  qed
qed (simp add: insert_matched_def)

lemma insert_matched_Some:
  assumes "inj_on mt_key_image (set xs)"
  shows "map_of (insert_matched xs m) k = Some x \<longleftrightarrow>
    (x \<in> set xs \<and> mt_key_image x = k) \<or> (k \<notin> mt_key_image ` set xs \<and> map_of m k = Some x)"
  using insert_matched_law [OF assms, of m k] the_inv_into_f_f [OF assms]
  by (auto dest: inj_onD [OF assms])

lemma owned_in_Suc: "f \<le> n \<Longrightarrow> owned_in lib ak bs f (Suc n) = owned_in lib ak bs f n \<union> set (owned lib ak bs n)"
  by (auto simp: owned_in_def atLeastLessThanSuc)

lemma spent_in_Suc: "f \<le> n \<Longrightarrow> spent_in bs f (Suc n) = spent_in bs f n \<union> set (bc_key_images (bs ! n))"
  by (auto simp: spent_in_def atLeastLessThanSuc)

lemma owned_in_mono: "n \<le> n' \<Longrightarrow> owned_in lib ak bs f n \<subseteq> owned_in lib ak bs 0 n'"
  unfolding owned_in_def by (rule UN_mono) auto

text \<open>An output of the next block has a key image of its own, and is not spent so far.\<close>

lemma chain_ok_next:
  assumes "chain_ok lib ak bs" and "n < length bs" and "x \<in> set (owned lib ak bs n)"
  shows "mt_key_image x \<notin> spent_in bs f (Suc n)"
    and "y \<in> owned_in lib ak bs f (Suc n) \<Longrightarrow> mt_key_image y = mt_key_image x \<Longrightarrow> y = x"
proof -
  show "mt_key_image x \<notin> spent_in bs f (Suc n)"
  proof
    assume "mt_key_image x \<in> spent_in bs f (Suc n)"
    then obtain i where i: "i < Suc n" "mt_key_image x \<in> set (bc_key_images (bs ! i))"
      by (auto simp: spent_in_def)
    moreover have "i < length bs" using i(1) assms(2) by simp
    ultimately have "n < i" using assms unfolding chain_ok_def by blast
    with i(1) show False by simp
  qed
  assume y: "y \<in> owned_in lib ak bs f (Suc n)" "mt_key_image y = mt_key_image x"
  have inj: "inj_on mt_key_image (owned_in lib ak bs 0 (length bs))" using assms(1) by (simp add: chain_ok_def)
  have "y \<in> owned_in lib ak bs 0 (length bs)" using owned_in_mono [of "Suc n" "length bs" lib ak bs f] y(1) assms(2) by auto
  moreover have "x \<in> owned_in lib ak bs 0 (length bs)" using assms(2,3) by (auto simp: owned_in_def)
  ultimately show "y = x" using inj y(2) by (simp add: inj_on_eq_iff)
qed

lemma chain_ok_key_images:
  assumes "chain_ok lib ak bs" and "n < length bs" and "k \<in> set (bc_key_images (bs ! n))"
  shows "k \<notin> spent_in bs f n"
proof
  assume "k \<in> spent_in bs f n"
  then obtain i where i: "i < n" "k \<in> set (bc_key_images (bs ! i))" by (auto simp: spent_in_def)
  have "set (bc_key_images (bs ! i)) \<inter> set (bc_key_images (bs ! n)) = {}"
    using assms(1,2) i(1) by (simp add: chain_ok_def)
  with i(2) assms(3) show False by blast
qed

abbreviation scanned_at :: "scan_lib \<Rightarrow> account_key \<Rightarrow> chain \<Rightarrow> nat \<Rightarrow> scanned_block" where
  "scanned_at lib ak bs i \<equiv>
     \<lparr>sb_block_index = of_nat i, sb_matched_tx_outs = owned lib ak bs i, sb_key_images = bc_key_images (bs ! i)\<rparr>"

lemma record_block_law:
  assumes ok: "chain_ok lib ak bs" and at: "wallet_at lib ak bs f n (sc_state sc)"
    and n: "f \<le> n" "n < length bs"
  shows "wallet_at lib ak bs f (Suc n) (sc_state (record_block (scanned_at lib ak bs n) sc)) \<and>
    sc_file (record_block (scanned_at lib ak bs n) sc) = sc_file sc \<and>
    (\<exists>e. sc_events (record_block (scanned_at lib ak bs n) sc) = sc_events sc @ [e] \<and> event_at lib ak bs f n e)"
proof -
  let ?m = "matched_tx_outs (sc_state sc)"
  obtain xs m' where t: "take_spent (bc_key_images (bs ! n)) ?m = (xs, m')" by fastforce
  have d: "distinct (map fst ?m)"
    and of: "\<And>k x. map_of ?m k = Some x \<longleftrightarrow>
      x \<in> owned_in lib ak bs f n \<and> mt_key_image x = k \<and> k \<notin> spent_in bs f n"
    and nx: "next_block_index (sc_state sc) = of_nat n"
    using at by (auto simp: wallet_at_def)
  have law: "distinct (map fst m')"
      "\<And>k x. map_of m' k = Some x \<longleftrightarrow> map_of ?m k = Some x \<and> k \<notin> set (bc_key_images (bs ! n))"
      "set xs = {x. \<exists>k\<in>set (bc_key_images (bs ! n)). map_of ?m k = Some x}"
    using take_spent_law [OF d t] by auto
  have inj: "inj_on mt_key_image (set (owned lib ak bs n))"
  proof (rule inj_on_subset)
    show "inj_on mt_key_image (owned_in lib ak bs 0 (length bs))" using ok by (simp add: chain_ok_def)
    show "set (owned lib ak bs n) \<subseteq> owned_in lib ak bs 0 (length bs)" using n(2) by (auto simp: owned_in_def)
  qed
  note new = chain_ok_next [OF ok n(2)]
  have "map_of (insert_matched (owned lib ak bs n) m') k = Some x \<longleftrightarrow>
      x \<in> owned_in lib ak bs f (Suc n) \<and> mt_key_image x = k \<and> k \<notin> spent_in bs f (Suc n)" for k x
  proof (cases "k \<in> mt_key_image ` set (owned lib ak bs n)")
    case True
    then obtain y where y: "y \<in> set (owned lib ak bs n)" "mt_key_image y = k" by blast
    then show ?thesis
      using new(1) [OF y(1), of f] new(2) [OF y(1), of x f] n(1)
      by (auto simp: insert_matched_Some [OF inj] owned_in_Suc)
  next
    case False
    then show ?thesis using n(1) law(2) of
      by (auto simp: insert_matched_Some [OF inj] owned_in_Suc spent_in_Suc)
  qed
  moreover have "event_at lib ak bs f n (BlockProcessed (of_nat n) (owned lib ak bs n) xs)"
  proof -
    have "distinct xs" by (rule take_spent_distinct [OF d t]) (use of in blast)
    moreover have "k \<notin> spent_in bs f n" if "k \<in> set (bc_key_images (bs ! n))" for k
      using chain_ok_key_images [OF ok n(2) that] .
    ultimately show ?thesis using law(3) of by (auto simp: event_at_def)
  qed
  ultimately show ?thesis
    using nx t insert_matched_distinct [OF law(1)]
    by (simp add: record_block_def wallet_at_def)
qed

lemma record_blocks_law:
  assumes ok: "chain_ok lib ak bs"
  shows "wallet_at lib ak bs f n (sc_state sc) \<Longrightarrow> f \<le> n \<Longrightarrow> n + d \<le> length bs \<Longrightarrow>
    \<exists>sc' es. record_blocks (map (scanned_at lib ak bs) [n..<n + d]) sc = (Ok (), sc') \<and>
      wallet_at lib ak bs f (n + d) (sc_state sc') \<and> sc_file sc' = sc_file sc \<and>
      sc_events sc' = sc_events sc @ es \<and> list_all2 (event_at lib ak bs f) [n..<n + d] es"
proof (induction d arbitrary: n sc)
  case (Suc d)
  let ?sc = "record_block (scanned_at lib ak bs n) sc"
  have split: "[n..<n + Suc d] = n # [Suc n..<Suc n + d]" by (simp add: upt_conv_Cons)
  have nx: "next_block_index (sc_state sc) = of_nat n" using Suc.prems(1) by (simp add: wallet_at_def)
  obtain e where 1: "wallet_at lib ak bs f (Suc n) (sc_state ?sc)" "sc_file ?sc = sc_file sc"
      "sc_events ?sc = sc_events sc @ [e]" "event_at lib ak bs f n e"
    using record_block_law [OF ok Suc.prems(1,2)] Suc.prems(3) by auto
  obtain sc' es where 2: "record_blocks (map (scanned_at lib ak bs) [Suc n..<Suc n + d]) ?sc = (Ok (), sc')"
      "wallet_at lib ak bs f (Suc n + d) (sc_state sc')" "sc_file sc' = sc_file ?sc"
      "sc_events sc' = sc_events ?sc @ es" "list_all2 (event_at lib ak bs f) [Suc n..<Suc n + d] es"
    using Suc.IH [OF 1(1)] Suc.prems(2,3) by auto
  show ?case
    unfolding split using 1 2 nx
    by (intro exI [of _ sc'] exI [of _ "e # es"]) (simp del: upt_Suc)
qed simp

definition wallet_io_ok :: "wallet_io \<Rightarrow> bool" where
  "wallet_io_ok io \<longleftrightarrow>
     (\<forall>st. \<exists>bytes. ws_serialize io st = Ok bytes \<and> fs_write io bytes = Ok () \<and>
        fs_read io bytes = Ok bytes \<and> ws_deserialize io bytes = Ok st)"

lemma state_save_load:
  assumes "wallet_io_ok io"
  shows "\<exists>bytes. state_save io st file = (Ok (), Some bytes) \<and> state_load io (Some bytes) i = Ok st"
proof -
  obtain bytes where "ws_serialize io st = Ok bytes" "fs_write io bytes = Ok ()"
      "fs_read io bytes = Ok bytes" "ws_deserialize io bytes = Ok st"
    using assms unfolding wallet_io_ok_def by blast
  then show ?thesis by (simp add: state_save_def state_load_def)
qed

text \<open>A ledger that holds a prefix of the chain.\<close>

definition views :: "'l ledger_ops \<Rightarrow> ('l \<Rightarrow> chain) \<Rightarrow> chain \<Rightarrow> 'l \<Rightarrow> bool" where
  "views ldg blocks bs l \<longleftrightarrow> blocks l = take (length (blocks l)) bs \<and> length (blocks l) \<le> length bs"

lemma scan_block_law:
  assumes "healthy_ledger ldg blocks" and ok: "chain_ok lib ak bs" and v: "views ldg blocks bs l"
    and i: "i < length (blocks l)"
  shows "scan_block lib ldg ak l (of_nat i) = Ok (Some (scanned_at lib ak bs i))"
proof -
  have small: "unat (of_nat i :: u64) = i"
    using i v ok by (intro unat_of_nat_small) (simp add: views_def chain_ok_def)
  have "is_ok (get_block_contents ldg (of_nat i) l)"
    using healthy_ledger.get_block_ok(1) [OF assms(1)] i small by simp
  then obtain b where b: "get_block_contents ldg (of_nat i) l = Ok b"
    by (cases "get_block_contents ldg (of_nat i) l") auto
  then have "b = blocks l ! i"
    using ledger_laws.get_block_law(2) [OF healthy_ledger.axioms(1) [OF assms(1)]] small by metis
  then have "b = bs ! i" using v i unfolding views_def by (metis nth_take)
  moreover have "is_ok (scan_outputs lib ak (of_nat i) (bc_outputs (bs ! i)))"
    using ok i v by (simp add: chain_ok_def views_def)
  ultimately show ?thesis using b
    by (cases "scan_outputs lib ak (of_nat i) (bc_outputs (bs ! i))")
      (simp_all add: scan_block_def process_block_def owned_def)
qed

lemma scan_range:
  assumes "n < 2 ^ 63" and "m < 2 ^ 63"
  shows "map (of_nat :: nat \<Rightarrow> u64) [unat (of_nat n :: u64)..<unat (min (of_nat m :: u64) (of_nat n + of_nat SCAN_CHUNK_SIZE))] =
    map of_nat [n..<min m (n + SCAN_CHUNK_SIZE)]"
proof -
  have "n + SCAN_CHUNK_SIZE < 2 ^ 64" using assms(1) by (simp add: SCAN_CHUNK_SIZE_def)
  then have "unat (of_nat (n + SCAN_CHUNK_SIZE) :: u64) = n + SCAN_CHUNK_SIZE"
    by (simp add: unsigned_of_nat take_bit_nat_eq_self_iff del: of_nat_add)
  moreover have "unat (of_nat m :: u64) = m" "unat (of_nat n :: u64) = n"
    using assms by (simp_all add: unat_of_nat_small)
  ultimately show ?thesis by (simp add: min_def word_le_nat_alt)
qed

text \<open>One round: the wallet advances by the next chunk, reports each block and stores its state.\<close>

lemma scan_round_law:
  assumes h: "healthy_ledger ldg blocks" and ok: "chain_ok lib ak bs" and io: "wallet_io_ok io"
    and v: "views ldg blocks bs l"
    and at: "wallet_at lib ak bs f n (sc_state sc)" "f \<le> n" "n < 2 ^ 63"
    and n': "n' = max n (min (length (blocks l)) (n + SCAN_CHUNK_SIZE))"
  shows "\<exists>sc' es. scan_round lib ldg io ak l sc = (Ok (), sc') \<and>
    wallet_at lib ak bs f n' (sc_state sc') \<and> state_load io (sc_file sc') f0 = Ok (sc_state sc') \<and>
    sc_events sc' = sc_events sc @ es \<and> list_all2 (event_at lib ak bs f) [n..<n'] es"
proof -
  let ?L = "length (blocks l)"
  have L: "?L < 2 ^ 63" "?L \<le> length bs" using ok v by (simp_all add: chain_ok_def views_def)
  have up: "[n..<n'] = [n..<min ?L (n + SCAN_CHUNK_SIZE)]"
    using n' by (cases "n \<le> ?L") (simp_all add: max_def)
  have nx: "next_block_index (sc_state sc) = of_nat n" using at(1) by (simp add: wallet_at_def)
  have "collect_results (scan_block lib ldg ak l) (map of_nat [n..<n']) =
      Ok (map (\<lambda>i. Some (scanned_at lib ak bs i)) [n..<n'])"
  proof -
    have "list_all2 (\<lambda>x y. scan_block lib ldg ak l x = Ok y) (map of_nat [n..<n'])
        (map (\<lambda>i. Some (scanned_at lib ak bs i)) [n..<n'])"
      unfolding list_all2_map1 list_all2_map2 up
      by (rule list.rel_refl_strong) (use scan_block_law [OF h ok v] in simp)
    then show ?thesis by (simp add: collect_results_eq_Ok)
  qed
  moreover obtain sc1 es where 1: "record_blocks (map (scanned_at lib ak bs) [n..<n']) sc = (Ok (), sc1)"
      "wallet_at lib ak bs f n' (sc_state sc1)" "sc_file sc1 = sc_file sc"
      "sc_events sc1 = sc_events sc @ es" "list_all2 (event_at lib ak bs f) [n..<n'] es"
  proof (cases "n' = n")
    case False
    then have "n \<le> n'" "n' \<le> length bs" using n' L(2) by (auto simp: max_def min_def split: if_splits)
    then show ?thesis using record_blocks_law [OF ok at(1,2), of "n' - n"] that by auto
  qed (use that [of sc "[]"] at(1) in simp)
  moreover obtain bytes where 2: "state_save io (sc_state sc1) (sc_file sc1) = (Ok (), Some bytes)"
      "state_load io (Some bytes) f0 = Ok (sc_state sc1)"
    using state_save_load [OF io] by blast
  moreover have "concat (map (case_option [] (\<lambda>b. [b])) (map (\<lambda>i. Some (scanned_at lib ak bs i)) [n..<n'])) =
      map (scanned_at lib ak bs) [n..<n']"
    by (simp add: comp_def)
  ultimately show ?thesis
    using scan_range [OF at(3) L(1)] healthy_ledger.num_blocks_ok [OF h, of l] nx
    by (auto simp: scan_round_def up Let_def simp del: map_map)
qed

text \<open>How far the rounds get.\<close>

definition scan_progress :: "('l \<Rightarrow> chain) \<Rightarrow> 'l list \<Rightarrow> nat \<Rightarrow> nat" where
  "scan_progress blocks ls n =
     fold (\<lambda>l n. max n (min (length (blocks l)) (n + SCAN_CHUNK_SIZE))) ls n"

lemma scan_progress_Cons [simp]:
  "scan_progress blocks (l # ls) n =
     scan_progress blocks ls (max n (min (length (blocks l)) (n + SCAN_CHUNK_SIZE)))"
  by (simp add: scan_progress_def)

lemma scan_progress_ge: "n \<le> scan_progress blocks ls n"
proof (induction ls arbitrary: n)
  case (Cons l ls)
  show ?case using Cons.IH [of "max n (min (length (blocks l)) (n + SCAN_CHUNK_SIZE))"] by simp
qed (simp add: scan_progress_def)

lemma scan_progress_reaches:
  "\<forall>l\<in>set ls. L \<le> length (blocks l) \<Longrightarrow>
     min L (n + SCAN_CHUNK_SIZE * length ls) \<le> scan_progress blocks ls n"
proof (induction ls arbitrary: n)
  case (Cons l ls)
  let ?n = "max n (min (length (blocks l)) (n + SCAN_CHUNK_SIZE))"
  have "min L (?n + SCAN_CHUNK_SIZE * length ls) \<le> scan_progress blocks ls ?n" using Cons by simp
  moreover have "min L (n + SCAN_CHUNK_SIZE * length (l # ls)) \<le> min L (?n + SCAN_CHUNK_SIZE * length ls)"
    using Cons.prems by (auto simp: min_def max_def)
  ultimately show ?case unfolding scan_progress_Cons by (rule order_trans [rotated])
qed (simp add: scan_progress_def)

lemma scanner_run_law:
  assumes h: "healthy_ledger ldg blocks" and ok: "chain_ok lib ak bs" and io: "wallet_io_ok io"
  shows "\<forall>l\<in>set ls. views ldg blocks bs l \<Longrightarrow> wallet_at lib ak bs f n (sc_state sc) \<Longrightarrow> f \<le> n \<Longrightarrow>
    n < 2 ^ 63 \<Longrightarrow>
    \<exists>sc' es. scanner_run lib ldg io ak ls sc = (Ok (), sc') \<and>
      wallet_at lib ak bs f (scan_progress blocks ls n) (sc_state sc') \<and>
      (ls \<noteq> [] \<longrightarrow> state_load io (sc_file sc') f0 = Ok (sc_state sc')) \<and>
      sc_events sc' = sc_events sc @ es \<and>
      list_all2 (event_at lib ak bs f) [n..<scan_progress blocks ls n] es \<and>
      scan_progress blocks ls n < 2 ^ 63"
proof (induction ls arbitrary: n sc)
  case (Cons l ls)
  let ?n = "max n (min (length (blocks l)) (n + SCAN_CHUNK_SIZE))"
  have v: "views ldg blocks bs l" "\<forall>l\<in>set ls. views ldg blocks bs l" using Cons.prems(1) by simp_all
  obtain sc1 es where 1: "scan_round lib ldg io ak l sc = (Ok (), sc1)"
      "wallet_at lib ak bs f ?n (sc_state sc1)" "state_load io (sc_file sc1) f0 = Ok (sc_state sc1)"
      "sc_events sc1 = sc_events sc @ es" "list_all2 (event_at lib ak bs f) [n..<?n] es"
    using scan_round_law [OF h ok io v(1) Cons.prems(2-4) refl] by blast
  have "?n < 2 ^ 63" "f \<le> ?n" using Cons.prems(3,4) v(1) ok by (auto simp: views_def chain_ok_def)
  then obtain sc2 fs where 2: "scanner_run lib ldg io ak ls sc1 = (Ok (), sc2)"
      "wallet_at lib ak bs f (scan_progress blocks ls ?n) (sc_state sc2)"
      "ls \<noteq> [] \<longrightarrow> state_load io (sc_file sc2) f0 = Ok (sc_state sc2)"
      "sc_events sc2 = sc_events sc1 @ fs"
      "list_all2 (event_at lib ak bs f) [?n..<scan_progress blocks ls ?n] fs"
      "scan_progress blocks ls ?n < 2 ^ 63"
    using Cons.IH [OF v(2) 1(2)] by blast
  have "[n..<scan_progress blocks ls ?n] = [n..<?n] @ [?n..<scan_progress blocks ls ?n]"
    using scan_progress_ge [of ?n blocks ls] upt_add_eq_append [of n ?n "scan_progress blocks ls ?n - ?n"] by simp
  then have "list_all2 (event_at lib ak bs f) [n..<scan_progress blocks ls ?n] (es @ fs)"
    using list_all2_appendI [OF 1(5) 2(5)] by simp
  moreover have "state_load io (sc_file sc2) f0 = Ok (sc_state sc2)"
    using 2(1,3) 1(3) by (cases ls) auto
  ultimately show ?case using 1(1,4) 2 by (intro exI [of _ sc2] exI [of _ "es @ fs"]) simp
qed (simp add: scan_progress_def)

lemma wallet_at_start: "wallet_at lib ak bs f f \<lparr>next_block_index = of_nat f, matched_tx_outs = []\<rparr>"
  by (simp add: wallet_at_def owned_in_def)

text \<open>What the wallet shows, in a state it should be in.\<close>

lemma wallet_at_shows:
  assumes "wallet_at lib ak bs f n (sc_state sc)"
  shows "set (wallet_matched_tx_outs sc) = {m \<in> owned_in lib ak bs f n. mt_key_image m \<notin> spent_in bs f n}"
    and "distinct (map mt_key_image (wallet_matched_tx_outs sc))"
proof -
  let ?m = "matched_tx_outs (sc_state sc)"
  have d: "distinct (map fst ?m)"
    and of: "\<And>k m. map_of ?m k = Some m \<longleftrightarrow>
      m \<in> owned_in lib ak bs f n \<and> mt_key_image m = k \<and> k \<notin> spent_in bs f n"
    using assms unfolding wallet_at_def by blast+
  have in_m: "(k, m) \<in> set ?m \<longleftrightarrow>
      m \<in> owned_in lib ak bs f n \<and> mt_key_image m = k \<and> k \<notin> spent_in bs f n" for k m
    using of [of k m] d by (simp add: map_of_eq_Some_iff)
  then show "set (wallet_matched_tx_outs sc) =
      {m \<in> owned_in lib ak bs f n. mt_key_image m \<notin> spent_in bs f n}"
    by (simp add: wallet_matched_tx_outs_def set_eq_iff image_iff Bex_def)
  have "map mt_key_image (map snd ?m) = map fst ?m"
    by (simp add: map_eq_conv split_paired_Ball_Sigma) (metis in_m prod.collapse)
  then have "distinct (map mt_key_image (map snd ?m))" using d by (simp only:)
  then show "distinct (map mt_key_image (wallet_matched_tx_outs sc))"
    unfolding wallet_matched_tx_outs_def
    by (simp only: distinct_map distinct_sort set_sort)
qed

section \<open>A small chain\<close>

text \<open>
  Keys without cryptography: the target key names the subaddress, the key image is the public key,
  and an output without further content cannot be unmasked.
\<close>

definition sample_scan_lib :: scan_lib where
  "sample_scan_lib =
     \<lparr>ristretto_try_from = Ok, view_private_key = id, get_tx_out_shared_secret = (\<lambda>_ p. p),
      get_masked_amount = (\<lambda>t. if tx_out_rest t = [] then Err ''masked'' else Ok (tx_out_rest t)),
      masked_get_value = (\<lambda>m _. Ok \<lparr>amount_value = ucast (hd m), amount_token_id = 0\<rparr>),
      recover_public_subaddress_spend_key = (\<lambda>_ t _. t), recover_onetime_private_key = (\<lambda>p _ _. p),
      key_image_from = id, subaddress_spend_public = (\<lambda>_ i. [ucast i]),
      subaddress_spend_private = (\<lambda>_ i. [ucast i]),
      DEFAULT_SUBADDRESS_INDEX = 0, CHANGE_SUBADDRESS_INDEX = - 2\<rparr>"

abbreviation sample_txo :: "u8 \<Rightarrow> u8 \<Rightarrow> bytes \<Rightarrow> tx_out" where
  "sample_txo p t r \<equiv> \<lparr>public_key = [p], target_key = [t], tx_out_rest = r\<rparr>"

definition sample_chain :: chain where
  "sample_chain =
     [\<lparr>bc_key_images = [], bc_outputs = [sample_txo 1 0 [50], sample_txo 2 9 [60], sample_txo 3 1 [70]]\<rparr>,
      \<lparr>bc_key_images = [[1]], bc_outputs = [sample_txo 4 0 [40], sample_txo 5 0 []]\<rparr>]"

abbreviation sample_match :: "u64 \<Rightarrow> u8 \<Rightarrow> u8 \<Rightarrow> u64 \<Rightarrow> u64 \<Rightarrow> matched_tx_out" where
  "sample_match b p v t s \<equiv>
     \<lparr>mt_block_index = b, mt_tx_out = sample_txo p (ucast t) [v],
      mt_amount = \<lparr>amount_value = ucast v, amount_token_id = 0\<rparr>, mt_subaddress_index = s, mt_key_image = [p]\<rparr>"

lemma sample_owned:
  "scan_outputs sample_scan_lib [] 0 (bc_outputs (sample_chain ! 0)) =
     Ok [sample_match 0 1 50 0 0, sample_match 0 3 70 1 1]"
  "scan_outputs sample_scan_lib [] 1 (bc_outputs (sample_chain ! 1)) = Ok [sample_match 1 4 40 0 0]"
  by (simp_all add: sample_chain_def sample_scan_lib_def view_key_scan_def default_spsk_to_index_map_def)

lemma sample_owned_in:
  "owned sample_scan_lib [] sample_chain 0 = [sample_match 0 1 50 0 0, sample_match 0 3 70 1 1]"
  "owned sample_scan_lib [] sample_chain (Suc 0) = [sample_match 1 4 40 0 0]"
  using sample_owned by (simp_all add: owned_def)

lemma sample_chain_ok: "chain_ok sample_scan_lib [] sample_chain"
proof -
  have len: "length sample_chain = 2" by (simp add: sample_chain_def)
  have all: "(\<forall>i<length sample_chain. P i) \<longleftrightarrow> P 0 \<and> P (Suc 0)" for P
    unfolding len by (auto simp: less_2_cases_iff)
  let ?os = "owned sample_scan_lib [] sample_chain 0 @ owned sample_scan_lib [] sample_chain (Suc 0)"
  have "owned_in sample_scan_lib [] sample_chain 0 (length sample_chain) = set ?os"
    unfolding owned_in_def len numeral_2_eq_2 by (auto simp: atLeastLessThanSuc)
  moreover have "distinct (map mt_key_image ?os)" by (simp add: sample_owned_in)
  ultimately have inj: "inj_on mt_key_image (owned_in sample_scan_lib [] sample_chain 0 (length sample_chain))"
    by (simp only: distinct_map)
  have ki: "bc_key_images (sample_chain ! 0) = []" "bc_key_images (sample_chain ! Suc 0) = [[1]]"
    by (simp_all add: sample_chain_def)
  show ?thesis
    using sample_owned inj unfolding chain_ok_def all by (simp add: len ki sample_owned_in)
qed

definition enc_matched :: "matched_tx_out \<Rightarrow> bytes" where
  "enc_matched = enc_via (\<lambda>m. (mt_block_index m, mt_tx_out m, mt_amount m, mt_subaddress_index m, mt_key_image m))
     (enc_two enc_u64 (enc_two enc_tx_out (enc_two enc_amount (enc_two enc_u64 enc_bytes))))"

definition dec_matched :: "bytes \<Rightarrow> (matched_tx_out \<times> bytes) option" where
  "dec_matched = dec_via (\<lambda>(b, t, a, s, k). \<lparr>mt_block_index = b, mt_tx_out = t, mt_amount = a,
       mt_subaddress_index = s, mt_key_image = k\<rparr>)
     (dec_two dec_u64 (dec_two dec_tx_out (dec_two dec_amount (dec_two dec_u64 dec_bytes))))"

definition enc_wallet :: "wallet_state \<Rightarrow> bytes" where
  "enc_wallet = enc_via (\<lambda>s. (next_block_index s, matched_tx_outs s))
     (enc_two enc_u64 (enc_list (enc_two enc_bytes enc_matched)))"

definition dec_wallet :: "bytes \<Rightarrow> (wallet_state \<times> bytes) option" where
  "dec_wallet = dec_via (\<lambda>(n, m). \<lparr>next_block_index = n, matched_tx_outs = m\<rparr>)
     (dec_two dec_u64 (dec_list (dec_two dec_bytes dec_matched)))"

lemma self_delimiting_matched: "self_delimiting enc_matched dec_matched"
  unfolding enc_matched_def dec_matched_def
  by (rule self_delimiting_via)
    (auto intro!: self_delimiting_basics self_delimiting_tx_out self_delimiting_amount)

lemma self_delimiting_wallet: "self_delimiting enc_wallet dec_wallet"
  unfolding enc_wallet_def dec_wallet_def
  by (rule self_delimiting_via) (auto intro!: self_delimiting_basics self_delimiting_matched)

definition sample_io :: wallet_io where
  "sample_io =
     \<lparr>ws_serialize = (\<lambda>s. Ok (enc_wallet s)),
      ws_deserialize = (\<lambda>bs. case dec_wallet bs of Some (s, []) \<Rightarrow> Ok s | _ \<Rightarrow> Err ''wallet state''),
      fs_read = Ok, fs_write = (\<lambda>_. Ok ())\<rparr>"

lemma sample_io_ok: "wallet_io_ok sample_io"
proof -
  have "dec_wallet (enc_wallet s @ []) = Some (s, [])" for s
    using self_delimiting_wallet by (simp only: self_delimiting_def)
  then show ?thesis by (simp add: wallet_io_ok_def sample_io_def)
qed

lemma sample_chain_length: "length sample_chain = 2"
  by (simp add: sample_chain_def)

lemma sample_views:
  "\<forall>l\<in>set [chain_of (take 1 sample_chain), chain_of sample_chain]. views list_ledger chain_blocks sample_chain l"
  by (simp add: views_def sample_chain_length)

section \<open>Properties\<close>

text \<open>
  C31: The wallet tracks exactly the unspent outputs of its account. Started without a state file at
  block \<open>f\<close>, after any number of rounds on a growing ledger it has scanned the blocks from \<open>f\<close> up to
  some \<open>n\<close>; its outputs are those received in these blocks and not spent in them, each once; it has
  reported each scanned block exactly once and in order, with the outputs the block received and the
  tracked outputs it spent; it did not panic; and a wallet that is created from the file it saved
  resumes in the same state.
\<close>

theorem wallet_scan_exact:
  assumes "healthy_ledger ldg blocks" and "chain_ok lib ak bs" and "wallet_io_ok io"
    and "\<forall>l\<in>set ls. views ldg blocks bs l" and "f < 2 ^ 63" and "ls \<noteq> []"
    and "mini_wallet_new io None (of_nat f) = Ok sc"
  shows "\<exists>sc' n. scanner_run lib ldg io ak ls sc = (Ok (), sc') \<and>
    f \<le> n \<and> wallet_next_block_index sc' = of_nat n \<and>
    set (wallet_matched_tx_outs sc') = {m \<in> owned_in lib ak bs f n. mt_key_image m \<notin> spent_in bs f n} \<and>
    distinct (map mt_key_image (wallet_matched_tx_outs sc')) \<and>
    list_all2 (event_at lib ak bs f) [f..<n] (sc_events sc') \<and>
    mini_wallet_new io (sc_file sc') f0 = Ok (sc'\<lparr>sc_events := []\<rparr>)"
proof -
  have sc: "sc_state sc = \<lparr>next_block_index = of_nat f, matched_tx_outs = []\<rparr>" "sc_events sc = []"
    using assms(7) by (auto simp: mini_wallet_new_def state_load_def)
  let ?n = "scan_progress blocks ls f"
  obtain sc' es where run: "scanner_run lib ldg io ak ls sc = (Ok (), sc')"
      "wallet_at lib ak bs f ?n (sc_state sc')" "state_load io (sc_file sc') f0 = Ok (sc_state sc')"
      "sc_events sc' = es" "list_all2 (event_at lib ak bs f) [f..<?n] es"
    using scanner_run_law [OF assms(1-4), of f f sc f0] wallet_at_start [of lib ak bs f] sc assms(5,6) by auto
  then show ?thesis
    using scan_progress_ge [of f blocks ls] wallet_at_shows [OF run(2)]
    by (intro exI [of _ sc'] exI [of _ ?n])
      (simp add: mini_wallet_new_def wallet_next_block_index_def wallet_at_def)
qed

theorem wallet_scan_exact_witness:
  "\<exists>sc' n. scanner_run sample_scan_lib list_ledger sample_io []
      [chain_of (take 1 sample_chain), chain_of sample_chain]
      \<lparr>sc_state = \<lparr>next_block_index = 0, matched_tx_outs = []\<rparr>, sc_file = None, sc_events = []\<rparr> = (Ok (), sc') \<and>
    wallet_next_block_index sc' = of_nat n \<and>
    set (wallet_matched_tx_outs sc') =
      {m \<in> owned_in sample_scan_lib [] sample_chain 0 n. mt_key_image m \<notin> spent_in sample_chain 0 n}"
proof -
  have new: "mini_wallet_new sample_io None (of_nat 0) =
      Ok \<lparr>sc_state = \<lparr>next_block_index = 0, matched_tx_outs = []\<rparr>, sc_file = None, sc_events = []\<rparr>"
    by (simp add: mini_wallet_new_def state_load_def)
  show ?thesis
    using wallet_scan_exact [OF lc.healthy_ledger_axioms sample_chain_ok sample_io_ok sample_views
      zero_less_power [OF pos2] list.distinct(2) new, of 0]
    by blast
qed

text \<open>
  C36: The wallet catches up. Enough rounds (one per 1000 blocks) on a ledger that has at least \<open>L\<close>
  blocks bring it past block \<open>L\<close>, having reported every block from the first one on: the wallet never
  gets stuck and never skips a block.
\<close>

theorem wallet_catches_up:
  assumes "healthy_ledger ldg blocks" and "chain_ok lib ak bs" and "wallet_io_ok io"
    and "\<forall>l\<in>set ls. views ldg blocks bs l \<and> L \<le> length (blocks l)" and "f < 2 ^ 63"
    and "L \<le> f + SCAN_CHUNK_SIZE * length ls"
    and "mini_wallet_new io None (of_nat f) = Ok sc"
  shows "\<exists>sc'. scanner_run lib ldg io ak ls sc = (Ok (), sc') \<and>
    L \<le> unat (wallet_next_block_index sc') \<and>
    (\<forall>i\<in>{f..<L}. \<exists>e\<in>set (sc_events sc'). event_at lib ak bs f i e)"
proof -
  have sc: "sc_state sc = \<lparr>next_block_index = of_nat f, matched_tx_outs = []\<rparr>" "sc_events sc = []"
    using assms(7) by (auto simp: mini_wallet_new_def state_load_def)
  let ?n = "scan_progress blocks ls f"
  have v: "\<forall>l\<in>set ls. views ldg blocks bs l" using assms(4) by blast
  obtain sc' es where run: "scanner_run lib ldg io ak ls sc = (Ok (), sc')"
      "wallet_at lib ak bs f ?n (sc_state sc')" "sc_events sc' = es"
      "list_all2 (event_at lib ak bs f) [f..<?n] es" "?n < 2 ^ 63"
    using scanner_run_law [OF assms(1-3) v, of f f sc 0] wallet_at_start [of lib ak bs f] sc assms(5) by auto
  have L: "L \<le> ?n" using scan_progress_reaches [of ls L blocks f] assms(4,6) by simp
  have "\<exists>e\<in>set es. event_at lib ak bs f i e" if "i \<in> {f..<L}" for i
  proof -
    have "i - f < length es" using that L list_all2_lengthD [OF run(4)] by auto
    moreover have "event_at lib ak bs f i (es ! (i - f))"
      using list_all2_nthD [OF run(4), of "i - f"] that L by auto
    ultimately show ?thesis by (meson nth_mem)
  qed
  moreover have "unat (wallet_next_block_index sc') = ?n"
    using run(2,5) by (simp add: wallet_at_def wallet_next_block_index_def unat_of_nat_small)
  ultimately show ?thesis using run(1,3) L by (intro exI [of _ sc']) simp
qed

theorem wallet_catches_up_witness:
  "\<exists>sc'. scanner_run sample_scan_lib list_ledger sample_io [] [chain_of sample_chain]
      \<lparr>sc_state = \<lparr>next_block_index = 0, matched_tx_outs = []\<rparr>, sc_file = None, sc_events = []\<rparr> = (Ok (), sc') \<and>
    2 \<le> unat (wallet_next_block_index sc')"
proof -
  have new: "mini_wallet_new sample_io None (of_nat 0) =
      Ok \<lparr>sc_state = \<lparr>next_block_index = 0, matched_tx_outs = []\<rparr>, sc_file = None, sc_events = []\<rparr>"
    by (simp add: mini_wallet_new_def state_load_def)
  have v: "\<forall>l\<in>set [chain_of sample_chain]. views list_ledger chain_blocks sample_chain l \<and> 2 \<le> length (chain_blocks l)"
    using sample_views by (simp add: sample_chain_length)
  show ?thesis
    using wallet_catches_up [OF lc.healthy_ledger_axioms sample_chain_ok sample_io_ok v
      zero_less_power [OF pos2] _ new]
    by (simp add: SCAN_CHUNK_SIZE_def) blast
qed

text \<open>
  The spent outputs of a block are looked up before the outputs of the same block are recorded: an
  output that is received and spent within one block stays tracked.
\<close>

lemma spent_in_same_block_stays:
  "matched_tx_outs (sc_state (record_block
     \<lparr>sb_block_index = 0, sb_matched_tx_outs = [sample_match 0 1 50 0 0], sb_key_images = [[1]]\<rparr>
     \<lparr>sc_state = \<lparr>next_block_index = 0, matched_tx_outs = []\<rparr>, sc_file = None, sc_events = []\<rparr>)) =
   [([1], sample_match 0 1 50 0 0)]"
  by (simp add: record_block_def insert_matched_def)

end
