(* ===== verification/Liquidity_Bot.thy ===== *)
theory Liquidity_Bot
  imports Mini_Wallet Client_Service "HOL-Library.Monad_Syntax" "HOL-Library.Multiset"
begin

text \<open>
  The liquidity bot (\<open>liquidity-bot/src/lib.rs\<close>): it turns the outputs its wallet receives into SCIs
  at a configured rate, submits them to a DEQS server, keeps them listed, and notices when they are
  spent. The decimal numbers of the rate, the random numbers, the transaction builder and the calls
  on the ledger that only the bot makes are the parameter \<open>bot_lib\<close>. The server behind the gRPC
  client is a state \<open>'w\<close> and a function that answers a request.

  The loop that samples a ring may run forever; a value of type option says whether it returned. The
  time the bot reads at its \<open>k\<close>-th reading within one step is \<open>clock k\<close>.
\<close>

section \<open>Outputs and commands\<close>

record pending_tx_out =
  pt_matched :: matched_tx_out
  pt_sci :: sci

record listed_tx_out =
  lt_matched :: matched_tx_out
  lt_quote :: quote
  last_submitted_at :: u64

record stats =
  num_pending_by_token :: "token_id \<rightharpoonup> nat"
  total_pending_value_by_token :: "token_id \<rightharpoonup> u64"
  num_listed_by_token :: "token_id \<rightharpoonup> nat"
  total_listed_value_by_token :: "token_id \<rightharpoonup> u64"

record fulfilled_sci =
  fs_listed :: listed_tx_out
  requested_counter_output :: revealed_tx_out
  received_counter_output :: matched_tx_out
  received_base_change_output :: "matched_tx_out option"

datatype bot_command =
    WalletEvent wallet_event
  | GetStats nat
  | GetPendingTxOuts nat
  | GetListedTxOuts nat

datatype bot_answer =
    StatsAnswer stats
  | PendingAnswer "pending_tx_out list"
  | ListedAnswer "listed_tx_out list"

record ('d, 'l) bot_lib =
  dec_from_u64 :: "u64 \<Rightarrow> 'd"
  dec_mul :: "'d \<Rightarrow> 'd \<Rightarrow> 'd option"
  dec_ceil :: "'d \<Rightarrow> 'd"
  dec_to_u64 :: "'d \<Rightarrow> u64 option"
  dec_display :: "'d \<Rightarrow> string"
  num_txos :: "'l \<Rightarrow> (u64, ledger_error) result"
  get_tx_out_index_by_public_key :: "bytes \<Rightarrow> 'l \<Rightarrow> (u64, ledger_error) result"
  get_tx_out_proof_of_memberships :: "u64 list \<Rightarrow> 'l \<Rightarrow> (bytes list, ledger_error) result"
  hash_set_order :: "u64 list \<Rightarrow> u64 list"
  input_credentials_new :: "tx_out list \<Rightarrow> bytes list \<Rightarrow> nat \<Rightarrow> u64 \<Rightarrow> (bytes, string) result"
  sci_builder_new :: "bytes \<Rightarrow> (bytes, string) result"
  add_partial_fill_output :: "amount \<Rightarrow> bytes \<Rightarrow> (bytes, string) result"
  add_partial_fill_change_output :: "amount \<Rightarrow> bytes \<Rightarrow> (bytes, string) result"
  sci_builder_build :: "bytes \<Rightarrow> (sci, string) result"

text \<open>
  The state of the task, with the state of the server it is connected to, the answers it gave on the
  channels of commands, the channels whose receivers are gone, and the fills its metrics recorded:
  the token, the value received and the value asked for.
\<close>

record ('d, 'w) bot_task =
  bot_pairs :: "token_id \<rightharpoonup> token_id \<times> 'd"
  pending_tx_outs :: "pending_tx_out list"
  listed_tx_outs :: "listed_tx_out list"
  bot_deqs :: 'w
  bot_answers :: "(nat \<times> bot_answer) list"
  bot_dropped :: "nat set"
  bot_fills :: "(token_id \<times> u64 \<times> u64) list"

definition QUOTE_REFRESH_INTERVAL :: u64 where
  "QUOTE_REFRESH_INTERVAL = 600 * 1000"

section \<open>Statistics\<close>

definition count_entry :: "token_id \<Rightarrow> (token_id \<rightharpoonup> nat) \<Rightarrow> token_id \<rightharpoonup> nat" where
  "count_entry t m = m(t \<mapsto> (case m t of None \<Rightarrow> 0 | Some n \<Rightarrow> n) + 1)"

definition sum_entry :: "token_id \<Rightarrow> u64 \<Rightarrow> (token_id \<rightharpoonup> u64) \<Rightarrow> token_id \<rightharpoonup> u64" where
  "sum_entry t v m = m(t \<mapsto> (case m t of None \<Rightarrow> 0 | Some n \<Rightarrow> n) + v)"

definition default_entries :: "(token_id \<rightharpoonup> 'x) \<Rightarrow> 'n \<Rightarrow> (token_id \<rightharpoonup> 'n) \<Rightarrow> token_id \<rightharpoonup> 'n" where
  "default_entries ps z m = (\<lambda>t. case m t of Some n \<Rightarrow> Some n | None \<Rightarrow> if ps t = None then None else Some z)"

definition count_by_token :: "matched_tx_out list \<Rightarrow> token_id \<rightharpoonup> nat" where
  "count_by_token ms = fold (\<lambda>m. count_entry (amount_token_id (mt_amount m))) ms Map.empty"

definition sum_by_token :: "matched_tx_out list \<Rightarrow> token_id \<rightharpoonup> u64" where
  "sum_by_token ms =
     fold (\<lambda>m. sum_entry (amount_token_id (mt_amount m)) (amount_value (mt_amount m))) ms Map.empty"

definition stats_from :: "('d, 'w) bot_task \<Rightarrow> stats" where
  "stats_from st =
     (let pending = map pt_matched (pending_tx_outs st); listed = map lt_matched (listed_tx_outs st) in
      \<lparr>num_pending_by_token = default_entries (bot_pairs st) 0 (count_by_token pending),
       total_pending_value_by_token = default_entries (bot_pairs st) 0 (sum_by_token pending),
       num_listed_by_token = default_entries (bot_pairs st) 0 (count_by_token listed),
       total_listed_value_by_token = default_entries (bot_pairs st) 0 (sum_by_token listed)\<rparr>)"

section \<open>Spent outputs\<close>

text \<open>\<open>position\<close> and \<open>remove\<close>: the first listed output with the key image, and the others.\<close>

fun remove_listed :: "key_image \<Rightarrow> listed_tx_out list \<Rightarrow> (listed_tx_out \<times> listed_tx_out list) option" where
  "remove_listed k [] = None"
| "remove_listed k (x # xs) =
     (if mt_key_image (lt_matched x) = k then Some (x, xs)
      else map_option (\<lambda>(y, ys). (y, x # ys)) (remove_listed k xs))"

fun unlist_spent_tx_outs ::
  "matched_tx_out list \<Rightarrow> listed_tx_out list \<Rightarrow> listed_tx_out list \<times> listed_tx_out list" where
  "unlist_spent_tx_outs [] listed = ([], listed)"
| "unlist_spent_tx_outs (m # ms) listed =
     (case remove_listed (mt_key_image m) listed of
        None \<Rightarrow> unlist_spent_tx_outs ms listed
      | Some (x, rest) \<Rightarrow> (case unlist_spent_tx_outs ms rest of (xs, r) \<Rightarrow> (x # xs, r)))"

text \<open>The division to a fraction in floating point is left as the two values it divides.\<close>

definition fill_percents :: "mc_lib \<Rightarrow> fulfilled_sci \<Rightarrow> (u64 \<times> u64, bot_error) result" where
  "fill_percents lib f =
     map_ok (\<lambda>requested. (amount_value (mt_amount (received_counter_output f)), amount_value requested))
       (map_err RevealedTxOutError (reveal_amount lib (requested_counter_output f)))"

definition find_received :: "tx_out \<Rightarrow> matched_tx_out list \<Rightarrow> matched_tx_out option" where
  "find_received t = List.find (\<lambda>m. public_key (mt_tx_out m) = public_key t)"

definition sci_partial_fill_outputs :: "sci \<Rightarrow> revealed_tx_out list" where
  "sci_partial_fill_outputs s =
     (case sci_input_rules s of None \<Rightarrow> [] | Some rules \<Rightarrow> partial_fill_outputs rules)"

fun look_for_fulfilled_scis ::
  "mc_lib \<Rightarrow> listed_tx_out list \<Rightarrow> matched_tx_out list \<Rightarrow> (fulfilled_sci list, bot_error) result" where
  "look_for_fulfilled_scis lib [] received = Ok []"
| "look_for_fulfilled_scis lib (x # xs) received =
     (case sci_partial_fill_outputs (q_sci (lt_quote x)) of
        [partial_fill_output] \<Rightarrow>
          (let change = Option.bind (sci_input_rules (q_sci (lt_quote x))) (\<lambda>rules.
                 Option.bind (partial_fill_change rules) (\<lambda>r. find_received (revealed_output r) received))
           in case find_received (revealed_output partial_fill_output) received of
              Some received_counter \<Rightarrow>
                (let f = \<lparr>fs_listed = x, requested_counter_output = partial_fill_output,
                          received_counter_output = received_counter,
                          received_base_change_output = change\<rparr>
                 in and_then (fill_percents lib f) (\<lambda>_.
                      map_ok (\<lambda>fs. f # fs) (look_for_fulfilled_scis lib xs received)))
            | None \<Rightarrow> look_for_fulfilled_scis lib xs received)
      | _ \<Rightarrow> look_for_fulfilled_scis lib xs received)"

definition update_metrics_from_fulfilled_sci ::
  "mc_lib \<Rightarrow> fulfilled_sci \<Rightarrow> (token_id \<times> u64 \<times> u64) list \<Rightarrow> (token_id \<times> u64 \<times> u64) list" where
  "update_metrics_from_fulfilled_sci lib f fills =
     (case fill_percents lib f of
        Ok p \<Rightarrow> fills @ [(base_token_id (q_pair (lt_quote (fs_listed f))), p)]
      | _ \<Rightarrow> fills)"

section \<open>Building SCIs\<close>

definition RING_SIZE :: nat where
  "RING_SIZE = 11"

text \<open>The indices that are drawn until there are enough different ones.\<close>

partial_function (option) sample_indices :: "(nat \<Rightarrow> u64) \<Rightarrow> nat \<Rightarrow> u64 list \<Rightarrow> u64 list option" where
  "sample_indices draw k acc =
     (if length acc < RING_SIZE then sample_indices draw (Suc k) (List.insert (draw k) acc)
      else Some acc)"

definition counter_amount ::
  "('d, 'l) bot_lib \<Rightarrow> u64 \<Rightarrow> 'd \<Rightarrow> (u64, bot_error) result" where
  "counter_amount blib v swap_rate =
     (case dec_mul blib (dec_from_u64 blib v) swap_rate of
        None \<Rightarrow> Panic
      | Some d \<Rightarrow>
          ok_or (DecimalConversion (''Could not convert '' @ show_u64 v @ '' times '' @
             dec_display blib swap_rate @ '' to u64'')) (dec_to_u64 blib (dec_ceil blib d)))"

text \<open>The SCI for an output, once the indices of the ring are known.\<close>

definition build_sci ::
  "('d, 'l) bot_lib \<Rightarrow> 'l ledger_ops \<Rightarrow> 'l \<Rightarrow> matched_tx_out \<Rightarrow> token_id \<Rightarrow> u64 \<Rightarrow> u64 list \<Rightarrow>
     (sci, bot_error) result" where
  "build_sci blib ldg l m counter_token counter indices =
     and_then (map_err LedgerDb (collect_results (\<lambda>i. get_tx_out_by_index ldg i l) indices)) (\<lambda>tx_outs.
     and_then (map_err LedgerDb (get_tx_out_proof_of_memberships blib indices l)) (\<lambda>proofs.
     and_then (map_err TxBuilderError (input_credentials_new blib tx_outs proofs 0 (mt_subaddress_index m)))
       (\<lambda>credentials.
     and_then (map_err SignedContingentInputBuilder (sci_builder_new blib credentials)) (\<lambda>builder.
     and_then (map_err TxBuilderError (add_partial_fill_output blib
       \<lparr>amount_value = counter, amount_token_id = counter_token\<rparr> builder)) (\<lambda>builder.
     and_then (map_err TxBuilderError (add_partial_fill_change_output blib (mt_amount m) builder)) (\<lambda>builder.
       map_err TxBuilderError (sci_builder_build blib builder)))))))"

definition create_pending_tx_out ::
  "('d, 'l) bot_lib \<Rightarrow> 'l ledger_ops \<Rightarrow> 'l \<Rightarrow> (token_id \<rightharpoonup> token_id \<times> 'd) \<Rightarrow> (nat \<Rightarrow> u64) \<Rightarrow>
     matched_tx_out \<Rightarrow> (pending_tx_out, bot_error) result option" where
  "create_pending_tx_out blib ldg l ps draw m =
     (case ps (amount_token_id (mt_amount m)) of
        None \<Rightarrow> Some (Err (UnknownTokenId (amount_token_id (mt_amount m))))
      | Some (counter_token, swap_rate) \<Rightarrow>
          (case counter_amount blib (amount_value (mt_amount m)) swap_rate of
             Err e \<Rightarrow> Some (Err e)
           | Panic \<Rightarrow> Some Panic
           | Ok counter \<Rightarrow>
               (case num_txos blib l of
                  Err e \<Rightarrow> Some (Err (LedgerDb e))
                | Panic \<Rightarrow> Some Panic
                | Ok n \<Rightarrow>
                    if n = 0 then Some Panic
                    else do {
                      sampled \<leftarrow> sample_indices draw 0 [];
                      Some (and_then (map_err LedgerDb
                          (get_tx_out_index_by_public_key blib (public_key (mt_tx_out m)) l)) (\<lambda>our_index.
                        map_ok (\<lambda>s. \<lparr>pt_matched = m, pt_sci = s\<rparr>)
                          (build_sci blib ldg l m counter_token counter
                            ((hash_set_order blib sampled)[0 := our_index]))))
                    })))"

text \<open>
  The received outputs of configured tokens become pending, unless they are tracked already. The
  numbers drawn for an output are \<open>rng\<close> of it.
\<close>

definition is_tracked :: "key_image \<Rightarrow> ('d, 'w) bot_task \<Rightarrow> bool" where
  "is_tracked k st \<longleftrightarrow>
     k \<in> (\<lambda>p. mt_key_image (pt_matched p)) ` set (pending_tx_outs st) \<or>
     k \<in> (\<lambda>x. mt_key_image (lt_matched x)) ` set (listed_tx_outs st)"

fun update_pending_tx_outs ::
  "('d, 'l) bot_lib \<Rightarrow> 'l ledger_ops \<Rightarrow> 'l \<Rightarrow> (matched_tx_out \<Rightarrow> nat \<Rightarrow> u64) \<Rightarrow> matched_tx_out list \<Rightarrow>
     bool \<Rightarrow> ('d, 'w) bot_task \<Rightarrow> ((bool, bot_error) result \<times> ('d, 'w) bot_task) option" where
  "update_pending_tx_outs blib ldg l rng [] added st = Some (Ok added, st)"
| "update_pending_tx_outs blib ldg l rng (m # ms) added st =
     (if bot_pairs st (amount_token_id (mt_amount m)) = None \<or> is_tracked (mt_key_image m) st
      then update_pending_tx_outs blib ldg l rng ms added st
      else do {
        r \<leftarrow> create_pending_tx_out blib ldg l (bot_pairs st) (rng m) m;
        case r of
          Ok p \<Rightarrow> update_pending_tx_outs blib ldg l rng ms True
                    (st\<lparr>pending_tx_outs := pending_tx_outs st @ [p]\<rparr>)
        | Err e \<Rightarrow> Some (Err e, st)
        | Panic \<Rightarrow> Some (Panic, st)
      })"

section \<open>Submitting\<close>

type_synonym 'w deqs_client = "bytes list \<Rightarrow> 'w \<Rightarrow> (submit_quotes_response, string) result \<times> 'w"

definition submit_quotes ::
  "'w deqs_client \<Rightarrow> bytes list \<Rightarrow> ('d, 'w) bot_task \<Rightarrow>
     (submit_quotes_response, bot_error) result \<times> ('d, 'w) bot_task" where
  "submit_quotes deqs req st =
     (case deqs req (bot_deqs st) of (r, w) \<Rightarrow> (map_err Grpc r, st\<lparr>bot_deqs := w\<rparr>))"

definition sanity_check_submit_quotes_response ::
  "submit_quotes_response \<Rightarrow> nat \<Rightarrow> (unit, bot_error) result" where
  "sanity_check_submit_quotes_response resp expected_len =
     (if length (status_codes resp) \<noteq> expected_len
      then Err (InvalidGrpcResponse (''Number of status codes in response does not match number of quotes in request. Expected ''
        @ show_nat expected_len @ '', got '' @ show_nat (length (status_codes resp)) @ ''.''))
      else if length (error_messages resp) \<noteq> expected_len
      then Err (InvalidGrpcResponse (''Number of error messages in response does not match number of quotes in request. Expected ''
        @ show_nat expected_len @ '', got '' @ show_nat (length (error_messages resp)) @ ''.''))
      else if length (response_quotes resp) \<noteq> expected_len
      then Err (InvalidGrpcResponse (''Number of quotes in response does not match number of quotes in request. Expected ''
        @ show_nat expected_len @ '', got '' @ show_nat (length (response_quotes resp)) @ ''.''))
      else Ok ())"

text \<open>The loop over the drained pending outputs and the lists of the response.\<close>

fun list_submitted ::
  "api_lib \<Rightarrow> (nat \<Rightarrow> u64) \<Rightarrow> nat \<Rightarrow> (pending_tx_out \<times> quote_status_code \<times> string \<times> api_quote) list \<Rightarrow>
     ('d, 'w) bot_task \<Rightarrow> (unit, bot_error) result \<times> ('d, 'w) bot_task" where
  "list_submitted api clock k [] st = (Ok (), st)"
| "list_submitted api clock k ((p, code, msg, aq) # rest) st =
     (if code = CREATED \<or> code = QUOTE_ALREADY_EXISTS
      then (case quote_try_from_api api aq of
          Ok q \<Rightarrow>
            if q_sci q = pt_sci p \<or> code = QUOTE_ALREADY_EXISTS
            then list_submitted api clock (Suc k) rest
              (st\<lparr>listed_tx_outs := listed_tx_outs st @
                  [\<lparr>lt_matched = pt_matched p, lt_quote = q, last_submitted_at = clock k\<rparr>]\<rparr>)
            else (Panic, st)
        | Err e \<Rightarrow> (Err (ApiConversion e), st)
        | Panic \<Rightarrow> (Panic, st))
      else list_submitted api clock k rest st)"

definition response_rows ::
  "'x list \<Rightarrow> submit_quotes_response \<Rightarrow> ('x \<times> quote_status_code \<times> string \<times> api_quote) list" where
  "response_rows xs resp =
     zip xs (zip (status_codes resp) (zip (error_messages resp) (response_quotes resp)))"

definition submit_pending_tx_outs ::
  "api_lib \<Rightarrow> 'w deqs_client \<Rightarrow> (nat \<Rightarrow> u64) \<Rightarrow> ('d, 'w) bot_task \<Rightarrow>
     (unit, bot_error) result \<times> ('d, 'w) bot_task" where
  "submit_pending_tx_outs api deqs clock st =
     (if pending_tx_outs st = [] then (Ok (), st)
      else (let req = map (\<lambda>p. sci_to_api api (pt_sci p)) (pending_tx_outs st) in
        then_do (submit_quotes deqs req st) (\<lambda>resp st.
        then_do (sanity_check_submit_quotes_response resp (length req), st) (\<lambda>_ st.
          list_submitted api clock 0 (response_rows (pending_tx_outs st) resp)
            (st\<lparr>pending_tx_outs := []\<rparr>)))))"

section \<open>Resubmitting\<close>

definition needs_resubmit :: "u64 \<Rightarrow> u64 \<Rightarrow> listed_tx_out \<Rightarrow> bool" where
  "needs_resubmit older_than current_time x \<longleftrightarrow>
     older_than < (case checked_sub current_time (last_submitted_at x) of None \<Rightarrow> 0 | Some d \<Rightarrow> d)"

fun relist_submitted ::
  "api_lib \<Rightarrow> (nat \<Rightarrow> u64) \<Rightarrow> nat \<Rightarrow> (listed_tx_out \<times> quote_status_code \<times> string \<times> api_quote) list \<Rightarrow>
     ('d, 'w) bot_task \<Rightarrow> (unit, bot_error) result \<times> ('d, 'w) bot_task" where
  "relist_submitted api clock k [] st = (Ok (), st)"
| "relist_submitted api clock k ((x, code, msg, aq) # rest) st =
     (case code of
        CREATED \<Rightarrow>
          (case quote_try_from_api api aq of
             Ok q \<Rightarrow>
               if q_sci q = q_sci (lt_quote x)
               then relist_submitted api clock (Suc k) rest
                 (st\<lparr>listed_tx_outs := listed_tx_outs st @ [x\<lparr>lt_quote := q, last_submitted_at := clock k\<rparr>]\<rparr>)
               else (Panic, st)
           | Err e \<Rightarrow> (Err (ApiConversion e), st)
           | Panic \<Rightarrow> (Panic, st))
      | QUOTE_ALREADY_EXISTS \<Rightarrow>
          (case quote_try_from_api api aq of
             Ok q \<Rightarrow>
               (let x' = (if q = lt_quote x then x else x\<lparr>lt_quote := q\<rparr>) in
                relist_submitted api clock (Suc k) rest
                 (st\<lparr>listed_tx_outs := listed_tx_outs st @ [x'\<lparr>last_submitted_at := clock k\<rparr>]\<rparr>))
           | Err e \<Rightarrow> (Err (ApiConversion e), st)
           | Panic \<Rightarrow> (Panic, st))
      | _ \<Rightarrow> relist_submitted api clock k rest st)"

definition resubmit_listed_tx_outs ::
  "api_lib \<Rightarrow> 'w deqs_client \<Rightarrow> (nat \<Rightarrow> u64) \<Rightarrow> u64 \<Rightarrow> ('d, 'w) bot_task \<Rightarrow>
     (unit, bot_error) result \<times> ('d, 'w) bot_task" where
  "resubmit_listed_tx_outs api deqs clock older_than st =
     (case partition (needs_resubmit older_than (clock 0)) (listed_tx_outs st) of
        (to_resubmit, to_keep) \<Rightarrow>
          (let st = st\<lparr>listed_tx_outs := to_keep\<rparr> in
           if to_resubmit = [] then (Ok (), st)
           else (let req = map (\<lambda>x. sci_to_api api (q_sci (lt_quote x))) to_resubmit in
             case submit_quotes deqs req st of
               (Err e, st) \<Rightarrow> (Err e, st\<lparr>listed_tx_outs := listed_tx_outs st @ to_resubmit\<rparr>)
             | (Panic, st) \<Rightarrow> (Panic, st)
             | (Ok resp, st) \<Rightarrow>
                 then_do (sanity_check_submit_quotes_response resp (length req), st) (\<lambda>_ st.
                   relist_submitted api clock 1 (response_rows to_resubmit resp) st))))"

section \<open>The task\<close>

definition answer_command ::
  "nat \<Rightarrow> bot_answer \<Rightarrow> ('d, 'w) bot_task \<Rightarrow> (unit, bot_error) result \<times> ('d, 'w) bot_task" where
  "answer_command c a st =
     (if c \<in> bot_dropped st then (Panic, st) else (Ok (), st\<lparr>bot_answers := bot_answers st @ [(c, a)]\<rparr>))"

text \<open>An error of a step is logged, a panic ends the task.\<close>

fun log_error :: "(unit, bot_error) result \<times> 's \<Rightarrow> (unit, bot_error) result \<times> 's" where
  "log_error (Panic, st) = (Panic, st)"
| "log_error (_, st) = (Ok (), st)"

definition handle_spent_tx_outs ::
  "mc_lib \<Rightarrow> matched_tx_out list \<Rightarrow> matched_tx_out list \<Rightarrow> ('d, 'w) bot_task \<Rightarrow>
     (unit, bot_error) result \<times> ('d, 'w) bot_task" where
  "handle_spent_tx_outs lib received_tx_outs spent_tx_outs st =
     (case unlist_spent_tx_outs spent_tx_outs (listed_tx_outs st) of (spent_listed, listed) \<Rightarrow>
       (let st = st\<lparr>listed_tx_outs := listed\<rparr> in
        case look_for_fulfilled_scis lib spent_listed received_tx_outs of
          Ok fs \<Rightarrow> (Ok (), st\<lparr>bot_fills := fold (update_metrics_from_fulfilled_sci lib) fs (bot_fills st)\<rparr>)
        | Err e \<Rightarrow> (Ok (), st)
        | Panic \<Rightarrow> (Panic, st)))"

definition handle_wallet_event ::
  "mc_lib \<Rightarrow> ('d, 'l) bot_lib \<Rightarrow> 'l ledger_ops \<Rightarrow> api_lib \<Rightarrow> 'w deqs_client \<Rightarrow> 'l \<Rightarrow>
     (matched_tx_out \<Rightarrow> nat \<Rightarrow> u64) \<Rightarrow> (nat \<Rightarrow> u64) \<Rightarrow> wallet_event \<Rightarrow> ('d, 'w) bot_task \<Rightarrow>
     ((unit, bot_error) result \<times> ('d, 'w) bot_task) option" where
  "handle_wallet_event lib blib ldg api deqs l rng clock e st =
     (case e of BlockProcessed _ received_tx_outs spent_tx_outs \<Rightarrow>
        (case handle_spent_tx_outs lib received_tx_outs spent_tx_outs st of
           (Ok _, st) \<Rightarrow> do {
             r \<leftarrow> update_pending_tx_outs blib ldg l rng received_tx_outs False st;
             Some (case r of
               (Ok True, st) \<Rightarrow> log_error (submit_pending_tx_outs api deqs clock st)
             | (Panic, st) \<Rightarrow> (Panic, st)
             | (_, st) \<Rightarrow> (Ok (), st))
           }
         | (r, st) \<Rightarrow> Some (r, st)))"

text \<open>What the loop waits for; with each wallet event, the ledger and the random numbers then.\<close>

datatype 'l bot_input =
    BotCommand 'l "matched_tx_out \<Rightarrow> nat \<Rightarrow> u64" "nat \<Rightarrow> u64" bot_command
  | CommandsClosed
  | ResubmitTick "nat \<Rightarrow> u64" "nat \<Rightarrow> u64"
  | BotShutdown

fun continue_with :: "(unit, bot_error) result \<times> 's \<Rightarrow> (bool, bot_error) result \<times> 's" where
  "continue_with (r, st) = (map_ok (\<lambda>_. True) r, st)"

fun bot_step ::
  "mc_lib \<Rightarrow> ('d, 'l) bot_lib \<Rightarrow> 'l ledger_ops \<Rightarrow> api_lib \<Rightarrow> 'w deqs_client \<Rightarrow> 'l bot_input \<Rightarrow>
     ('d, 'w) bot_task \<Rightarrow> ((bool, bot_error) result \<times> ('d, 'w) bot_task) option" where
  "bot_step lib blib ldg api deqs (BotCommand l rng clock (WalletEvent e)) st =
     map_option continue_with (handle_wallet_event lib blib ldg api deqs l rng clock e st)"
| "bot_step lib blib ldg api deqs (BotCommand l rng clock (GetStats c)) st =
     Some (continue_with (answer_command c (StatsAnswer (stats_from st)) st))"
| "bot_step lib blib ldg api deqs (BotCommand l rng clock (GetPendingTxOuts c)) st =
     Some (continue_with (answer_command c (PendingAnswer (pending_tx_outs st)) st))"
| "bot_step lib blib ldg api deqs (BotCommand l rng clock (GetListedTxOuts c)) st =
     Some (continue_with (answer_command c (ListedAnswer (listed_tx_outs st)) st))"
| "bot_step lib blib ldg api deqs CommandsClosed st = Some (Ok False, st)"
| "bot_step lib blib ldg api deqs (ResubmitTick clock clock') st =
     Some (continue_with (
       then_do (log_error (resubmit_listed_tx_outs api deqs clock QUOTE_REFRESH_INTERVAL st)) (\<lambda>_ st.
         log_error (submit_pending_tx_outs api deqs clock' st))))"
| "bot_step lib blib ldg api deqs BotShutdown st = Some (Ok False, st)"

fun bot_run ::
  "mc_lib \<Rightarrow> ('d, 'l) bot_lib \<Rightarrow> 'l ledger_ops \<Rightarrow> api_lib \<Rightarrow> 'w deqs_client \<Rightarrow> 'l bot_input list \<Rightarrow>
     ('d, 'w) bot_task \<Rightarrow> ((bool, bot_error) result \<times> ('d, 'w) bot_task) option" where
  "bot_run lib blib ldg api deqs [] st = Some (Ok True, st)"
| "bot_run lib blib ldg api deqs (i # is) st = do {
     r \<leftarrow> bot_step lib blib ldg api deqs i st;
     case r of (Ok True, st') \<Rightarrow> bot_run lib blib ldg api deqs is st' | _ \<Rightarrow> Some r
   }"

definition bot_new :: "(token_id \<rightharpoonup> token_id \<times> 'd) \<Rightarrow> 'w \<Rightarrow> ('d, 'w) bot_task" where
  "bot_new ps w =
     \<lparr>bot_pairs = ps, pending_tx_outs = [], listed_tx_outs = [], bot_deqs = w, bot_answers = [],
      bot_dropped = {}, bot_fills = []\<rparr>"

section \<open>Start-up\<close>

text \<open>
  \<open>bin/main.rs\<close>: the bot trades one pair, is first fed the outputs the wallet knows, one event per
  block, and then every event of the wallet.
\<close>

function group_by_block :: "matched_tx_out list \<Rightarrow> matched_tx_out list list" where
  "group_by_block [] = []"
| "group_by_block (m # ms) =
     (m # takeWhile (\<lambda>x. mt_block_index x = mt_block_index m) ms) #
       group_by_block (dropWhile (\<lambda>x. mt_block_index x = mt_block_index m) ms)"
  by pat_completeness auto
termination
  by (relation "measure length") (auto simp: le_imp_less_Suc length_dropWhile_le)

definition existing_events :: "scanner \<Rightarrow> wallet_event list" where
  "existing_events sc =
     map (\<lambda>g. BlockProcessed (mt_block_index (hd g)) g []) (group_by_block (wallet_matched_tx_outs sc))"

definition main_pairs :: "token_id \<Rightarrow> token_id \<Rightarrow> 'd \<Rightarrow> token_id \<rightharpoonup> token_id \<times> 'd" where
  "main_pairs base counter swap_rate = [base \<mapsto> (counter, swap_rate)]"

section \<open>What the bot tracks\<close>

definition bot_outputs :: "('d, 'w) bot_task \<Rightarrow> matched_tx_out list" where
  "bot_outputs st = map pt_matched (pending_tx_outs st) @ map lt_matched (listed_tx_outs st)"

text \<open>Each output once, all of them received, and all of configured tokens.\<close>

definition bot_inv :: "matched_tx_out set \<Rightarrow> ('d, 'w) bot_task \<Rightarrow> bool" where
  "bot_inv R st \<longleftrightarrow>
     distinct (map mt_key_image (bot_outputs st)) \<and> set (bot_outputs st) \<subseteq> R \<and>
     (\<forall>m\<in>set (bot_outputs st). bot_pairs st (amount_token_id (mt_amount m)) \<noteq> None)"

lemma distinct_map_submset:
  assumes "mset ys \<subseteq># mset xs" and "distinct (map f xs)"
  shows "distinct (map f ys)"
proof -
  have "count (mset (map f ys)) a \<le> count (mset (map f xs)) a" for a
    using mset_subset_eq_count [OF image_mset_subseteq_mono [OF assms(1), of f], of a] by simp
  moreover have "count (mset (map f xs)) a \<le> 1" for a
    using assms(2) unfolding distinct_count_atmost_1 by simp
  ultimately have le: "count (mset (map f ys)) a \<le> 1" for a using le_trans by blast
  have "count (mset (map f ys)) a = (if a \<in> set (map f ys) then 1 else 0)" for a
    using le [of a] by (metis One_nat_def count_greater_zero_iff count_mset_0_iff le_antisym set_mset_mset Suc_leI)
  then show ?thesis unfolding distinct_count_atmost_1 by blast
qed

lemma bot_inv_submset:
  assumes "bot_inv R st" and "mset (bot_outputs st') \<subseteq># mset (bot_outputs st)" and "bot_pairs st' = bot_pairs st"
  shows "bot_inv R st'"
proof -
  have "set (bot_outputs st') \<subseteq> set (bot_outputs st)"
    using set_mset_mono [OF assms(2)] by simp
  then show ?thesis
    using assms(1,3) distinct_map_submset [OF assms(2)] by (auto simp: bot_inv_def)
qed

lemma bot_inv_mono: "bot_inv R st \<Longrightarrow> R \<subseteq> R' \<Longrightarrow> bot_inv R' st"
  by (auto simp: bot_inv_def)

lemma bot_inv_add:
  assumes "bot_inv R st" and "\<not> is_tracked (mt_key_image m) st" and "m \<in> R"
    and "bot_pairs st (amount_token_id (mt_amount m)) \<noteq> None" and "pt_matched p = m"
  shows "bot_inv R (st\<lparr>pending_tx_outs := pending_tx_outs st @ [p]\<rparr>)"
proof -
  have "mt_key_image m \<notin> mt_key_image ` set (bot_outputs st)"
    using assms(2) by (auto simp: is_tracked_def bot_outputs_def)
  then show ?thesis using assms by (auto simp: bot_inv_def bot_outputs_def)
qed

section \<open>Lemmas on the steps\<close>

lemma remove_listed_Some:
  "remove_listed k xs = Some (x, ys) \<Longrightarrow>
     mset xs = add_mset x (mset ys) \<and> mt_key_image (lt_matched x) = k"
  by (induction xs arbitrary: ys) (auto split: if_splits)

lemma remove_listed_None: "remove_listed k xs = None \<longleftrightarrow> (\<forall>x\<in>set xs. mt_key_image (lt_matched x) \<noteq> k)"
  by (induction xs) auto

lemma unlist_spent_mset:
  "unlist_spent_tx_outs ms xs = (rs, ys) \<Longrightarrow> mset xs = mset rs + mset ys"
proof (induction ms xs arbitrary: rs ys rule: unlist_spent_tx_outs.induct)
  case (2 m ms xs)
  then show ?case
    by (auto split: option.splits prod.splits dest!: remove_listed_Some)
qed simp

text \<open>With distinct key images, exactly the spent ones are removed.\<close>

lemma unlist_spent_exact:
  assumes "distinct (map (\<lambda>x. mt_key_image (lt_matched x)) xs)" and "unlist_spent_tx_outs ms xs = (rs, ys)"
  shows "set rs = {x \<in> set xs. mt_key_image (lt_matched x) \<in> mt_key_image ` set ms} \<and>
    set ys = {x \<in> set xs. mt_key_image (lt_matched x) \<notin> mt_key_image ` set ms}"
  using assms
proof (induction ms xs arbitrary: rs ys rule: unlist_spent_tx_outs.induct)
  case (2 m ms xs)
  show ?case
  proof (cases "remove_listed (mt_key_image m) xs")
    case None
    then have "unlist_spent_tx_outs ms xs = (rs, ys)" using 2(4) by simp
    moreover have "\<forall>x\<in>set xs. mt_key_image (lt_matched x) \<noteq> mt_key_image m"
      using None by (simp add: remove_listed_None)
    ultimately show ?thesis using 2(1) [OF None 2(3)] by auto
  next
    case (Some r)
    obtain x rest where r: "r = (x, rest)" by fastforce
    obtain rs' where u: "unlist_spent_tx_outs ms rest = (rs', ys)" "rs = x # rs'"
      using 2(4) Some r by (auto split: prod.splits)
    have ms: "mset xs = add_mset x (mset rest)" and kx: "mt_key_image (lt_matched x) = mt_key_image m"
      using remove_listed_Some Some r by auto
    have "mset (map (\<lambda>x. mt_key_image (lt_matched x)) xs) = mset (map (\<lambda>x. mt_key_image (lt_matched x)) (x # rest))"
      using ms by simp
    then have d: "distinct (map (\<lambda>x. mt_key_image (lt_matched x)) (x # rest))"
      using 2(3) mset_eq_imp_distinct_iff by blast
    have xs: "set xs = insert x (set rest)" using arg_cong [OF ms, of set_mset] by simp
    have ih: "set rs' = {x \<in> set rest. mt_key_image (lt_matched x) \<in> mt_key_image ` set ms}"
        "set ys = {x \<in> set rest. mt_key_image (lt_matched x) \<notin> mt_key_image ` set ms}"
      using 2(2) [OF Some r [symmetric] _ u(1)] d by simp_all
    have other: "mt_key_image (lt_matched y) \<noteq> mt_key_image m" if "y \<in> set rest" for y
      using d that kx by (auto simp: image_iff)
    then show ?thesis using ih u(2) xs kx by auto
  qed
qed simp

lemma submset_add: "A \<subseteq># B \<Longrightarrow> A \<subseteq># add_mset x B"
  by (auto simp: subseteq_mset_def intro: le_SucI)

lemma list_submitted_listed:
  "list_submitted api clock k rows st = (r, st') \<Longrightarrow>
     pending_tx_outs st' = pending_tx_outs st \<and> bot_pairs st' = bot_pairs st \<and> bot_deqs st' = bot_deqs st \<and>
     (\<exists>ys. listed_tx_outs st' = listed_tx_outs st @ ys \<and>
        mset (map lt_matched ys) \<subseteq># mset (map (pt_matched \<circ> fst) rows))"
proof (induction api clock k rows st rule: list_submitted.induct)
  case (2 api clock k p code msg aq rest st)
  show ?case
  proof (cases "code = CREATED \<or> code = QUOTE_ALREADY_EXISTS")
    case True
    note ih = 2(1) [OF True]
    show ?thesis
    proof (cases "quote_try_from_api api aq")
      case (Ok q)
      show ?thesis
      proof (cases "q_sci q = pt_sci p \<or> code = QUOTE_ALREADY_EXISTS")
        case acc: True
        then show ?thesis using ih [OF Ok acc] 2(3) True Ok by (auto simp: subset_mset.add_left_mono)
      next
        case False
        then show ?thesis using 2(3) True Ok by auto
      qed
    qed (use 2(3) True in auto)
  next
    case False
    then show ?thesis using 2(2) [OF False] 2(3) by (auto intro: submset_add)
  qed
qed auto

lemma relist_submitted_listed:
  "relist_submitted api clock k rows st = (r, st') \<Longrightarrow>
     pending_tx_outs st' = pending_tx_outs st \<and> bot_pairs st' = bot_pairs st \<and> bot_deqs st' = bot_deqs st \<and>
     (\<exists>ys. listed_tx_outs st' = listed_tx_outs st @ ys \<and>
        mset (map lt_matched ys) \<subseteq># mset (map (lt_matched \<circ> fst) rows))"
proof (induction api clock k rows st rule: relist_submitted.induct)
  case (2 api clock k x code msg aq rest st)
  show ?case
  proof (cases code)
    case CREATED
    show ?thesis
    proof (cases "quote_try_from_api api aq")
      case (Ok q)
      then show ?thesis using 2(1) [OF CREATED Ok] 2(7) CREATED
        by (cases "q_sci q = q_sci (lt_quote x)") (auto simp: subset_mset.add_left_mono)
    qed (use 2(7) CREATED in auto)
  next
    case QUOTE_ALREADY_EXISTS
    show ?thesis
    proof (cases "quote_try_from_api api aq")
      case (Ok q)
      then show ?thesis using 2(4) [OF QUOTE_ALREADY_EXISTS Ok refl] 2(7) QUOTE_ALREADY_EXISTS
        by (auto simp: Let_def split: if_splits)
    qed (use 2(7) QUOTE_ALREADY_EXISTS in auto)
  qed (use 2 in \<open>auto intro: submset_add\<close>)
qed auto

lemma submit_quotes_task [simp]:
  assumes "submit_quotes deqs req st = (r, st')"
  shows "pending_tx_outs st' = pending_tx_outs st" "listed_tx_outs st' = listed_tx_outs st"
    "bot_pairs st' = bot_pairs st"
  using assms by (auto simp: submit_quotes_def split: prod.splits)

lemma sanity_check_ok:
  "sanity_check_submit_quotes_response resp n = Ok () \<longleftrightarrow>
     length (status_codes resp) = n \<and> length (error_messages resp) = n \<and> length (response_quotes resp) = n"
  by (simp add: sanity_check_submit_quotes_response_def)

lemma sanity_check_Err:
  "sanity_check_submit_quotes_response resp n \<noteq> Ok () \<Longrightarrow>
     \<exists>e. sanity_check_submit_quotes_response resp n = Err e"
  unfolding sanity_check_ok unfolding sanity_check_submit_quotes_response_def by auto

lemma map_fst_response_rows:
  "sanity_check_submit_quotes_response resp (length xs) = Ok () \<Longrightarrow> map fst (response_rows xs resp) = xs"
  by (simp add: sanity_check_ok response_rows_def)

text \<open>A step of the bot either keeps the outputs it tracks or forgets some of them.\<close>

definition forgets :: "('d, 'w) bot_task \<Rightarrow> ('d, 'w) bot_task \<Rightarrow> bool" where
  "forgets st st' \<longleftrightarrow> mset (bot_outputs st') \<subseteq># mset (bot_outputs st) \<and> bot_pairs st' = bot_pairs st"

lemma forgets_refl [simp]: "forgets st st"
  by (simp add: forgets_def)

lemma forgets_trans: "forgets st st1 \<Longrightarrow> forgets st1 st2 \<Longrightarrow> forgets st st2"
  by (auto simp: forgets_def intro: subset_mset.order_trans)

lemma forgets_inv: "bot_inv R st \<Longrightarrow> forgets st st' \<Longrightarrow> bot_inv R st'"
  using bot_inv_submset by (simp add: forgets_def) blast

lemma submit_pending_forgets:
  assumes "submit_pending_tx_outs api deqs clock st = (r, st')"
  shows "forgets st st'"
proof (cases "pending_tx_outs st = []")
  case nonempty: False
  let ?req = "map (\<lambda>p. sci_to_api api (pt_sci p)) (pending_tx_outs st)"
  obtain r1 st1 where s: "submit_quotes deqs ?req st = (r1, st1)" by fastforce
  note t = submit_quotes_task [OF s]
  show ?thesis
  proof (cases "\<exists>resp. r1 = Ok resp \<and> sanity_check_submit_quotes_response resp (length ?req) = Ok ()")
    case True
    then obtain resp where resp: "r1 = Ok resp"
        "sanity_check_submit_quotes_response resp (length (pending_tx_outs st)) = Ok ()" by auto
    let ?rows = "response_rows (pending_tx_outs st) resp"
    have "list_submitted api clock 0 ?rows (st1\<lparr>pending_tx_outs := []\<rparr>) = (r, st')"
      using assms nonempty s resp t by (simp add: submit_pending_tx_outs_def)
    from list_submitted_listed [OF this] obtain ys where
      "pending_tx_outs st' = []" "bot_pairs st' = bot_pairs st" "listed_tx_outs st' = listed_tx_outs st @ ys"
      "mset (map lt_matched ys) \<subseteq># mset (map (pt_matched \<circ> fst) ?rows)"
      using t by auto
    moreover have "map (pt_matched \<circ> fst) ?rows = map pt_matched (pending_tx_outs st)"
      using map_fst_response_rows [OF resp(2)] by (metis map_map)
    ultimately show ?thesis by (simp add: forgets_def bot_outputs_def add.commute)
  next
    case False
    have "st' = st1"
    proof (cases r1)
      case (Ok resp)
      then obtain e where "sanity_check_submit_quotes_response resp (length (pending_tx_outs st)) = Err e"
        using False sanity_check_Err by fastforce
      then show ?thesis using assms s Ok nonempty by (simp add: submit_pending_tx_outs_def)
    qed (use assms s nonempty in \<open>simp_all add: submit_pending_tx_outs_def\<close>)
    then show ?thesis using t by (simp add: forgets_def bot_outputs_def)
  qed
qed (use assms in \<open>simp add: submit_pending_tx_outs_def\<close>)

lemma mset_map_partition:
  "mset (map f (filter P xs)) + mset (map f (filter (Not \<circ> P) xs)) = mset (map f xs)"
  by (induction xs) auto

lemma resubmit_forgets:
  assumes "resubmit_listed_tx_outs api deqs clock older_than st = (r, st')"
  shows "forgets st st'"
proof -
  let ?P = "needs_resubmit older_than (clock 0)"
  let ?go = "filter ?P (listed_tx_outs st)" and ?keep = "filter (Not \<circ> ?P) (listed_tx_outs st)"
  let ?st = "st\<lparr>listed_tx_outs := ?keep\<rparr>"
  let ?req = "map (\<lambda>x. sci_to_api api (q_sci (lt_quote x))) ?go"
  have all: "mset (map lt_matched ?go) + mset (map lt_matched ?keep) = mset (map lt_matched (listed_tx_outs st))"
    by (rule mset_map_partition)
  have keep: "forgets st s" if "pending_tx_outs s = pending_tx_outs st" "bot_pairs s = bot_pairs st"
      "listed_tx_outs s = ?keep @ ys" "mset (map lt_matched ys) \<subseteq># mset (map lt_matched ?go)" for s ys
    using that all by (simp add: forgets_def bot_outputs_def) (metis add.commute subset_mset.add_left_mono)
  obtain r1 st1 where s: "submit_quotes deqs ?req ?st = (r1, st1)" by fastforce
  note t = submit_quotes_task [OF s]
  show ?thesis
  proof (cases "?go = []")
    case True
    then show ?thesis using assms by (intro keep [of _ "[]"]) (auto simp: resubmit_listed_tx_outs_def)
  next
    case nonempty: False
    show ?thesis
    proof (cases r1)
      case (Err e)
      then show ?thesis using assms s nonempty t
        by (intro keep [of _ ?go]) (auto simp: resubmit_listed_tx_outs_def Let_def)
    next
      case Panic
      then show ?thesis using assms s nonempty t
        by (intro keep [of _ "[]"]) (auto simp: resubmit_listed_tx_outs_def Let_def)
    next
      case (Ok resp)
      show ?thesis
      proof (cases "sanity_check_submit_quotes_response resp (length ?go) = Ok ()")
        case True
        have "relist_submitted api clock 1 (response_rows ?go resp) st1 = (r, st')"
          using assms s nonempty Ok True by (simp add: resubmit_listed_tx_outs_def Let_def)
        from relist_submitted_listed [OF this] obtain ys where
          "pending_tx_outs st' = pending_tx_outs st" "bot_pairs st' = bot_pairs st"
          "listed_tx_outs st' = ?keep @ ys"
          "mset (map lt_matched ys) \<subseteq># mset (map (lt_matched \<circ> fst) (response_rows ?go resp))"
          using t by auto
        moreover have "map (lt_matched \<circ> fst) (response_rows ?go resp) = map lt_matched ?go"
          using map_fst_response_rows [OF True] by (metis map_map)
        ultimately show ?thesis using keep by simp
      next
        case False
        then obtain e where "sanity_check_submit_quotes_response resp (length ?go) = Err e"
          using sanity_check_Err by blast
        then show ?thesis using assms s nonempty Ok t
          by (intro keep [of _ "[]"]) (auto simp: resubmit_listed_tx_outs_def Let_def)
      qed
    qed
  qed
qed

lemma handle_spent_forgets:
  assumes "handle_spent_tx_outs lib received spent st = (r, st')"
  shows "forgets st st'"
proof -
  obtain gone rest where u: "unlist_spent_tx_outs spent (listed_tx_outs st) = (gone, rest)" by fastforce
  have "pending_tx_outs st' = pending_tx_outs st \<and> listed_tx_outs st' = rest \<and> bot_pairs st' = bot_pairs st"
    using assms u by (auto simp: handle_spent_tx_outs_def Let_def split: result.splits)
  moreover have "mset (map lt_matched rest) \<subseteq># mset (map lt_matched (listed_tx_outs st))"
    using unlist_spent_mset [OF u] by (simp add: image_mset_subseteq_mono)
  ultimately show ?thesis by (simp add: forgets_def bot_outputs_def)
qed

text \<open>A pending output was built for the rate of its token, on a ring that contains it.\<close>

lemma create_pending_Ok:
  "create_pending_tx_out blib ldg l ps draw m = Some (Ok p) \<longleftrightarrow>
     (\<exists>counter_token swap_rate counter n sampled our_index s.
        ps (amount_token_id (mt_amount m)) = Some (counter_token, swap_rate) \<and>
        counter_amount blib (amount_value (mt_amount m)) swap_rate = Ok counter \<and>
        num_txos blib l = Ok n \<and> n \<noteq> 0 \<and> sample_indices draw 0 [] = Some sampled \<and>
        get_tx_out_index_by_public_key blib (public_key (mt_tx_out m)) l = Ok our_index \<and>
        build_sci blib ldg l m counter_token counter ((hash_set_order blib sampled)[0 := our_index]) = Ok s \<and>
        p = \<lparr>pt_matched = m, pt_sci = s\<rparr>)"
  unfolding create_pending_tx_out_def
  by (simp add: result_simps bind_eq_Some_conv split: option.split prod.split result.split)

lemma create_pending_matched:
  "create_pending_tx_out blib ldg l ps draw m = Some (Ok p) \<Longrightarrow> pt_matched p = m"
  unfolding create_pending_Ok by auto

lemma update_pending_inv:
  "update_pending_tx_outs blib ldg l rng ms added st = Some (r, st') \<Longrightarrow> bot_inv R st \<Longrightarrow> set ms \<subseteq> R \<Longrightarrow>
     bot_inv R st' \<and> bot_pairs st' = bot_pairs st \<and> listed_tx_outs st' = listed_tx_outs st"
proof (induction blib ldg l rng ms added st arbitrary: r rule: update_pending_tx_outs.induct)
  case (2 blib ldg l rng m ms added st)
  show ?case
  proof (cases "bot_pairs st (amount_token_id (mt_amount m)) = None \<or> is_tracked (mt_key_image m) st")
    case True
    then show ?thesis using 2(1) [OF True] 2(3-) by auto
  next
    case False
    then obtain c where c: "create_pending_tx_out blib ldg l (bot_pairs st) (rng m) m = Some c"
      using 2(3) by (auto split: Option.bind_splits)
    show ?thesis
    proof (cases c)
      case (Ok p)
      have "bot_inv R (st\<lparr>pending_tx_outs := pending_tx_outs st @ [p]\<rparr>)"
        by (rule bot_inv_add [OF 2(4), of m])
          (use False create_pending_matched [of blib ldg l "bot_pairs st" "rng m" m p] c Ok 2(5) in auto)
      then show ?thesis using 2(2) [OF False c Ok] 2(3,5) False c Ok by simp
    qed (use 2(3,4) False c in auto)
  qed
qed auto

fun input_received :: "'l bot_input \<Rightarrow> matched_tx_out set" where
  "input_received (BotCommand l rng clock (WalletEvent (BlockProcessed i received spent))) = set received"
| "input_received _ = {}"

lemma log_error_task [simp]: "snd (log_error x) = snd x"
  by (cases x rule: log_error.cases) simp_all

lemma handle_wallet_event_inv:
  assumes run: "handle_wallet_event lib blib ldg api deqs l rng clock (BlockProcessed i received spent) st = Some (r, st')"
    and inv: "bot_inv R st"
  shows "bot_inv (R \<union> set received) st' \<and> bot_pairs st' = bot_pairs st"
proof -
  obtain r1 st1 where 1: "handle_spent_tx_outs lib received spent st = (r1, st1)" by fastforce
  note f1 = handle_spent_forgets [OF 1]
  have i1: "bot_inv (R \<union> set received) st1" "bot_pairs st1 = bot_pairs st"
    using forgets_inv [OF bot_inv_mono [OF inv, of "R \<union> set received"] f1] f1 by (auto simp: forgets_def)
  show ?thesis
  proof (cases "is_ok r1")
    case True
    then obtain r2 st2 where 2: "update_pending_tx_outs blib ldg l rng received False st1 = Some (r2, st2)"
      using run 1 by (cases r1) (auto simp: handle_wallet_event_def split: Option.bind_splits)
    have i2: "bot_inv (R \<union> set received) st2" "bot_pairs st2 = bot_pairs st"
      using update_pending_inv [OF 2 i1(1)] i1(2) by auto
    have "st' = st2 \<or> st' = snd (submit_pending_tx_outs api deqs clock st2)"
      using run 1 2 True
      by (cases r1; cases r2) (auto simp: handle_wallet_event_def split: bool.splits dest: arg_cong [of _ _ snd])
    moreover have "forgets st2 (snd (submit_pending_tx_outs api deqs clock st2))"
      using submit_pending_forgets [of api deqs clock st2] by (metis surjective_pairing)
    ultimately show ?thesis using i2 forgets_inv [OF i2(1)] by (auto simp: forgets_def)
  next
    case False
    then show ?thesis using run 1 i1 by (cases r1) (auto simp: handle_wallet_event_def)
  qed
qed

lemma resubmit_tick_forgets:
  "forgets st (snd (then_do (log_error (resubmit_listed_tx_outs api deqs clock older st)) (\<lambda>_ st.
     log_error (submit_pending_tx_outs api deqs clock' st))))"
proof -
  obtain r1 st1 where 1: "resubmit_listed_tx_outs api deqs clock older st = (r1, st1)" by fastforce
  obtain r2 st2 where 2: "submit_pending_tx_outs api deqs clock' st1 = (r2, st2)" by fastforce
  show ?thesis
    using forgets_trans [OF resubmit_forgets [OF 1] submit_pending_forgets [OF 2]] resubmit_forgets [OF 1] 1 2
    by (cases r1) simp_all
qed

lemma answer_command_inv:
  assumes "Some (continue_with (answer_command c a st)) = Some (r, st')" and "bot_inv R st"
  shows "bot_inv R st' \<and> bot_pairs st' = bot_pairs st"
proof -
  have "st' = snd (answer_command c a st)" using assms(1) by (cases "answer_command c a st") simp
  then have "forgets st st'" by (simp add: answer_command_def forgets_def bot_outputs_def)
  then show ?thesis using forgets_inv [OF assms(2)] by (simp add: forgets_def)
qed

lemma bot_step_inv:
  assumes "bot_step lib blib ldg api deqs i st = Some (r, st')" and inv: "bot_inv R st"
  shows "bot_inv (R \<union> input_received i) st' \<and> bot_pairs st' = bot_pairs st"
proof (cases i)
  case (BotCommand l rng clock c)
  show ?thesis
  proof (cases c)
    case (WalletEvent e)
    obtain b received spent where e: "e = BlockProcessed b received spent" by (cases e)
    obtain r0 st0 where h: "handle_wallet_event lib blib ldg api deqs l rng clock e st = Some (r0, st0)"
        "(r, st') = continue_with (r0, st0)"
      using assms(1) BotCommand WalletEvent by auto
    then show ?thesis using handle_wallet_event_inv [OF h(1) [unfolded e] inv] BotCommand WalletEvent e by simp
  next
    case (GetStats ch)
    then show ?thesis using answer_command_inv [OF _ inv] assms(1) BotCommand
      by (simp only: bot_step.simps input_received.simps Un_empty_right)
  next
    case (GetPendingTxOuts ch)
    then show ?thesis using answer_command_inv [OF _ inv] assms(1) BotCommand
      by (simp only: bot_step.simps input_received.simps Un_empty_right)
  next
    case (GetListedTxOuts ch)
    then show ?thesis using answer_command_inv [OF _ inv] assms(1) BotCommand
      by (simp only: bot_step.simps input_received.simps Un_empty_right)
  qed
next
  case (ResubmitTick clock clock')
  let ?x = "then_do (log_error (resubmit_listed_tx_outs api deqs clock QUOTE_REFRESH_INTERVAL st)) (\<lambda>_ st.
       log_error (submit_pending_tx_outs api deqs clock' st))"
  obtain r0 st0 where x: "?x = (r0, st0)" by fastforce
  then have "st0 = st'" using assms(1) ResubmitTick by simp
  then have "forgets st st'"
    using resubmit_tick_forgets [of st api deqs clock QUOTE_REFRESH_INTERVAL clock'] x by simp
  then show ?thesis using ResubmitTick forgets_inv [OF inv] by (simp add: forgets_def)
qed (use assms in auto)

lemma bot_run_inv:
  "bot_run lib blib ldg api deqs is st = Some (r, st') \<Longrightarrow> bot_inv R st \<Longrightarrow>
     bot_inv (R \<union> (\<Union>i\<in>set is. input_received i)) st' \<and> bot_pairs st' = bot_pairs st"
proof (induction "is" arbitrary: st R)
  case (Cons i "is")
  obtain r1 st1 where 1: "bot_step lib blib ldg api deqs i st = Some (r1, st1)"
    using Cons.prems(1) by (auto split: Option.bind_splits)
  note s = bot_step_inv [OF 1 Cons.prems(2)]
  show ?case
  proof (cases "r1 = Ok True")
    case True
    then have "bot_run lib blib ldg api deqs is st1 = Some (r, st')" using Cons.prems(1) 1 by simp
    from Cons.IH [OF this conjunct1 [OF s]] s show ?thesis by (simp add: Un_assoc)
  next
    case False
    have "st' = st1"
    proof (cases r1)
      case (Ok b)
      then show ?thesis using Cons.prems(1) 1 False by (cases b) simp_all
    qed (use Cons.prems(1) 1 in simp_all)
    then show ?thesis
      using s bot_inv_mono [OF conjunct1 [OF s], of "R \<union> (\<Union>i\<in>set (i # is). input_received i)"] by auto
  qed
qed auto

section \<open>Sampling a ring\<close>

lemma sample_indices_Some:
  assumes run: "sample_indices draw k acc = Some r"
    and "distinct acc" "set acc \<subseteq> range draw" "length acc \<le> RING_SIZE"
  shows "length r = RING_SIZE \<and> distinct r \<and> set r \<subseteq> range draw"
proof -
  let ?P = "\<lambda>draw k acc r. distinct acc \<longrightarrow> set acc \<subseteq> range draw \<longrightarrow> length acc \<le> RING_SIZE \<longrightarrow>
    length r = RING_SIZE \<and> distinct r \<and> set r \<subseteq> range draw"
  have "?P draw k acc r"
  proof (rule sample_indices.raw_induct [where P = ?P, OF _ run], intro impI)
    fix sample draw k acc r
    assume ih: "\<And>draw k acc r. sample draw k acc = Some r \<Longrightarrow> ?P draw k acc r"
      and body: "(if length acc < RING_SIZE then sample draw (Suc k) (List.insert (draw k) acc) else Some acc) = Some r"
      and acc: "distinct acc" "set acc \<subseteq> range draw" "length acc \<le> RING_SIZE"
    show "length r = RING_SIZE \<and> distinct r \<and> set r \<subseteq> range draw"
    proof (cases "length acc < RING_SIZE")
      case True
      have "length (List.insert (draw k) acc) \<le> RING_SIZE" using True by (simp add: List.insert_def)
      then show ?thesis using ih [of draw "Suc k" "List.insert (draw k) acc" r] body acc True by simp
    qed (use body acc in simp)
  qed
  with assms show ?thesis by blast
qed

lemma sample_indices_returns:
  assumes "RING_SIZE \<le> card (draw ` {..<K})"
  shows "set acc = draw ` {..<k} \<Longrightarrow> distinct acc \<Longrightarrow> \<exists>r. sample_indices draw k acc = Some r"
proof (induction "K - k" arbitrary: k acc)
  case (0 k acc)
  have "card (draw ` {..<K}) \<le> card (set acc)"
    unfolding 0(2) using 0(1) by (intro card_mono) auto
  then have "\<not> length acc < RING_SIZE" using assms 0(3) by (simp add: distinct_card)
  then show ?case by (simp add: sample_indices.simps)
next
  case (Suc d k acc)
  have "set (List.insert (draw k) acc) = draw ` {..<Suc k}" using Suc.prems(1) by (auto simp: lessThan_Suc)
  then have "\<exists>r. sample_indices draw (Suc k) (List.insert (draw k) acc) = Some r"
    using Suc.hyps(1) [of "Suc k"] Suc.hyps(2) Suc.prems(2) by simp
  then show ?case by (simp add: sample_indices.simps [of draw k acc])
qed

text \<open>
  C37: Sampling a ring returns exactly when enough different indices are drawn. If it returns, it has
  11 different indices, all of them drawn; if it does not return, then the numbers drawn never
  contain 11 different ones, as on a ledger with fewer than 11 outputs.
\<close>

theorem ring_sampling_exact:
  "case sample_indices draw 0 [] of
     Some indices \<Rightarrow> length indices = RING_SIZE \<and> distinct indices \<and> set indices \<subseteq> range draw
   | None \<Rightarrow> (\<forall>K. card (draw ` {..<K}) < RING_SIZE)"
proof (cases "sample_indices draw 0 []")
  case None
  then have "\<not> RING_SIZE \<le> card (draw ` {..<K})" for K
    using sample_indices_returns [of draw K "[]" 0] by auto
  with None show ?thesis by (simp add: not_le)
next
  case (Some indices)
  then show ?thesis using sample_indices_Some [OF Some] by simp
qed

section \<open>Pricing\<close>

text \<open>
  What is documented of the decimals: they denote rational numbers, conversion from \<open>u64\<close> and
  rounding up are exact, and conversion to \<open>u64\<close> of an integer is exact. A product is exact when
  it does not overflow and needs at most 28 decimal places, which is asked of the rate in use.
\<close>

definition dec_ok :: "('d, 'l) bot_lib \<Rightarrow> ('d \<Rightarrow> rat) \<Rightarrow> 'd \<Rightarrow> bool" where
  "dec_ok blib val rate \<longleftrightarrow>
     (\<forall>v. val (dec_from_u64 blib v) = of_nat (unat v)) \<and>
     (\<forall>v d. dec_mul blib (dec_from_u64 blib v) rate = Some d \<longrightarrow> val d = of_nat (unat v) * val rate) \<and>
     (\<forall>d. val (dec_ceil blib d) = of_int \<lceil>val d\<rceil>) \<and>
     (\<forall>d i u. val d = of_int i \<longrightarrow> dec_to_u64 blib d = Some u \<longrightarrow> int (unat u) = i)"

lemma counter_amount_bounds:
  assumes "dec_ok blib val rate" and "counter_amount blib v rate = Ok c"
  shows "of_nat (unat v) * val rate \<le> of_nat (unat c) \<and> of_nat (unat c) < of_nat (unat v) * val rate + 1"
proof -
  obtain d where d: "dec_mul blib (dec_from_u64 blib v) rate = Some d" "dec_to_u64 blib (dec_ceil blib d) = Some c"
    using assms(2) by (auto simp: counter_amount_def result_simps split: option.splits)
  have v: "val d = of_nat (unat v) * val rate" and "val (dec_ceil blib d) = of_int \<lceil>val d\<rceil>"
    using assms(1) d(1) by (auto simp: dec_ok_def)
  then have "int (unat c) = \<lceil>val d\<rceil>" using assms(1) d(2) unfolding dec_ok_def by blast
  then have "(of_nat (unat c) :: rat) = of_int \<lceil>val d\<rceil>" by (metis of_int_of_nat_eq)
  then show ?thesis using v ceiling_correct [of "val d"] by simp
qed

end
