(* ===== verification/Bot_System.thy ===== *)
theory Bot_System
  imports Liquidity_Bot
begin

text \<open>
  The properties of the liquidity bot: what it tracks, what a submission does with the pending
  outputs, at which price it offers an output, and how it works together with the DEQS server of
  \<open>Client_Service\<close> behind its gRPC client.
\<close>

section \<open>Submission, row by row\<close>

definition accepted_row :: "'x \<times> quote_status_code \<times> string \<times> api_quote \<Rightarrow> bool" where
  "accepted_row row \<longleftrightarrow> fst (snd row) = CREATED \<or> fst (snd row) = QUOTE_ALREADY_EXISTS"

text \<open>A row the bot can use: the quote decodes, and a created quote is the one of the submitted SCI.\<close>

definition usable_row :: "api_lib \<Rightarrow> pending_tx_out \<times> quote_status_code \<times> string \<times> api_quote \<Rightarrow> bool" where
  "usable_row api row \<longleftrightarrow>
     (\<exists>q. quote_try_from_api api (snd (snd (snd row))) = Ok q \<and>
        (fst (snd row) = CREATED \<longrightarrow> q_sci q = pt_sci (fst row)))"

definition listed_for ::
  "api_lib \<Rightarrow> pending_tx_out \<times> quote_status_code \<times> string \<times> api_quote \<Rightarrow> listed_tx_out \<Rightarrow> bool" where
  "listed_for api row x \<longleftrightarrow>
     lt_matched x = pt_matched (fst row) \<and> quote_try_from_api api (snd (snd (snd row))) = Ok (lt_quote x)"

lemma list_submitted_exact:
  "\<forall>row\<in>set rows. accepted_row row \<longrightarrow> usable_row api row \<Longrightarrow>
     \<exists>news. list_submitted api clock k rows st = (Ok (), st\<lparr>listed_tx_outs := listed_tx_outs st @ news\<rparr>) \<and>
       list_all2 (listed_for api) (filter accepted_row rows) news \<and>
       map last_submitted_at news = map clock [k..<k + length news]"
proof (induction api clock k rows st rule: list_submitted.induct)
  case (2 api clock k p code msg aq rest st)
  show ?case
  proof (cases "code = CREATED \<or> code = QUOTE_ALREADY_EXISTS")
    case True
    then obtain q where q: "quote_try_from_api api aq = Ok q" "q_sci q = pt_sci p \<or> code = QUOTE_ALREADY_EXISTS"
      using 2(3) by (auto simp: accepted_row_def usable_row_def)
    let ?x = "\<lparr>lt_matched = pt_matched p, lt_quote = q, last_submitted_at = clock k\<rparr>"
    obtain news where n: "list_submitted api clock (Suc k) rest (st\<lparr>listed_tx_outs := listed_tx_outs st @ [?x]\<rparr>) =
        (Ok (), st\<lparr>listed_tx_outs := (listed_tx_outs st @ [?x]) @ news\<rparr>)"
        "list_all2 (listed_for api) (filter accepted_row rest) news"
        "map last_submitted_at news = map clock [Suc k..<Suc k + length news]"
      using 2(1) [OF True q] 2(3) by auto
    have "[k..<k + length (?x # news)] = k # [Suc k..<Suc k + length news]"
      using upt_conv_Cons [of k "k + length (?x # news)"] by (simp del: upt_Suc)
    moreover have "accepted_row (p, code, msg, aq)" "listed_for api (p, code, msg, aq) ?x"
      using True q by (simp_all add: accepted_row_def listed_for_def)
    ultimately show ?thesis using True q n by (intro exI [of _ "?x # news"]) (simp del: upt_Suc)
  next
    case False
    then show ?thesis using 2(2) [OF False] 2(3) by (simp add: accepted_row_def)
  qed
qed simp


section \<open>What the bot tracks\<close>

text \<open>The random numbers of an input: enough different ones come up for each output.\<close>

fun fair_rng :: "'l bot_input \<Rightarrow> bool" where
  "fair_rng (BotCommand l rng clock c) \<longleftrightarrow> (\<forall>m. \<exists>K. RING_SIZE \<le> card (rng m ` {..<K}))"
| "fair_rng _ \<longleftrightarrow> True"

lemma create_pending_returns:
  assumes "\<exists>K. RING_SIZE \<le> card (draw ` {..<K})"
  shows "\<exists>r. create_pending_tx_out blib ldg l ps draw m = Some r"
proof -
  obtain K where "RING_SIZE \<le> card (draw ` {..<K})" using assms ..
  then obtain sampled where "sample_indices draw 0 [] = Some sampled"
    using sample_indices_returns [of draw K "[]" 0] by auto
  then show ?thesis
    by (simp add: create_pending_tx_out_def split: option.split prod.split result.split)
qed

lemma update_pending_returns:
  assumes "\<forall>m. \<exists>K. RING_SIZE \<le> card (rng m ` {..<K})"
  shows "\<exists>r. update_pending_tx_outs blib ldg l rng ms added st = Some r"
proof (induction ms arbitrary: added st)
  case (Cons m ms)
  obtain c where "create_pending_tx_out blib ldg l (bot_pairs st) (rng m) m = Some c"
    using create_pending_returns [OF assms [rule_format, of m], of blib ldg l "bot_pairs st" m] by blast
  then show ?case using Cons.IH by (cases c) auto
qed simp

lemma handle_wallet_event_returns:
  assumes "\<forall>m. \<exists>K. RING_SIZE \<le> card (rng m ` {..<K})"
  shows "\<exists>r. handle_wallet_event lib blib ldg api deqs l rng clock e st = Some r"
proof -
  obtain b received spent where e: "e = BlockProcessed b received spent" by (cases e)
  obtain r1 st1 where 1: "handle_spent_tx_outs lib received spent st = (r1, st1)" by fastforce
  obtain r2 where "update_pending_tx_outs blib ldg l rng received False st1 = Some r2"
    using update_pending_returns [OF assms] by fast
  then show ?thesis using 1 e by (cases r1) (simp_all add: handle_wallet_event_def)
qed

lemma bot_step_returns:
  assumes "fair_rng i"
  shows "\<exists>r. bot_step lib blib ldg api deqs i st = Some r"
proof (cases i)
  case (BotCommand l rng clock c)
  then have "\<forall>m. \<exists>K. RING_SIZE \<le> card (rng m ` {..<K})" using assms by simp
  note h = handle_wallet_event_returns [OF this, of lib blib ldg api deqs l clock]
  show ?thesis
  proof (cases c)
    case (WalletEvent e)
    then show ?thesis using BotCommand h [of e st] by auto
  qed (use BotCommand in simp_all)
qed simp_all

lemma bot_run_returns:
  "\<forall>i\<in>set inputs. fair_rng i \<Longrightarrow> \<exists>r st'. bot_run lib blib ldg api deqs inputs st = Some (r, st')"
proof (induction inputs arbitrary: st)
  case (Cons i inputs)
  obtain r1 st1 where 1: "bot_step lib blib ldg api deqs i st = Some (r1, st1)"
    using bot_step_returns [of i lib blib ldg api deqs st] Cons.prems by auto
  show ?case
  proof (cases r1)
    case (Ok b)
    then show ?thesis using 1 Cons by (cases b) simp_all
  qed (use 1 in simp_all)
qed simp

section \<open>A small bot\<close>

text \<open>
  Decimals as rational numbers with the bound of the library, a ledger with 20 outputs whose index is
  their public key, and a builder whose SCI offers 100 tokens of token 0 for 10 of token 1.
\<close>

definition sample_bot_lib :: "(rat, unit) bot_lib" where
  "sample_bot_lib =
     \<lparr>dec_from_u64 = (\<lambda>v. of_nat (unat v)), dec_mul = (\<lambda>x y. if x * y < 2 ^ 96 then Some (x * y) else None),
      dec_ceil = (\<lambda>d. of_int \<lceil>d\<rceil>),
      dec_to_u64 = (\<lambda>d. if 0 \<le> d \<and> \<lfloor>d\<rfloor> < 2 ^ 64 then Some (of_int \<lfloor>d\<rfloor>) else None),
      dec_display = (\<lambda>_. ''rate''), num_txos = (\<lambda>_. Ok 20),
      get_tx_out_index_by_public_key = (\<lambda>k _. if k = [] then Err LedgerNotFound else Ok (ucast (hd k))),
      get_tx_out_proof_of_memberships = (\<lambda>_ _. Ok []), hash_set_order = rev,
      input_credentials_new = (\<lambda>outs _ n _. Ok (public_key (outs ! n))), sci_builder_new = Ok,
      add_partial_fill_output = (\<lambda>_. Ok), add_partial_fill_change_output = (\<lambda>_. Ok),
      sci_builder_build = (\<lambda>k. Ok (sample_full (hd k) 100 10))\<rparr>"

definition sample_bot_ledger :: "unit ledger_ops" where
  "sample_bot_ledger =
     \<lparr>num_blocks = (\<lambda>_. Ok 1), contains_key_image = (\<lambda>_ _. Ok False),
      get_tx_out_by_index = (\<lambda>i _. if i < 20 then Ok (sample_txo (ucast i) 0 [1]) else Err LedgerNotFound),
      get_block_contents = (\<lambda>_ _. Err LedgerNotFound), ledger_display = (\<lambda>_. ''ledger'')\<rparr>"

abbreviation sample_pairs :: "token_id \<rightharpoonup> token_id \<times> rat" where
  "sample_pairs \<equiv> main_pairs 0 1 (1 / 3)"

lemma sample_draws: "RING_SIZE \<le> card ((of_nat :: nat \<Rightarrow> u64) ` {..<11})"
proof -
  have "unat (of_nat k :: u64) = k" if "k \<in> {..<11}" for k
    using that by (simp add: unat_of_nat_small)
  then have "inj_on (of_nat :: nat \<Rightarrow> u64) {..<11}" by (metis inj_on_def)
  then show ?thesis by (simp add: card_image RING_SIZE_def)
qed


definition sample_inputs :: "unit bot_input list" where
  "sample_inputs =
     [BotCommand () (\<lambda>_. of_nat) of_nat
        (WalletEvent (BlockProcessed 0 [sample_match 0 1 50 0 0, sample_match 0 1 50 0 0] [])),
      ResubmitTick of_nat of_nat]"

lemma sample_inputs_simps:
  "\<forall>i\<in>set sample_inputs. fair_rng i" "(\<Union>i\<in>set sample_inputs. input_received i) = {sample_match 0 1 50 0 0}"
  using sample_draws by (auto simp: sample_inputs_def)

text \<open>A bot with one pending output.\<close>

definition sample_task :: "(rat, unit) bot_task" where
  "sample_task = (bot_new sample_pairs ())
     \<lparr>pending_tx_outs := [\<lparr>pt_matched = sample_match 0 7 50 0 0, pt_sci = sample_full 7 100 10\<rparr>]\<rparr>"


text \<open>
  C33: The bot tracks each output at most once. Whatever the server answers and in whatever order
  wallet events, commands and the resubmission timer come, the bot's loop returns from each of them as
  long as the random numbers do not keep repeating; at any point the pending and the listed
  outputs together have pairwise different key images, each was received in a wallet event, and each
  is of a token the bot has a rate for.
\<close>

theorem bot_tracks_once:
  assumes "\<forall>i\<in>set inputs. fair_rng i"
  shows "\<exists>r st. bot_run lib blib ldg api deqs inputs (bot_new ps w) = Some (r, st) \<and>
    distinct (map mt_key_image (bot_outputs st)) \<and>
    set (bot_outputs st) \<subseteq> (\<Union>i\<in>set inputs. input_received i) \<and>
    (\<forall>m\<in>set (bot_outputs st). ps (amount_token_id (mt_amount m)) \<noteq> None)"
proof -
  obtain r st where run: "bot_run lib blib ldg api deqs inputs (bot_new ps w) = Some (r, st)"
    using bot_run_returns [OF assms] by blast
  have "bot_inv {} (bot_new ps w)" by (simp add: bot_inv_def bot_outputs_def bot_new_def)
  from bot_run_inv [OF run this] have "bot_inv (\<Union>i\<in>set inputs. input_received i) st" "bot_pairs st = ps"
    by (simp_all add: bot_new_def)
  with run show ?thesis unfolding bot_inv_def by (intro exI [of _ r] exI [of _ st]) simp
qed

theorem bot_tracks_once_witness:
  "\<exists>r st. bot_run sample_lib sample_bot_lib sample_bot_ledger sample_api (\<lambda>req w. (Err ''offline'', w))
      sample_inputs (bot_new sample_pairs ()) = Some (r, st) \<and>
    distinct (map mt_key_image (bot_outputs st)) \<and> set (bot_outputs st) \<subseteq> {sample_match 0 1 50 0 0}"
proof -
  from bot_tracks_once [OF sample_inputs_simps(1), unfolded sample_inputs_simps(2),
      of sample_lib sample_bot_lib sample_bot_ledger sample_api "\<lambda>req w. (Err ''offline'', w)" sample_pairs "()"]
  obtain r st where "bot_run sample_lib sample_bot_lib sample_bot_ledger sample_api (\<lambda>req w. (Err ''offline'', w))
      sample_inputs (bot_new sample_pairs ()) = Some (r, st)"
    "distinct (map mt_key_image (bot_outputs st))" "set (bot_outputs st) \<subseteq> {sample_match 0 1 50 0 0}"
    by (elim exE conjE)
  then show ?thesis by (intro exI conjI)
qed

section \<open>Prices\<close>





section \<open>The bot and the server\<close>

text \<open>
  The gRPC client connected to the server: a refused request is an error with the message of the
  status, and a panic of the handler is an error of the connection. The parallel additions of a
  request with \<open>n\<close> SCIs run in the order \<open>schedule n\<close>.
\<close>

definition server_client ::
  "mc_lib \<Rightarrow> api_lib \<Rightarrow> 's quote_book_ops \<Rightarrow> (sci \<Rightarrow> (unit, error) result) \<Rightarrow> (nat \<Rightarrow> nat list) \<Rightarrow> int \<Rightarrow>
     's client_service deqs_client" where
  "server_client lib api ops validator schedule now req cs =
     (case submit_quotes_impl lib api ops validator (schedule (length req)) now req cs of
        (Ok resp, cs') \<Rightarrow> (Ok resp, cs')
      | (Err (InvalidArg m), cs') \<Rightarrow> (Err m, cs')
      | (Err (Internal m), cs') \<Rightarrow> (Err m, cs')
      | (Panic, cs') \<Rightarrow> (Err ''unavailable'', cs'))"

abbreviation result_code :: "(quote, error) result \<Rightarrow> quote_status_code" where
  "result_code r \<equiv> (case r of Ok q \<Rightarrow> CREATED | Err e \<Rightarrow> status_code_from_error e)"

abbreviation result_quote :: "api_lib \<Rightarrow> (quote, error) result \<Rightarrow> api_quote" where
  "result_quote api r \<equiv> (case r of Ok q \<Rightarrow> api_quote_from_quote api q
      | Err (QuoteAlreadyExists x) \<Rightarrow> api_quote_from_quote api x
      | Err _ \<Rightarrow> default_api_quote)"

lemma status_already_exists: "status_code_from_error e = QUOTE_ALREADY_EXISTS \<longleftrightarrow> (\<exists>x. e = QuoteAlreadyExists x)"
  by (cases e rule: status_code_from_error.cases) auto

lemma result_row_usable:
  assumes sub: "submitted_as lib (sci_validator mins) now t B s r" and "r \<noteq> Panic"
    and api: "api_lib_ok api" and B: "\<forall>x\<in>B. length (q_id x) = 32"
    and acc: "result_code r = CREATED \<or> result_code r = QUOTE_ALREADY_EXISTS"
  shows "\<exists>q\<in>B. quote_try_from_api api (result_quote api r) = Ok q \<and>
    sci_key_image (q_sci q) = sci_key_image s \<and> (result_code r = CREATED \<longrightarrow> q_sci q = s \<and> r = Ok q)"
proof (cases r)
  case (Ok q)
  then have q: "quote_new lib now s (Some t) = Ok q" "q \<in> B" using sub by (auto simp: submitted_as_def)
  then show ?thesis
    using Ok quote_api_round_trip [OF api] B quote_new_sci [OF q(1)] by (intro bexI [of _ q]) auto
next
  case (Err e)
  then obtain x where x: "e = QuoteAlreadyExists x" using acc by (auto simp: status_already_exists)
  then obtain q where q: "x \<in> B" "quote_new lib now s (Some t) = Ok q" "clash q x"
    using sub Err sci_validator_errors(2) by (auto simp: submitted_as_def)
  then show ?thesis
    using Err x quote_api_round_trip [OF api] B quote_new_sci [OF q(2)]
    by (intro bexI [of _ x]) (auto simp: clash_def)
qed (use assms(2) in simp)

lemma list_all2_mem1: "list_all2 P xs ys \<Longrightarrow> x \<in> set xs \<Longrightarrow> \<exists>y\<in>set ys. P x y"
  by (induction xs ys rule: list_all2_induct) auto

lemma list_all2_mem2: "list_all2 P xs ys \<Longrightarrow> y \<in> set ys \<Longrightarrow> \<exists>x\<in>set xs. P x y"
  by (induction xs ys rule: list_all2_induct) auto

lemma response_rows_results:
  assumes "length results = length ps" and "status_codes resp = map result_code results"
    and "error_messages resp = map err results" and "response_quotes resp = map (result_quote api) results"
  shows "response_rows ps resp = map (\<lambda>(p, r). (p, result_code r, err r, result_quote api r)) (zip ps results)"
  using assms(1) unfolding response_rows_def assms(2-4)
  by (induction ps results rule: list_induct2') auto

text \<open>What the server answers to the bot, and what it does to the book, result by result.\<close>

lemma server_submission:
  assumes "quote_book lib ops absf invf" and "mc_lib_ok lib" and "api_lib_ok api"
    and "invf (cs_quote_book cs)" and "length ps < MAX_SIMULTANEOUS_QUOTES" and "system_time_nanos now = Ok t"
    and "coherent (absf (cs_quote_book cs) \<union> offered_quotes lib now t (pt_sci ` set ps))"
    and "distinct (schedule (length ps))" and "set (schedule (length ps)) = {..<length ps}"
  obtains results resp cs' where
    "server_client lib api ops (sci_validator mins) schedule now (map (\<lambda>p. sci_to_api api (pt_sci p)) ps) cs =
       (Ok resp, cs')"
    "sanity_check_submit_quotes_response resp (length ps) = Ok ()"
    "length results = length ps"
    "response_rows ps resp =
      map (\<lambda>(p, r). (p, result_code r, case r of Ok q \<Rightarrow> '''' | Err e \<Rightarrow> error_display e, result_quote api r)) (zip ps results)"
    "\<forall>x\<in>absf (cs_quote_book cs'). length (q_id x) = 32"
    "absf (cs_quote_book cs') = absf (cs_quote_book cs) \<union> set (created_quotes results)"
    "\<forall>p r. (p, r) \<in> set (zip ps results) \<longrightarrow> (result_code r = CREATED \<or> result_code r = QUOTE_ALREADY_EXISTS) \<longrightarrow>
      (\<exists>q\<in>absf (cs_quote_book cs'). quote_try_from_api api (result_quote api r) = Ok q \<and>
        sci_key_image (q_sci q) = sci_key_image (pt_sci p) \<and> (result_code r = CREATED \<longrightarrow> q_sci q = pt_sci p \<and> r = Ok q))"
proof -
  let ?req = "map (\<lambda>p. sci_to_api api (pt_sci p)) ps"
  have dec: "collect_results (sci_from_api api) ?req = Ok (map pt_sci ps)"
    using assms(3) by (auto simp: collect_results_eq_Ok api_lib_ok_def list_all2_map1 list_all2_map2 intro: list_all2_refl)
  have coh: "coherent (absf (cs_quote_book cs) \<union> offered_quotes lib now t (set (map pt_sci ps)))"
    using assms(7) by simp
  have val: "\<And>s. sci_validator mins s \<noteq> Panic" by (rule sci_validator_errors(1))
  have few: "length ?req < MAX_SIMULTANEOUS_QUOTES" and sched: "set (schedule (length ps)) = {..<length ?req}"
    using assms(5,9) by simp_all
  obtain results resp cs' where sub:
      "submit_quotes_impl lib api ops (sci_validator mins) (schedule (length ps)) now ?req cs = (Ok resp, cs')"
      "length results = length ps" "Panic \<notin> set results"
      "status_codes resp = map result_code results"
      "error_messages resp = map (\<lambda>r. case r of Ok q \<Rightarrow> '''' | Err e \<Rightarrow> error_display e) results"
      "response_quotes resp = map (result_quote api) results"
      "invf (cs_quote_book cs')"
      "absf (cs_quote_book cs') = absf (cs_quote_book cs) \<union> set (created_quotes results)"
      "list_all2 (submitted_as lib (sci_validator mins) now t (absf (cs_quote_book cs'))) (map pt_sci ps) results"
    by (rule quote_book.submit_quotes_law [OF assms(1,2) val assms(4) few assms(6) dec coh assms(8) sched])
      (simp only: length_map)
  let ?B = "absf (cs_quote_book cs')"
  have ids: "\<forall>x\<in>?B. length (q_id x) = 32"
    using quote_book.inv_book [OF assms(1) sub(7)] by (simp add: book_inv_def)
  have rows: "response_rows ps resp =
      map (\<lambda>(p, r). (p, result_code r, case r of Ok q \<Rightarrow> '''' | Err e \<Rightarrow> error_display e, result_quote api r)) (zip ps results)"
    by (rule response_rows_results [OF sub(2) sub(4-6)])
  have row: "\<exists>q\<in>?B. quote_try_from_api api (result_quote api r) = Ok q \<and>
      sci_key_image (q_sci q) = sci_key_image (pt_sci p) \<and> (result_code r = CREATED \<longrightarrow> q_sci q = pt_sci p \<and> r = Ok q)"
    if "(p, r) \<in> set (zip ps results)" "result_code r = CREATED \<or> result_code r = QUOTE_ALREADY_EXISTS" for p r
  proof (rule result_row_usable [OF _ _ assms(3) ids that(2)])
    show "submitted_as lib (sci_validator mins) now t ?B (pt_sci p) r"
      using sub(9) that(1) unfolding list_all2_map1 by (auto simp: list_all2_iff)
    show "r \<noteq> Panic" using sub(3) that(1) by (auto dest: set_zip_rightD)
  qed
  show ?thesis
  proof (rule that [OF _ _ sub(2) rows ids sub(8)])
    show "server_client lib api ops (sci_validator mins) schedule now ?req cs = (Ok resp, cs')"
      using sub(1) by (simp add: server_client_def)
    show "sanity_check_submit_quotes_response resp (length ps) = Ok ()"
      using sub(2,4-6) by (simp add: sanity_check_ok)
  qed (use row in blast)
qed

text \<open>
  C32: Bot and server agree. When the bot submits fewer than 30 pending outputs to the server, the call
  succeeds and no assertion of the bot fails, whatever the server's book held and in whatever order
  it added the SCIs. Nothing stays pending; every newly listed output carries a quote that
  the server's book holds and that spends the input of the submitted SCI; and every quote the book
  gained is listed by the bot.
\<close>

theorem bot_lists_book_quotes:
  assumes "quote_book lib ops absf invf" and "mc_lib_ok lib" and "api_lib_ok api"
    and "invf (cs_quote_book (bot_deqs st))" and "pending_tx_outs st \<noteq> []"
    and "length (pending_tx_outs st) < MAX_SIMULTANEOUS_QUOTES" and "system_time_nanos now = Ok t"
    and "coherent (absf (cs_quote_book (bot_deqs st)) \<union>
      offered_quotes lib now t (pt_sci ` set (pending_tx_outs st)))"
    and "distinct (schedule (length (pending_tx_outs st)))"
    and "set (schedule (length (pending_tx_outs st))) = {..<length (pending_tx_outs st)}"
  shows "\<exists>st' news.
    submit_pending_tx_outs api (server_client lib api ops (sci_validator mins) schedule now) clock st = (Ok (), st') \<and>
    pending_tx_outs st' = [] \<and> listed_tx_outs st' = listed_tx_outs st @ news \<and>
    (\<forall>x\<in>set news. lt_quote x \<in> absf (cs_quote_book (bot_deqs st')) \<and>
       (\<exists>p\<in>set (pending_tx_outs st). lt_matched x = pt_matched p \<and>
          sci_key_image (q_sci (lt_quote x)) = sci_key_image (pt_sci p))) \<and>
    absf (cs_quote_book (bot_deqs st')) - absf (cs_quote_book (bot_deqs st)) \<subseteq> lt_quote ` set news"
proof -
  let ?ps = "pending_tx_outs st" and ?cs = "bot_deqs st"
  obtain results resp cs' where call:
      "server_client lib api ops (sci_validator mins) schedule now (map (\<lambda>p. sci_to_api api (pt_sci p)) ?ps) ?cs =
         (Ok resp, cs')"
      "sanity_check_submit_quotes_response resp (length ?ps) = Ok ()" "length results = length ?ps"
    and rows: "response_rows ?ps resp =
      map (\<lambda>(p, r). (p, result_code r, case r of Ok q \<Rightarrow> '''' | Err e \<Rightarrow> error_display e, result_quote api r)) (zip ?ps results)"
    and ids: "\<forall>x\<in>absf (cs_quote_book cs'). length (q_id x) = 32"
    and grow: "absf (cs_quote_book cs') = absf (cs_quote_book ?cs) \<union> set (created_quotes results)"
    and row: "\<forall>p r. (p, r) \<in> set (zip ?ps results) \<longrightarrow> (result_code r = CREATED \<or> result_code r = QUOTE_ALREADY_EXISTS) \<longrightarrow>
      (\<exists>q\<in>absf (cs_quote_book cs'). quote_try_from_api api (result_quote api r) = Ok q \<and>
        sci_key_image (q_sci q) = sci_key_image (pt_sci p) \<and> (result_code r = CREATED \<longrightarrow> q_sci q = pt_sci p \<and> r = Ok q))"
    by (rule server_submission [where schedule = schedule and ps = ?ps and mins = mins, OF assms(1-4,6-10)])
  let ?B = "absf (cs_quote_book cs')"
  have us: "\<forall>row\<in>set (response_rows ?ps resp). accepted_row row \<longrightarrow> usable_row api row"
  proof (intro ballI impI)
    fix row assume "row \<in> set (response_rows ?ps resp)" and acc: "accepted_row row"
    then obtain p r where pr: "(p, r) \<in> set (zip ?ps results)" "fst row = p" "fst (snd row) = result_code r"
        "snd (snd (snd row)) = result_quote api r"
      unfolding rows by auto
    with row [rule_format, OF pr(1)] acc show "usable_row api row" by (auto simp: accepted_row_def usable_row_def)
  qed
  let ?st = "st\<lparr>bot_deqs := cs', pending_tx_outs := []\<rparr>"
  obtain news where n: "list_submitted api clock 0 (response_rows ?ps resp) ?st =
      (Ok (), ?st\<lparr>listed_tx_outs := listed_tx_outs st @ news\<rparr>)"
      "list_all2 (listed_for api) (filter accepted_row (response_rows ?ps resp)) news"
    using list_submitted_exact [OF us, of clock 0 ?st] by auto
  have "submit_pending_tx_outs api (server_client lib api ops (sci_validator mins) schedule now) clock st =
      (Ok (), ?st\<lparr>listed_tx_outs := listed_tx_outs st @ news\<rparr>)"
    using n(1) call(1,2) assms(5) by (simp add: submit_pending_tx_outs_def submit_quotes_def)
  moreover have "lt_quote x \<in> ?B \<and> (\<exists>p\<in>set ?ps. lt_matched x = pt_matched p \<and>
      sci_key_image (q_sci (lt_quote x)) = sci_key_image (pt_sci p))" if x: "x \<in> set news" for x
  proof -
    obtain rw where "rw \<in> set (filter accepted_row (response_rows ?ps resp))" "listed_for api rw x"
      using list_all2_mem2 [OF n(2) x] by blast
    then obtain p r where pr: "(p, r) \<in> set (zip ?ps results)" "lt_matched x = pt_matched p"
        "quote_try_from_api api (result_quote api r) = Ok (lt_quote x)"
        "result_code r = CREATED \<or> result_code r = QUOTE_ALREADY_EXISTS"
      unfolding rows by (auto simp: accepted_row_def listed_for_def)
    with row [rule_format, OF pr(1,4)] show ?thesis by (auto dest: set_zip_leftD)
  qed
  moreover have "q \<in> lt_quote ` set news" if new: "q \<in> ?B - absf (cs_quote_book ?cs)" for q
  proof -
    have "Ok q \<in> set results" using new grow by (auto simp: set_created_quotes)
    then obtain p where pr: "(p, Ok q) \<in> set (zip ?ps results)"
      using call(3) by (metis in_set_impl_in_set_zip2)
    let ?rw = "(p, CREATED, '''', api_quote_from_quote api q)"
    have "?rw \<in> set (filter accepted_row (response_rows ?ps resp))"
      unfolding rows using pr by (force simp: accepted_row_def)
    then obtain x where "x \<in> set news" "listed_for api ?rw x" using list_all2_mem1 [OF n(2)] by blast
    moreover have "quote_try_from_api api (api_quote_from_quote api q) = Ok q"
      using quote_api_round_trip [OF assms(3)] ids new by blast
    ultimately show ?thesis by (auto simp: listed_for_def)
  qed
  ultimately show ?thesis
    by (intro exI [of _ "?st\<lparr>listed_tx_outs := listed_tx_outs st @ news\<rparr>"] exI [of _ news]) auto
qed

definition codec_api :: api_lib where
  "codec_api =
     \<lparr>sci_to_api = enc_sci,
      sci_from_api = (\<lambda>bs. case dec_sci bs of Some (s, []) \<Rightarrow> Ok s | _ \<Rightarrow> Err ArrayCastError)\<rparr>"

lemma codec_api_ok: "api_lib_ok codec_api"
proof -
  have "dec_sci (enc_sci s @ []) = Some (s, [])" for s
    using self_delimiting_sci by (simp only: self_delimiting_def)
  then show ?thesis
    by (auto simp: api_lib_ok_def codec_api_def split: option.splits prod.splits list.splits)
qed

definition sample_server_task :: "(rat, in_memory_quote_book client_service) bot_task" where
  "sample_server_task = (bot_new sample_pairs sample_service)
     \<lparr>pending_tx_outs := [\<lparr>pt_matched = sample_match 0 7 50 0 0, pt_sci = sample_full 7 100 10\<rparr>]\<rparr>"

lemma sample_server_task_simps:
  "pending_tx_outs sample_server_task = [\<lparr>pt_matched = sample_match 0 7 50 0 0, pt_sci = sample_full 7 100 10\<rparr>]"
  "listed_tx_outs sample_server_task = []" "bot_deqs sample_server_task = sample_service"
  by (simp_all add: sample_server_task_def bot_new_def)

theorem bot_lists_book_quotes_witness:
  "\<exists>st' news. submit_pending_tx_outs codec_api
      (server_client sample_lib codec_api (in_memory_ops sample_lib) (sci_validator Map.empty) (\<lambda>n. [0..<n]) 5)
      of_nat sample_server_task = (Ok (), st') \<and> pending_tx_outs st' = [] \<and> listed_tx_outs st' = news \<and>
    (\<forall>x\<in>set news. lt_quote x \<in> mem_abs (cs_quote_book (bot_deqs st')))"
proof -
  have "mem_abs (cs_quote_book (bot_deqs sample_server_task)) \<union>
      offered_quotes sample_lib 5 5 (pt_sci ` set (pending_tx_outs sample_server_task)) \<subseteq>
      mem_abs (cs_quote_book sample_service) \<union>
      offered_quotes sample_lib 5 5 (set [sample_full 7 100 10, sample_full 8 100 10])"
    by (auto simp: sample_server_task_simps offered_quotes_def)
  note coh = coherent_subset [OF sample_request_coherent this]
  from bot_lists_book_quotes [OF mem.quote_book_axioms sample_lib_ok codec_api_ok _ _ _ _ coh,
      of "\<lambda>n. [0..<n]" Map.empty of_nat]
  obtain st' news where "submit_pending_tx_outs codec_api
      (server_client sample_lib codec_api (in_memory_ops sample_lib) (sci_validator Map.empty) (\<lambda>n. [0..<n]) 5)
      of_nat sample_server_task = (Ok (), st')" "pending_tx_outs st' = []" "listed_tx_outs st' = news"
    "\<forall>x\<in>set news. lt_quote x \<in> mem_abs (cs_quote_book (bot_deqs st'))"
    by (auto simp: sample_server_task_simps sample_service_def sample_book_inv MAX_SIMULTANEOUS_QUOTES_def
      system_time_nanos_def lessThan_Suc)
  then show ?thesis by blast
qed

section \<open>What the bot gives up\<close>

text \<open>A bot with 30 pending outputs or more never lists any of them: the server refuses its requests.\<close>

lemma large_batch_never_accepted:
  assumes "MAX_SIMULTANEOUS_QUOTES \<le> length (pending_tx_outs st)"
  shows "submit_pending_tx_outs api (server_client lib api ops validator schedule now) clock st =
    (Err (Grpc ''Too many quotes''), st)"
proof -
  have "pending_tx_outs st \<noteq> []" using assms by (auto simp: MAX_SIMULTANEOUS_QUOTES_def)
  then show ?thesis
    using assms by (simp add: submit_pending_tx_outs_def submit_quotes_def server_client_def submit_quotes_impl_def)
qed

text \<open>
  An output whose quote the server returned in a form that does not decode is lost, with all
  outputs after it: it is neither pending nor listed afterwards.
\<close>

lemma undecodable_quote_loses_outputs:
  "submit_pending_tx_outs sample_api
     (\<lambda>req w. (Ok \<lparr>status_codes = [CREATED], error_messages = [''''], response_quotes = [default_api_quote]\<rparr>, w))
     of_nat sample_task =
   (Err (ApiConversion ArrayCastError), sample_task\<lparr>pending_tx_outs := []\<rparr>)"
  by (simp add: submit_pending_tx_outs_def sample_task_def submit_quotes_def sanity_check_submit_quotes_response_def
    response_rows_def sample_api_def quote_try_from_api_def default_api_quote_def bot_new_def)

end
