(* ===== verification/Bot_Main.thy ===== *)
theory Bot_Main
  imports Bot_System
begin

text \<open>
  The outer parts of the liquidity bot: the conversions of its admin API
  (\<open>liquidity-bot/src/convert\<close>), the interface through which other tasks talk to the bot's task, the
  admin service (\<open>admin_service.rs\<close>), the periodic metrics (\<open>metrics.rs\<close>) and \<open>main\<close>
  (\<open>bin/main.rs\<close>), which feeds the bot from the wallet. The property of \<open>main\<close> is the one its
  comments claim: the bot hears of every output it may offer, and of every spend of one.
\<close>

section \<open>The admin API\<close>

text \<open>Conversions of the MobileCoin crates; \<open>'t\<close>, \<open>'a\<close> and \<open>'k\<close> are their Protobuf types.\<close>

record ('t, 'a, 'k) external_api =
  tx_out_to_api :: "tx_out \<Rightarrow> 't"
  tx_out_from_api :: "'t \<Rightarrow> (tx_out, conversion_error) result"
  amount_to_api :: "amount \<Rightarrow> 'a"
  amount_from_api :: "'a \<Rightarrow> (amount, conversion_error) result"
  key_image_to_api :: "key_image \<Rightarrow> 'k"
  key_image_from_api :: "'k \<Rightarrow> (key_image, conversion_error) result"

definition external_api_ok :: "('t, 'a, 'k) external_api \<Rightarrow> bool" where
  "external_api_ok ext \<longleftrightarrow>
     (\<forall>x. tx_out_from_api ext (tx_out_to_api ext x) = Ok x) \<and>
     (\<forall>x. amount_from_api ext (amount_to_api ext x) = Ok x) \<and>
     (\<forall>x. key_image_from_api ext (key_image_to_api ext x) = Ok x)"

record ('t, 'a, 'k) api_matched_tx_out =
  am_block_index :: u64
  am_tx_out :: 't
  am_amount :: 'a
  am_subaddress_index :: u64
  am_key_image :: 'k

definition api_matched_from :: "('t, 'a, 'k) external_api \<Rightarrow> matched_tx_out \<Rightarrow> ('t, 'a, 'k) api_matched_tx_out" where
  "api_matched_from ext src =
     \<lparr>am_block_index = mt_block_index src, am_tx_out = tx_out_to_api ext (mt_tx_out src),
      am_amount = amount_to_api ext (mt_amount src), am_subaddress_index = mt_subaddress_index src,
      am_key_image = key_image_to_api ext (mt_key_image src)\<rparr>"

definition matched_try_from ::
  "('t, 'a, 'k) external_api \<Rightarrow> ('t, 'a, 'k) api_matched_tx_out \<Rightarrow> (matched_tx_out, conversion_error) result" where
  "matched_try_from ext src =
     and_then (tx_out_from_api ext (am_tx_out src)) (\<lambda>tx_out.
     and_then (amount_from_api ext (am_amount src)) (\<lambda>amount.
     and_then (key_image_from_api ext (am_key_image src)) (\<lambda>key_image.
       Ok \<lparr>mt_block_index = am_block_index src, mt_tx_out = tx_out, mt_amount = amount,
           mt_subaddress_index = am_subaddress_index src, mt_key_image = key_image\<rparr>)))"

record ('t, 'a, 'k) api_pending_tx_out =
  apt_matched :: "('t, 'a, 'k) api_matched_tx_out"
  apt_sci :: bytes

definition api_pending_from ::
  "('t, 'a, 'k) external_api \<Rightarrow> api_lib \<Rightarrow> pending_tx_out \<Rightarrow> ('t, 'a, 'k) api_pending_tx_out" where
  "api_pending_from ext api src =
     \<lparr>apt_matched = api_matched_from ext (pt_matched src), apt_sci = sci_to_api api (pt_sci src)\<rparr>"

definition pending_try_from ::
  "('t, 'a, 'k) external_api \<Rightarrow> api_lib \<Rightarrow> ('t, 'a, 'k) api_pending_tx_out \<Rightarrow>
     (pending_tx_out, conversion_error) result" where
  "pending_try_from ext api src =
     and_then (matched_try_from ext (apt_matched src)) (\<lambda>m.
     and_then (sci_from_api api (apt_sci src)) (\<lambda>s. Ok \<lparr>pt_matched = m, pt_sci = s\<rparr>))"

record ('t, 'a, 'k) api_listed_tx_out =
  alt_matched :: "('t, 'a, 'k) api_matched_tx_out"
  alt_quote :: api_quote
  alt_last_submitted_at :: u64

definition api_listed_from ::
  "('t, 'a, 'k) external_api \<Rightarrow> api_lib \<Rightarrow> listed_tx_out \<Rightarrow> ('t, 'a, 'k) api_listed_tx_out" where
  "api_listed_from ext api src =
     \<lparr>alt_matched = api_matched_from ext (lt_matched src),
      alt_quote = api_quote_from_quote api (lt_quote src),
      alt_last_submitted_at = last_submitted_at src\<rparr>"

definition listed_try_from ::
  "('t, 'a, 'k) external_api \<Rightarrow> api_lib \<Rightarrow> ('t, 'a, 'k) api_listed_tx_out \<Rightarrow>
     (listed_tx_out, conversion_error) result" where
  "listed_try_from ext api src =
     and_then (matched_try_from ext (alt_matched src)) (\<lambda>m.
     and_then (quote_try_from_api api (alt_quote src)) (\<lambda>q.
       Ok \<lparr>lt_matched = m, lt_quote = q, last_submitted_at = alt_last_submitted_at src\<rparr>))"

section \<open>The interface and the admin service\<close>

text \<open>
  A call sends a command with the sender of a one-shot channel and waits for the answer. The bot's
  task first handles what is queued before the command; the call panics when the task has ended.
\<close>

definition ask ::
  "mc_lib \<Rightarrow> ('d, 'l) bot_lib \<Rightarrow> 'l ledger_ops \<Rightarrow> api_lib \<Rightarrow> 'w deqs_client \<Rightarrow> 'l bot_input list \<Rightarrow>
     (nat \<Rightarrow> 'l bot_input) \<Rightarrow> nat \<Rightarrow> ('d, 'w) bot_task \<Rightarrow> ((bot_answer, unit) result \<times> ('d, 'w) bot_task) option" where
  "ask lib blib ldg api deqs queue mk tx st =
     map_option (\<lambda>(r, st'). (case (r, map_of (bot_answers st') tx) of
         (Ok True, Some a) \<Rightarrow> Ok a | _ \<Rightarrow> Panic, st'))
       (bot_run lib blib ldg api deqs (queue @ [mk tx]) st)"

fun pending_answer :: "(bot_answer, unit) result \<Rightarrow> (pending_tx_out list, unit) result" where
  "pending_answer (Ok (PendingAnswer xs)) = Ok xs"
| "pending_answer _ = Panic"

fun listed_answer :: "(bot_answer, unit) result \<Rightarrow> (listed_tx_out list, unit) result" where
  "listed_answer (Ok (ListedAnswer xs)) = Ok xs"
| "listed_answer _ = Panic"

fun stats_answer :: "(bot_answer, unit) result \<Rightarrow> (stats, unit) result" where
  "stats_answer (Ok (StatsAnswer s)) = Ok s"
| "stats_answer _ = Panic"

definition interface_pending_tx_outs where
  "interface_pending_tx_outs lib blib ldg api deqs queue l rng clock tx st =
     map_option (apfst pending_answer)
       (ask lib blib ldg api deqs queue (\<lambda>tx. BotCommand l rng clock (GetPendingTxOuts tx)) tx st)"

definition interface_listed_tx_outs where
  "interface_listed_tx_outs lib blib ldg api deqs queue l rng clock tx st =
     map_option (apfst listed_answer)
       (ask lib blib ldg api deqs queue (\<lambda>tx. BotCommand l rng clock (GetListedTxOuts tx)) tx st)"

definition interface_stats where
  "interface_stats lib blib ldg api deqs queue l rng clock tx st =
     map_option (apfst stats_answer)
       (ask lib blib ldg api deqs queue (\<lambda>tx. BotCommand l rng clock (GetStats tx)) tx st)"

definition get_pending_tx_outs_impl where
  "get_pending_tx_outs_impl ext lib blib ldg api deqs queue l rng clock tx st =
     map_option (apfst (map_ok (map (api_pending_from ext api))))
       (interface_pending_tx_outs lib blib ldg api deqs queue l rng clock tx st)"

definition get_listed_tx_outs_impl where
  "get_listed_tx_outs_impl ext lib blib ldg api deqs queue l rng clock tx st =
     map_option (apfst (map_ok (map (api_listed_from ext api))))
       (interface_listed_tx_outs lib blib ldg api deqs queue l rng clock tx st)"

text \<open>\<open>shutdown\<close> signals the task, which handles \<open>queue\<close> first, and waits for its end.\<close>

definition bot_shutdown where
  "bot_shutdown lib blib ldg api deqs queue running st =
     (if \<not> running then Some st
      else map_option snd (bot_run lib blib ldg api deqs (queue @ [BotShutdown]) st))"

section \<open>Metrics\<close>

text \<open>Gauges by token; a label is the decimal form of the token id.\<close>

record per_token_metrics =
  num_pending_gauge :: "token_id \<rightharpoonup> int"
  pending_value_gauge :: "token_id \<rightharpoonup> int"
  num_listed_gauge :: "token_id \<rightharpoonup> int"
  listed_value_gauge :: "token_id \<rightharpoonup> int"

definition set_gauges :: "('v \<Rightarrow> int) \<Rightarrow> (token_id \<rightharpoonup> 'v) \<Rightarrow> (token_id \<rightharpoonup> int) \<Rightarrow> (token_id \<rightharpoonup> int)" where
  "set_gauges conv m g = g ++ (\<lambda>t. map_option conv (m t))"

definition update_metrics_from_liquidity_bot :: "stats \<Rightarrow> per_token_metrics \<Rightarrow> per_token_metrics" where
  "update_metrics_from_liquidity_bot s m =
     \<lparr>num_pending_gauge = set_gauges (\<lambda>n. as_i64 (of_nat n)) (num_pending_by_token s) (num_pending_gauge m),
      pending_value_gauge = set_gauges as_i64 (total_pending_value_by_token s) (pending_value_gauge m),
      num_listed_gauge = set_gauges (\<lambda>n. as_i64 (of_nat n)) (num_listed_by_token s) (num_listed_gauge m),
      listed_value_gauge = set_gauges as_i64 (total_listed_value_by_token s) (listed_value_gauge m)\<rparr>"

section \<open>The main function\<close>

text \<open>
  What \<open>main\<close> keeps: the commands it has sent to the bot, whether the bot's task still receives, and
  the gauges. Its loop receives the interrupt signal, an event of the wallet (\<open>None\<close> when the channel
  is closed), or a tick, at which the wallet's next block and the bot's answer are read.
\<close>

record bot_main_state =
  sent_commands :: "bot_command list"
  bot_receiving :: bool
  NEXT_BLOCK_INDEX :: int
  PER_TOKEN_METRICS :: per_token_metrics

datatype bot_main_input =
    CtrlC
  | WalletRx "wallet_event option"
  | BotMetricsTick block_index "(stats, unit) result"

definition notify_wallet_event :: "wallet_event \<Rightarrow> bot_main_state \<Rightarrow> (unit, unit) result \<times> bot_main_state" where
  "notify_wallet_event event st =
     (if bot_receiving st then (Ok (), st\<lparr>sent_commands := sent_commands st @ [WalletEvent event]\<rparr>)
      else (Panic, st))"

fun notify_wallet_events :: "wallet_event list \<Rightarrow> bot_main_state \<Rightarrow> (unit, unit) result \<times> bot_main_state" where
  "notify_wallet_events [] st = (Ok (), st)"
| "notify_wallet_events (e # es) st = then_do (notify_wallet_event e st) (\<lambda>_. notify_wallet_events es)"

definition bot_update_periodic_metrics ::
  "block_index \<Rightarrow> (stats, unit) result \<Rightarrow> bot_main_state \<Rightarrow> (unit, unit) result \<times> bot_main_state" where
  "bot_update_periodic_metrics next answer st =
     (let st = st\<lparr>NEXT_BLOCK_INDEX := as_i64 next\<rparr>
      in then_do (answer, st) (\<lambda>s st.
           (Ok (), st\<lparr>PER_TOKEN_METRICS := update_metrics_from_liquidity_bot s (PER_TOKEN_METRICS st)\<rparr>)))"

fun bot_main_loop :: "bot_main_input list \<Rightarrow> bot_main_state \<Rightarrow> (unit, unit) result \<times> bot_main_state" where
  "bot_main_loop [] st = (Ok (), st)"
| "bot_main_loop (CtrlC # inputs) st = (Ok (), st)"
| "bot_main_loop (WalletRx (Some event) # inputs) st =
     then_do (notify_wallet_event event st) (\<lambda>_. bot_main_loop inputs)"
| "bot_main_loop (WalletRx None # inputs) st = (Ok (), st)"
| "bot_main_loop (BotMetricsTick next answer # inputs) st =
     then_do (bot_update_periodic_metrics next answer st) (\<lambda>_. bot_main_loop inputs)"

text \<open>The outputs the wallet knows are fed first, then the loop runs.\<close>

definition bot_main :: "scanner \<Rightarrow> bot_main_input list \<Rightarrow> bot_main_state \<Rightarrow> (unit, unit) result \<times> bot_main_state" where
  "bot_main wallet inputs st =
     then_do (notify_wallet_events (existing_events wallet) st) (\<lambda>_. bot_main_loop inputs)"

text \<open>
  The part of \<open>main\<close> before that: the ledger must have a block, the key file and the wallet must be
  readable, and the admin server, if one is configured, must start.
\<close>

definition bot_start ::
  "'l ledger_ops \<Rightarrow> 'l \<Rightarrow> (account_key, string) result \<Rightarrow> wallet_io \<Rightarrow> bytes option \<Rightarrow> block_index \<Rightarrow>
     token_id \<Rightarrow> token_id \<Rightarrow> 'd \<Rightarrow> 'w \<Rightarrow> (unit, string) result option \<Rightarrow>
     (account_key \<times> scanner \<times> ('d, 'w) bot_task, unit) result" where
  "bot_start ldg ledger_db keyfile io wallet_db first_block_index base counter swap_rate w admin_server =
     and_then (expect (num_blocks ldg ledger_db)) (\<lambda>num_blocks.
     if num_blocks = 0 then Panic
     else
       and_then (expect keyfile) (\<lambda>account_key.
       and_then (expect (mini_wallet_new io wallet_db first_block_index)) (\<lambda>wallet.
       and_then (case admin_server of None \<Rightarrow> Ok () | Some r \<Rightarrow> expect r) (\<lambda>_.
         Ok (account_key, wallet, bot_new (main_pairs base counter swap_rate) w)))))"

section \<open>Lemmas on the admin service\<close>

lemma matched_round_trip:
  "external_api_ok ext \<Longrightarrow> matched_try_from ext (api_matched_from ext m) = Ok m"
  by (simp add: external_api_ok_def matched_try_from_def api_matched_from_def)

lemma pending_round_trip:
  "external_api_ok ext \<Longrightarrow> api_lib_ok api \<Longrightarrow> pending_try_from ext api (api_pending_from ext api p) = Ok p"
  by (simp add: pending_try_from_def api_pending_from_def matched_round_trip api_lib_ok_def)

lemma listed_round_trip:
  "external_api_ok ext \<Longrightarrow> api_lib_ok api \<Longrightarrow> length (q_id (lt_quote x)) = 32 \<Longrightarrow>
     listed_try_from ext api (api_listed_from ext api x) = Ok x"
  by (simp add: listed_try_from_def api_listed_from_def matched_round_trip quote_api_round_trip)

lemma bot_run_append:
  "bot_run lib blib ldg api deqs xs st = Some (Ok True, st') \<Longrightarrow>
     bot_run lib blib ldg api deqs (xs @ ys) st = bot_run lib blib ldg api deqs ys st'"
proof (induction xs arbitrary: st)
  case (Cons x xs)
  obtain r where r: "bot_step lib blib ldg api deqs x st = Some r"
    using Cons.prems by (cases "bot_step lib blib ldg api deqs x st") simp_all
  obtain st1 where "r = (Ok True, st1)"
    using Cons.prems r by (cases r; cases "fst r") (auto split: bool.splits)
  with Cons r show ?case by simp
qed simp

text \<open>The admin service reports exactly what the bot tracks once it has handled what was queued, in a
  form that the client decodes to the same outputs.\<close>

lemma admin_reports_pending:
  assumes "external_api_ok ext" "api_lib_ok api"
    and run: "bot_run lib blib ldg api deqs queue st = Some (Ok True, st1)"
    and tx: "tx \<notin> bot_dropped st1" "tx \<notin> fst ` set (bot_answers st1)"
  shows "\<exists>resp st2. get_pending_tx_outs_impl ext lib blib ldg api deqs queue l rng clock tx st = Some (Ok resp, st2) \<and>
    collect_results (pending_try_from ext api) resp = Ok (pending_tx_outs st1) \<and>
    pending_tx_outs st2 = pending_tx_outs st1 \<and> listed_tx_outs st2 = listed_tx_outs st1"
proof -
  let ?st2 = "st1\<lparr>bot_answers := bot_answers st1 @ [(tx, PendingAnswer (pending_tx_outs st1))]\<rparr>"
  have "map_of (bot_answers st1) tx = None"
    using tx(2) by (simp add: map_of_eq_None_iff)
  then have "get_pending_tx_outs_impl ext lib blib ldg api deqs queue l rng clock tx st =
      Some (Ok (map (api_pending_from ext api) (pending_tx_outs st1)), ?st2)"
    using tx(1) by (simp add: get_pending_tx_outs_impl_def interface_pending_tx_outs_def ask_def
        bot_run_append [OF run] answer_command_def map_add_def)
  moreover have "collect_results (pending_try_from ext api) (map (api_pending_from ext api) ps) = Ok ps" for ps
    by (induction ps) (simp_all add: pending_round_trip assms(1,2))
  ultimately show ?thesis by simp
qed

lemma admin_reports_listed:
  assumes "external_api_ok ext" "api_lib_ok api"
    and run: "bot_run lib blib ldg api deqs queue st = Some (Ok True, st1)"
    and tx: "tx \<notin> bot_dropped st1" "tx \<notin> fst ` set (bot_answers st1)"
    and ids: "\<forall>x\<in>set (listed_tx_outs st1). length (q_id (lt_quote x)) = 32"
  shows "\<exists>resp st2. get_listed_tx_outs_impl ext lib blib ldg api deqs queue l rng clock tx st = Some (Ok resp, st2) \<and>
    collect_results (listed_try_from ext api) resp = Ok (listed_tx_outs st1) \<and>
    pending_tx_outs st2 = pending_tx_outs st1 \<and> listed_tx_outs st2 = listed_tx_outs st1"
proof -
  let ?st2 = "st1\<lparr>bot_answers := bot_answers st1 @ [(tx, ListedAnswer (listed_tx_outs st1))]\<rparr>"
  have "map_of (bot_answers st1) tx = None"
    using tx(2) by (simp add: map_of_eq_None_iff)
  then have "get_listed_tx_outs_impl ext lib blib ldg api deqs queue l rng clock tx st =
      Some (Ok (map (api_listed_from ext api) (listed_tx_outs st1)), ?st2)"
    using tx(1) by (simp add: get_listed_tx_outs_impl_def interface_listed_tx_outs_def ask_def
        bot_run_append [OF run] answer_command_def map_add_def)
  moreover have "collect_results (listed_try_from ext api) (map (api_listed_from ext api) xs) = Ok xs"
    if "\<forall>x\<in>set xs. length (q_id (lt_quote x)) = 32" for xs
    using that by (induction xs) (simp_all add: listed_round_trip assms(1,2))
  ultimately show ?thesis using ids by simp
qed

section \<open>What the bot hears\<close>

fun received_of :: "wallet_event \<Rightarrow> matched_tx_out list" where
  "received_of (BlockProcessed i received spent) = received"

fun spent_of :: "wallet_event \<Rightarrow> matched_tx_out list" where
  "spent_of (BlockProcessed i received spent) = spent"

fun wallet_inputs :: "bot_main_input list \<Rightarrow> wallet_event list" where
  "wallet_inputs [] = []"
| "wallet_inputs (WalletRx (Some e) # inputs) = e # wallet_inputs inputs"
| "wallet_inputs (_ # inputs) = wallet_inputs inputs"

lemma concat_group_by_block: "concat (group_by_block ms) = ms"
  by (induction ms rule: group_by_block.induct) simp_all

lemma existing_events_received: "concat (map received_of (existing_events sc)) = wallet_matched_tx_outs sc"
  by (simp add: existing_events_def comp_def concat_group_by_block)

lemma notify_wallet_events_sends:
  "bot_receiving st \<Longrightarrow>
     notify_wallet_events es st = (Ok (), st\<lparr>sent_commands := sent_commands st @ map WalletEvent es\<rparr>)"
  by (induction es arbitrary: st) (simp_all add: notify_wallet_event_def)

lemma bot_main_loop_sends:
  "bot_receiving st \<Longrightarrow> CtrlC \<notin> set inputs \<Longrightarrow> WalletRx None \<notin> set inputs \<Longrightarrow>
     \<forall>n a. BotMetricsTick n a \<in> set inputs \<longrightarrow> is_ok a \<Longrightarrow>
     \<exists>st'. bot_main_loop inputs st = (Ok (), st') \<and>
       sent_commands st' = sent_commands st @ map WalletEvent (wallet_inputs inputs)"
proof (induction inputs st rule: bot_main_loop.induct)
  case (3 event inputs st)
  from 3(2) show ?case
    using 3(1) [of "st\<lparr>sent_commands := sent_commands st @ [WalletEvent event]\<rparr>"] 3(3-)
    by (simp add: notify_wallet_event_def)
next
  case (5 n answer inputs st)
  then obtain s where "answer = Ok s" by (cases answer) fastforce+
  with 5(1) [of "snd (bot_update_periodic_metrics n answer st)"] 5(2-) show ?case
    by (simp add: bot_update_periodic_metrics_def)
qed simp_all

lemma bot_main_sends:
  assumes "bot_receiving st" and "CtrlC \<notin> set inputs" and "WalletRx None \<notin> set inputs"
    and "\<forall>n a. BotMetricsTick n a \<in> set inputs \<longrightarrow> is_ok a"
  shows "\<exists>st'. bot_main sc inputs st = (Ok (), st') \<and>
    sent_commands st' = sent_commands st @ map WalletEvent (existing_events sc @ wallet_inputs inputs)"
  using bot_main_loop_sends [of "st\<lparr>sent_commands := sent_commands st @ map WalletEvent (existing_events sc)\<rparr>" inputs]
    assms
  by (auto simp: bot_main_def notify_wallet_events_sends)

lemma scan_progress_le:
  assumes "\<forall>l\<in>set ls. views ldg blocks bs l"
  shows "scan_progress blocks ls n \<le> max n (length bs)"
  using assms
proof (induction ls arbitrary: n)
  case (Cons l ls)
  then have "length (blocks l) \<le> length bs" by (simp add: views_def)
  then show ?case
    using Cons.IH [of "max n (min (length (blocks l)) (n + SCAN_CHUNK_SIZE))"] Cons.prems by simp
qed (simp add: scan_progress_def)

lemma event_at_index:
  assumes "list_all2 (event_at lib ak bs f) [n0..<n] es" and "n0 \<le> j" and "j < n"
  shows "j - n0 < length es" and "event_at lib ak bs f j (es ! (j - n0))"
proof -
  show "j - n0 < length es" using list_all2_lengthD [OF assms(1)] assms(2,3) by simp
  show "event_at lib ak bs f j (es ! (j - n0))"
    using list_all2_nthD [OF assms(1), of "j - n0"] assms(2,3) by simp
qed

text \<open>The spend of an output is reported after the output itself.\<close>

lemma spend_heard:
  assumes ev: "list_all2 (event_at lib ak bs f) [n0..<n] es"
    and m: "m \<in> owned_in lib ak bs f j" and j: "mt_key_image m \<in> set (bc_key_images (bs ! j))" "n0 \<le> j" "j < n"
  shows "j - n0 < length es \<and> m \<in> set (spent_of (es ! (j - n0)))"
  using event_at_index [OF ev j(2,3)] m j(1) by (auto simp: event_at_def)

lemma feed_complete:
  assumes fn: "f \<le> n0" "n0 \<le> g" "g \<le> n"
    and w1: "wallet_at lib ak bs f g (sc_state sc1)" and w2: "wallet_at lib ak bs f n (sc_state sc2)"
    and ev: "list_all2 (event_at lib ak bs f) [n0..<n] es"
    and x: "x \<in> set (wallet_matched_tx_outs sc2)"
  shows "\<exists>e\<in>set (existing_events sc1 @ es). x \<in> set (received_of e)"
proof -
  obtain b where b: "x \<in> set (owned lib ak bs b)" "f \<le> b" "b < n" "mt_key_image x \<notin> spent_in bs f n"
    using x wallet_at_shows(1) [OF w2] by (auto simp: owned_in_def)
  show ?thesis
  proof (cases "b < g")
    case True
    then have "x \<in> set (concat (map received_of (existing_events sc1)))"
      using b fn unfolding existing_events_received wallet_at_shows(1) [OF w1]
      by (auto simp: owned_in_def spent_in_def)
    then show ?thesis by auto
  next
    case False
    then have "n0 \<le> b" using fn by simp
    note i = event_at_index [OF ev this b(3)]
    then have "x \<in> set (received_of (es ! (b - n0)))" using b(1) by (auto simp: event_at_def)
    then show ?thesis using i(1) by (auto intro: bexI [of _ "es ! (b - n0)"])
  qed
qed

lemma feed_spends_existing:
  assumes fn: "f \<le> n0" "n0 \<le> g" "g \<le> n"
    and w1: "wallet_at lib ak bs f g (sc_state sc1)" and w2: "wallet_at lib ak bs f n (sc_state sc2)"
    and ev: "list_all2 (event_at lib ak bs f) [n0..<n] es"
    and i: "i < length (existing_events sc1)" "m \<in> set (received_of (existing_events sc1 ! i))"
  shows "m \<in> set (wallet_matched_tx_outs sc2) \<or>
    (\<exists>k<length es. m \<in> set (spent_of (es ! k)))"
proof -
  have "m \<in> set (concat (map received_of (existing_events sc1)))" using i by force
  then have m: "m \<in> owned_in lib ak bs f g" "mt_key_image m \<notin> spent_in bs f g"
    unfolding existing_events_received wallet_at_shows(1) [OF w1] by simp_all
  show ?thesis
  proof (cases "mt_key_image m \<in> spent_in bs f n")
    case True
    then obtain j where j: "mt_key_image m \<in> set (bc_key_images (bs ! j))" "f \<le> j" "j < n" "g \<le> j"
      using m(2) by (auto simp: spent_in_def)
    have "m \<in> owned_in lib ak bs f j" using m(1) j(4) by (auto simp: owned_in_def)
    with spend_heard [OF ev _ j(1) _ j(3)] fn(2) j(4) show ?thesis by (meson le_trans)
  next
    case False
    then show ?thesis using m(1) fn unfolding wallet_at_shows(1) [OF w2] by (auto simp: owned_in_def)
  qed
qed

lemma feed_spends_later:
  assumes ok: "chain_ok lib ak bs" and fn: "f \<le> n0" "n \<le> max n0 (length bs)"
    and w2: "wallet_at lib ak bs f n (sc_state sc2)"
    and ev: "list_all2 (event_at lib ak bs f) [n0..<n] es"
    and i: "i < length es" "m \<in> set (received_of (es ! i))"
  shows "m \<in> set (wallet_matched_tx_outs sc2) \<or>
    (\<exists>k<length es. i < k \<and> m \<in> set (spent_of (es ! k)))"
proof -
  have b: "n0 \<le> n0 + i" "n0 + i < n" using i(1) list_all2_lengthD [OF ev] by simp_all
  then have mb: "m \<in> set (owned lib ak bs (n0 + i))"
    using i(2) event_at_index(2) [OF ev b] by (auto simp: event_at_def)
  show ?thesis
  proof (cases "mt_key_image m \<in> spent_in bs f n")
    case True
    then obtain j where j: "mt_key_image m \<in> set (bc_key_images (bs ! j))" "j < n"
      by (auto simp: spent_in_def)
    have "n \<le> length bs" using fn(2) b by simp
    then have ij: "n0 + i < j" using ok mb j b(2) unfolding chain_ok_def by (meson less_le_trans)
    then have "m \<in> owned_in lib ak bs f j" using mb fn(1) by (auto simp: owned_in_def)
    with spend_heard [OF ev _ j(1) _ j(2)] ij show ?thesis
      by (intro disjI2 exI [of _ "j - n0"]) auto
  next
    case False
    then show ?thesis
      using mb b fn(1) unfolding wallet_at_shows(1) [OF w2] by (auto simp: owned_in_def)
  qed
qed

lemma feed_spends:
  assumes ok: "chain_ok lib ak bs" and fn: "f \<le> n0" "n0 \<le> g" "g \<le> n" "n \<le> max n0 (length bs)"
    and w: "wallet_at lib ak bs f g (sc_state sc1)" "wallet_at lib ak bs f n (sc_state sc2)"
    and ev: "list_all2 (event_at lib ak bs f) [n0..<n] es"
    and fed: "fed = existing_events sc1 @ es" and i: "i < length fed" "m \<in> set (received_of (fed ! i))"
  shows "m \<in> set (wallet_matched_tx_outs sc2) \<or> (\<exists>k<length fed. i < k \<and> m \<in> set (spent_of (fed ! k)))"
proof (cases "i < length (existing_events sc1)")
  case True
  then consider "m \<in> set (wallet_matched_tx_outs sc2)" | k where "k < length es" "m \<in> set (spent_of (es ! k))"
    using feed_spends_existing [OF fn(1-3) w ev True] i(2) fed by (auto simp: nth_append)
  then show ?thesis
    using True fed by cases (auto intro!: exI [of _ "length (existing_events sc1) + _"])
next
  case False
  then have "i - length (existing_events sc1) < length es"
    and "m \<in> set (received_of (es ! (i - length (existing_events sc1))))"
    using i fed by (auto simp: nth_append)
  from feed_spends_later [OF ok fn(1,4) w(2) ev this]
  consider "m \<in> set (wallet_matched_tx_outs sc2)"
    | k where "k < length es" "i - length (existing_events sc1) < k" "m \<in> set (spent_of (es ! k))"
    by blast
  then show ?thesis
    using False fed by cases (auto intro!: exI [of _ "length (existing_events sc1) + _"])
qed

section \<open>Properties\<close>

text \<open>
  C38: The bot hears of every output it may offer. A wallet has scanned the chain, possibly in earlier
  runs of the bot, and was started again from its file; at some point \<open>main\<close> reads the outputs it
  knows, feeds them to the bot and then forwards the wallet's events, while the wallet's thread goes
  on scanning. Then \<open>main\<close> does not panic; every output that is unspent at the end was fed to the bot;
  and for every output that was fed and has been spent since, a later event tells the bot so.
\<close>

theorem bot_hears_everything:
  assumes h: "healthy_ledger ldg blocks" and ok: "chain_ok lib ak bs" and io: "wallet_io_ok io"
    and v: "\<forall>l\<in>set (ls0 @ ls1 @ ls2). views ldg blocks bs l" and f: "f < 2 ^ 63" and ls0: "ls0 \<noteq> []"
    and old: "mini_wallet_new io None (of_nat f) = Ok sc_first"
      "scanner_run lib ldg io ak ls0 sc_first = (Ok (), sc_old)"
    and new: "mini_wallet_new io (sc_file sc_old) f0 = Ok sc0"
      "scanner_run lib ldg io ak ls1 sc0 = (Ok (), sc1)" "scanner_run lib ldg io ak ls2 sc1 = (Ok (), sc2)"
    and inputs: "wallet_inputs inputs = sc_events sc2" "CtrlC \<notin> set inputs" "WalletRx None \<notin> set inputs"
      "\<forall>n a. BotMetricsTick n a \<in> set inputs \<longrightarrow> is_ok a"
    and st: "bot_receiving st" "sent_commands st = []"
  shows "\<exists>st' fed. bot_main sc1 inputs st = (Ok (), st') \<and> sent_commands st' = map WalletEvent fed \<and>
    (\<forall>m\<in>set (wallet_matched_tx_outs sc2). \<exists>e\<in>set fed. m \<in> set (received_of e)) \<and>
    (\<forall>i<length fed. \<forall>m\<in>set (received_of (fed ! i)).
       m \<in> set (wallet_matched_tx_outs sc2) \<or> (\<exists>k<length fed. i < k \<and> m \<in> set (spent_of (fed ! k))))"
proof -
  let ?start = "scan_progress blocks ls0 f"
  let ?grab = "scan_progress blocks ls1 ?start"
  let ?last = "scan_progress blocks ls2 ?grab"
  have "sc_state sc_first = \<lparr>next_block_index = of_nat f, matched_tx_outs = []\<rparr>"
    using old(1) by (auto simp: mini_wallet_new_def state_load_def)
  then have w0: "wallet_at lib ak bs f ?start (sc_state sc0)" "sc_events sc0 = []" "?start < 2 ^ 63"
    using scanner_run_law [OF h ok io, of ls0 f f sc_first f0] wallet_at_start [of lib ak bs f] v f ls0 old(2) new(1)
    by (auto simp: mini_wallet_new_def)
  then obtain es1 where w1: "wallet_at lib ak bs f ?grab (sc_state sc1)" "sc_events sc1 = es1"
      "list_all2 (event_at lib ak bs f) [?start..<?grab] es1" "?grab < 2 ^ 63"
    using scanner_run_law [OF h ok io, of ls1 f ?start sc0 f0] scan_progress_ge [of f blocks ls0] v new(2) by auto
  then obtain es2 where w2: "wallet_at lib ak bs f ?last (sc_state sc2)" "sc_events sc2 = es1 @ es2"
      "list_all2 (event_at lib ak bs f) [?grab..<?last] es2"
    using scanner_run_law [OF h ok io, of ls2 f ?grab sc1 f0] scan_progress_ge [of f blocks ls0]
      scan_progress_ge [of ?start blocks ls1] v new(3) by auto
  have le: "f \<le> ?start" "?start \<le> ?grab" "?grab \<le> ?last" by (rule scan_progress_ge)+
  have max: "?last \<le> max ?start (length bs)"
    using scan_progress_le [of ls1 ldg blocks bs ?start] scan_progress_le [of ls2 ldg blocks bs ?grab] v by auto
  have ev: "list_all2 (event_at lib ak bs f) [?start..<?last] (sc_events sc2)"
    using upt_add_eq_append [of ?start ?grab "?last - ?grab"] le w1(3) w2(2,3) by (simp add: list_all2_appendI)
  obtain st' where "bot_main sc1 inputs st = (Ok (), st')"
      "sent_commands st' = map WalletEvent (existing_events sc1 @ sc_events sc2)"
    using bot_main_sends [OF st(1) inputs(2-4), of sc1] st(2) inputs(1) by auto
  moreover note feed_complete [OF le w1(1) w2(1) ev] feed_spends [OF ok le max w1(1) w2(1) ev refl]
  ultimately show ?thesis by (intro exI [of _ st'] exI [of _ "existing_events sc1 @ sc_events sc2"]) auto
qed

theorem bot_hears_everything_witness:
  "\<exists>sc1 sc2 st' fed. bot_main sc1 (map (\<lambda>e. WalletRx (Some e)) (sc_events sc2))
      \<lparr>sent_commands = [], bot_receiving = True, NEXT_BLOCK_INDEX = 0,
       PER_TOKEN_METRICS = \<lparr>num_pending_gauge = Map.empty, pending_value_gauge = Map.empty,
         num_listed_gauge = Map.empty, listed_value_gauge = Map.empty\<rparr>\<rparr> = (Ok (), st') \<and>
    wallet_next_block_index sc2 = of_nat (length sample_chain) \<and>
    sent_commands st' = map WalletEvent fed \<and>
    (\<forall>m\<in>set (wallet_matched_tx_outs sc2). \<exists>e\<in>set fed. m \<in> set (received_of e))"
proof -
  let ?l0 = "chain_of (take 1 sample_chain)" and ?l1 = "chain_of sample_chain"
  let ?init = "\<lparr>sc_state = \<lparr>next_block_index = 0, matched_tx_outs = []\<rparr>, sc_file = None, sc_events = []\<rparr>"
  let ?run = "scanner_run sample_scan_lib list_ledger sample_io []"
  have first: "mini_wallet_new sample_io None (of_nat 0) = Ok ?init"
    by (simp add: mini_wallet_new_def state_load_def)
  have views: "\<forall>l\<in>set ([?l0] @ [] @ [?l1]). views list_ledger chain_blocks sample_chain l"
    using sample_views by auto
  note law = scanner_run_law [OF lc.healthy_ledger_axioms sample_chain_ok sample_io_ok]
  obtain sc_old where old: "?run [?l0] ?init = (Ok (), sc_old)"
      "wallet_at sample_scan_lib [] sample_chain 0 (scan_progress chain_blocks [?l0] 0) (sc_state sc_old)"
      "state_load sample_io (sc_file sc_old) 0 = Ok (sc_state sc_old)"
      "scan_progress chain_blocks [?l0] 0 < 2 ^ 63"
    using law [of "[?l0]" 0 0 ?init 0] wallet_at_start [of sample_scan_lib "[]" sample_chain 0] views by auto
  let ?sc0 = "\<lparr>sc_state = sc_state sc_old, sc_file = sc_file sc_old, sc_events = []\<rparr>"
  have new: "mini_wallet_new sample_io (sc_file sc_old) 0 = Ok ?sc0"
    using old(3) by (simp add: mini_wallet_new_def)
  have run1: "?run [] ?sc0 = (Ok (), ?sc0)" by simp
  obtain sc2 where run2: "?run [?l1] ?sc0 = (Ok (), sc2)"
      "wallet_at sample_scan_lib [] sample_chain 0
        (scan_progress chain_blocks [?l1] (scan_progress chain_blocks [?l0] 0)) (sc_state sc2)"
    using law [of "[?l1]" 0 "scan_progress chain_blocks [?l0] 0" ?sc0 0] old(2,4) views by auto
  have next_block: "wallet_next_block_index sc2 = of_nat (length sample_chain)"
    using run2(2)
    by (simp add: wallet_at_def wallet_next_block_index_def scan_progress_def sample_chain_def SCAN_CHUNK_SIZE_def)
  have ins: "wallet_inputs (map (\<lambda>e. WalletRx (Some e)) es) = es" for es
    by (induction es) simp_all
  show ?thesis
    using bot_hears_everything [OF lc.healthy_ledger_axioms sample_chain_ok sample_io_ok views
        zero_less_power [OF pos2] list.distinct(2) first old(1) new run1 run2(1) ins,
        of "\<lparr>sent_commands = [], bot_receiving = True, NEXT_BLOCK_INDEX = 0,
       PER_TOKEN_METRICS = \<lparr>num_pending_gauge = Map.empty, pending_value_gauge = Map.empty,
         num_listed_gauge = Map.empty, listed_value_gauge = Map.empty\<rparr>\<rparr>"] next_block
    by fastforce
qed

end
