(* ===== verification/Test_Utils.thy ===== *)
theory Test_Utils
  imports Byte_Codecs
begin

text \<open>
  The helpers that build SCIs for tests and for the command line client (\<open>mc-test-utils/src/lib.rs\<close>).
  The transaction builder, the random numbers and the ledger are parameters; the ledger is optional,
  and when it is there the ring of the offered input is written to it so that the SCI refers to outputs
  the ledger has. What the helpers rely on is that a built SCI has the amounts, the tombstone block and
  the minimum fill that were put into the builder. The lemmas give the quote that each kind of SCI makes.
\<close>

section \<open>The builder\<close>

text \<open>The input a builder starts from: its ring, the indexes of the membership proofs, and its secrets.\<close>

record 'c credentials =
  cr_ring :: "tx_out list"
  cr_proof_indices :: "u64 list"
  cr_secrets :: 'c

record ('r, 'c, 'b, 'l) build_lib =
  account_random :: "'r \<Rightarrow> bytes \<times> 'r"
  get_input_credentials :: "amount \<Rightarrow> bytes \<Rightarrow> 'r \<Rightarrow> 'c credentials \<times> 'r"
  ledger_num_txos :: "'l \<Rightarrow> (u64, string) result"
  add_txos_to_ledger :: "tx_out list \<Rightarrow> 'r \<Rightarrow> 'l \<Rightarrow> (unit, string) result \<times> 'r \<times> 'l"
  builder_new :: "'c credentials \<Rightarrow> ('b, string) result"
  builder_add_required_output :: "amount \<Rightarrow> bytes \<Rightarrow> 'b \<Rightarrow> 'r \<Rightarrow> ('b, string) result \<times> 'r"
  builder_add_required_change_output :: "amount \<Rightarrow> bytes \<Rightarrow> 'b \<Rightarrow> 'r \<Rightarrow> ('b, string) result \<times> 'r"
  builder_add_partial_fill_output :: "amount \<Rightarrow> bytes \<Rightarrow> 'b \<Rightarrow> 'r \<Rightarrow> ('b, string) result \<times> 'r"
  builder_add_partial_fill_change_output :: "amount \<Rightarrow> bytes \<Rightarrow> 'b \<Rightarrow> 'r \<Rightarrow> ('b, string) result \<times> 'r"
  builder_set_tombstone_block :: "block_index \<Rightarrow> 'b \<Rightarrow> 'b"
  builder_set_min_partial_fill_value :: "u64 \<Rightarrow> 'b \<Rightarrow> 'b"
  builder_build :: "'b \<Rightarrow> 'r \<Rightarrow> (sci, string) result \<times> 'r"

text \<open>A call that uses the random numbers and is unwrapped.\<close>

definition unwrap_rng ::
  "('r \<Rightarrow> ('a, string) result \<times> 'r) \<Rightarrow> 'r \<times> 'm \<Rightarrow> ('a, error) result \<times> 'r \<times> 'm" where
  "unwrap_rng f env = (let (x, rng) = f (fst env) in (expect x, rng, snd env))"

text \<open>The credentials of an offered input, written to the ledger when there is one.\<close>

definition offered_input ::
  "('r, 'c, 'b, 'l) build_lib \<Rightarrow> amount \<Rightarrow> 'r \<times> 'l option \<Rightarrow>
     (bytes \<times> 'c credentials, error) result \<times> 'r \<times> 'l option" where
  "offered_input bl offered env =
     (let (offerer_account, rng) = account_random bl (fst env);
          (cred, rng) = get_input_credentials bl offered offerer_account rng
      in case snd env of
           None \<Rightarrow> (Ok (offerer_account, cred), rng, None)
         | Some ledger \<Rightarrow>
             then_do (expect (ledger_num_txos bl ledger), rng, Some ledger) (\<lambda>num_txos (rng, _).
               let cred = cred\<lparr>cr_proof_indices :=
                     map (\<lambda>index. num_txos + of_nat index) [0..<length (cr_proof_indices cred)]\<rparr>;
                   (r, rng, ledger) = add_txos_to_ledger bl (cr_ring cred) rng ledger
               in then_do (expect r, rng, Some ledger) (\<lambda>_ env. (Ok (offerer_account, cred), env))))"

definition create_sci_builder ::
  "('r, 'c, 'b, 'l) build_lib \<Rightarrow> token_id \<Rightarrow> token_id \<Rightarrow> u64 \<Rightarrow> u64 \<Rightarrow> 'r \<times> 'l option \<Rightarrow>
     ('b, error) result \<times> 'r \<times> 'l option" where
  "create_sci_builder bl base_token counter_token base_amount counter_amount env =
     then_do (offered_input bl \<lparr>amount_value = base_amount, amount_token_id = base_token\<rparr> env)
       (\<lambda>(offerer_account, cred) env.
     then_do (expect (builder_new bl cred), env) (\<lambda>builder env.
     then_do (unwrap_rng (builder_add_required_output bl
         \<lparr>amount_value = counter_amount, amount_token_id = counter_token\<rparr> offerer_account builder) env)
       (\<lambda>builder env. (Ok (builder_set_tombstone_block bl 2000 builder), env))))"

definition create_sci ::
  "mc_lib \<Rightarrow> ('r, 'c, 'b, 'l) build_lib \<Rightarrow> token_id \<Rightarrow> token_id \<Rightarrow> u64 \<Rightarrow> u64 \<Rightarrow> 'r \<times> 'l option \<Rightarrow>
     (sci, error) result \<times> 'r \<times> 'l option" where
  "create_sci lib bl base_token counter_token base_amount counter_amount env =
     then_do (create_sci_builder bl base_token counter_token base_amount counter_amount env)
       (\<lambda>builder env.
     then_do (unwrap_rng (builder_build bl builder) env) (\<lambda>s env.
     then_do (expect (sci_validate lib s), env) (\<lambda>_ env. (Ok s, env))))"

definition create_partial_sci ::
  "mc_lib \<Rightarrow> ('r, 'c, 'b, 'l) build_lib \<Rightarrow> token_id \<Rightarrow> token_id \<Rightarrow> u64 \<Rightarrow> u64 \<Rightarrow> u64 \<Rightarrow> u64 \<Rightarrow>
     'r \<times> 'l option \<Rightarrow> (sci, error) result \<times> 'r \<times> 'l option" where
  "create_partial_sci lib bl base_token counter_token base_amount_offered min_base_fill_amount
     required_base_change_amount counter_amount env =
     (let base = \<lambda>value. \<lparr>amount_value = value, amount_token_id = base_token\<rparr>
      in then_do (offered_input bl (base base_amount_offered) env) (\<lambda>(offerer_account, cred) env.
         then_do (expect (builder_new bl cred), env) (\<lambda>builder env.
         then_do (unwrap_rng (builder_add_partial_fill_change_output bl (base base_amount_offered)
             offerer_account builder) env) (\<lambda>builder env.
         then_do
           (if 0 < required_base_change_amount
            then unwrap_rng (builder_add_required_change_output bl (base required_base_change_amount)
              offerer_account builder) env
            else (Ok builder, env)) (\<lambda>builder env.
         then_do (unwrap_rng (builder_add_partial_fill_output bl
             \<lparr>amount_value = counter_amount, amount_token_id = counter_token\<rparr> offerer_account builder) env)
           (\<lambda>builder env.
         then_do (unwrap_rng (builder_build bl
             (builder_set_min_partial_fill_value bl min_base_fill_amount builder)) env) (\<lambda>s env.
         then_do (expect (sci_validate lib s), env) (\<lambda>_ env. (Ok s, env)))))))))"

section \<open>What a builder holds\<close>

text \<open>
  The content of a builder: the offered amount, the required and the partial fill outputs, the
  change of a partial fill, the tombstone block and the minimum fill.
\<close>

record builder_content =
  bc_offered :: amount
  bc_required :: "amount list"
  bc_partial :: "amount list"
  bc_change :: "amount option"
  bc_tombstone :: block_index
  bc_min_fill :: u64

definition sci_has :: "mc_lib \<Rightarrow> builder_content \<Rightarrow> sci \<Rightarrow> bool" where
  "sci_has lib c s \<longleftrightarrow>
     pseudo_output_amount s = bc_offered c \<and> required_output_amounts s = bc_required c \<and>
     (\<exists>rules. sci_input_rules s = Some rules \<and> length (required_outputs rules) = length (bc_required c) \<and>
        map (reveal_amount lib) (partial_fill_outputs rules) = map Ok (bc_partial c) \<and>
        max_tombstone_block rules = bc_tombstone c \<and> min_partial_fill_value rules = bc_min_fill c)"

text \<open>
  The documented behaviour: a new builder offers the amount of its credentials, whatever their
  indexes; each method adds what its name says; and a built SCI has the content of its builder.
\<close>

definition build_lib_ok ::
  "mc_lib \<Rightarrow> ('r, 'c, 'b, 'l) build_lib \<Rightarrow> ('c credentials \<Rightarrow> amount) \<Rightarrow> ('b \<Rightarrow> builder_content) \<Rightarrow> bool" where
  "build_lib_ok lib bl input content \<longleftrightarrow>
     (\<forall>a acct r. input (fst (get_input_credentials bl a acct r)) = a) \<and>
     (\<forall>cred is. input (cred\<lparr>cr_proof_indices := is\<rparr>) = input cred) \<and>
     (\<forall>cred b. builder_new bl cred = Ok b \<longrightarrow> bc_offered (content b) = input cred \<and>
        bc_required (content b) = [] \<and> bc_partial (content b) = []) \<and>
     (\<forall>a acct b r b'. fst (builder_add_required_output bl a acct b r) = Ok b' \<longrightarrow>
        content b' = (content b)\<lparr>bc_required := bc_required (content b) @ [a]\<rparr>) \<and>
     (\<forall>a acct b r b'. fst (builder_add_required_change_output bl a acct b r) = Ok b' \<longrightarrow>
        content b' = (content b)\<lparr>bc_required := bc_required (content b) @ [a]\<rparr>) \<and>
     (\<forall>a acct b r b'. fst (builder_add_partial_fill_output bl a acct b r) = Ok b' \<longrightarrow>
        content b' = (content b)\<lparr>bc_partial := bc_partial (content b) @ [a]\<rparr>) \<and>
     (\<forall>a acct b r b'. fst (builder_add_partial_fill_change_output bl a acct b r) = Ok b' \<longrightarrow>
        content b' = (content b)\<lparr>bc_change := Some a\<rparr>) \<and>
     (\<forall>n b. content (builder_set_tombstone_block bl n b) = (content b)\<lparr>bc_tombstone := n\<rparr>) \<and>
     (\<forall>n b. content (builder_set_min_partial_fill_value bl n b) = (content b)\<lparr>bc_min_fill := n\<rparr>) \<and>
     (\<forall>b r s. fst (builder_build bl b r) = Ok s \<longrightarrow> sci_has lib (content b) s)"

lemma then_do_eq_Ok:
  "then_do x f = (Ok a, st) \<longleftrightarrow> (\<exists>b st'. x = (Ok b, st') \<and> f b st' = (Ok a, st))"
  by (cases x; cases "fst x") auto

lemma expect_eq_Ok [simp]: "expect x = Ok a \<longleftrightarrow> x = Ok a"
  by (cases x) auto

lemma unwrap_rng_eq_Ok: "unwrap_rng f env = (Ok a, env') \<longleftrightarrow> fst (f (fst env)) = Ok a \<and>
    env' = (snd (f (fst env)), snd env)"
  by (cases "f (fst env)") (auto simp: unwrap_rng_def)

lemma build_lib_okD:
  assumes "build_lib_ok lib bl input content"
  shows "input (fst (get_input_credentials bl a acct r)) = a"
    and "input (cred\<lparr>cr_proof_indices := is\<rparr>) = input cred"
    and "builder_new bl cred = Ok b \<Longrightarrow> bc_offered (content b) = input cred \<and>
      bc_required (content b) = [] \<and> bc_partial (content b) = []"
    and "fst (builder_add_required_output bl a acct b r) = Ok b' \<Longrightarrow>
      content b' = (content b)\<lparr>bc_required := bc_required (content b) @ [a]\<rparr>"
    and "fst (builder_add_required_change_output bl a acct b r) = Ok b' \<Longrightarrow>
      content b' = (content b)\<lparr>bc_required := bc_required (content b) @ [a]\<rparr>"
    and "fst (builder_add_partial_fill_output bl a acct b r) = Ok b' \<Longrightarrow>
      content b' = (content b)\<lparr>bc_partial := bc_partial (content b) @ [a]\<rparr>"
    and "fst (builder_add_partial_fill_change_output bl a acct b r) = Ok b' \<Longrightarrow>
      content b' = (content b)\<lparr>bc_change := Some a\<rparr>"
    and "content (builder_set_tombstone_block bl n b) = (content b)\<lparr>bc_tombstone := n\<rparr>"
    and "content (builder_set_min_partial_fill_value bl m b) = (content b)\<lparr>bc_min_fill := m\<rparr>"
    and "fst (builder_build bl b r) = Ok s \<Longrightarrow> sci_has lib (content b) s"
  using assms unfolding build_lib_ok_def by simp_all

lemma offered_input_amount:
  assumes "build_lib_ok lib bl input content" and "offered_input bl a env = (Ok (acct, cred), env')"
  shows "input cred = a"
proof -
  obtain acct0 r0 where acct: "account_random bl (fst env) = (acct0, r0)" by fastforce
  obtain cred0 r1 where cred: "get_input_credentials bl a acct0 r0 = (cred0, r1)" by fastforce
  have "cred = cred0 \<or> (\<exists>is. cred = cred0\<lparr>cr_proof_indices := is\<rparr>)"
    using assms(2) acct cred
    by (cases "snd env") (auto simp: offered_input_def then_do_eq_Ok Let_def case_prod_beta)
  moreover have "input cred0 = a"
    using build_lib_okD(1) [OF assms(1), of a acct0 r0] cred by simp
  ultimately show ?thesis
    using build_lib_okD(2) [OF assms(1)] by auto
qed

section \<open>The quotes of built SCIs\<close>

lemma create_sci_builder_content:
  assumes "build_lib_ok lib bl input content"
    and "create_sci_builder bl base_token counter_token base_amount counter_amount env = (Ok b, env')"
  shows "bc_offered (content b) = \<lparr>amount_value = base_amount, amount_token_id = base_token\<rparr>"
    and "bc_required (content b) = [\<lparr>amount_value = counter_amount, amount_token_id = counter_token\<rparr>]"
    and "bc_partial (content b) = []" and "bc_tombstone (content b) = 2000"
proof -
  let ?a = "\<lparr>amount_value = base_amount, amount_token_id = base_token\<rparr>"
  let ?c = "\<lparr>amount_value = counter_amount, amount_token_id = counter_token\<rparr>"
  obtain acct cred e1 b1 b2 where 1: "offered_input bl ?a env = (Ok (acct, cred), e1)" "builder_new bl cred = Ok b1"
      "fst (builder_add_required_output bl ?c acct b1 (fst e1)) = Ok b2" "b = builder_set_tombstone_block bl 2000 b2"
    using assms(2) unfolding create_sci_builder_def
    by (auto simp: then_do_eq_Ok unwrap_rng_eq_Ok)
  note laws = build_lib_okD [OF assms(1)]
  show "bc_offered (content b) = ?a" "bc_required (content b) = [?c]" "bc_partial (content b) = []"
      "bc_tombstone (content b) = 2000"
    using offered_input_amount [OF assms(1) 1(1)] laws(3) [OF 1(2)] laws(4) [OF 1(3)] laws(8) 1(4) by simp_all
qed

lemma sci_has_full_quote:
  assumes "sci_has lib c s" and "bc_required c = [a]" and "bc_partial c = []" and "sci_validate lib s = Ok ()"
  shows "quote_new lib now s (Some t) = Ok \<lparr>q_sci = s, q_id = quote_id_from_sci lib s,
    q_pair = Pair (amount_token_id (bc_offered c)) (amount_token_id a),
    q_base_range = (amount_value (bc_offered c), amount_value (bc_offered c)),
    q_max_counter_tokens = amount_value a, q_timestamp = t\<rparr>"
  using assms by (auto simp: sci_has_def quote_new_def quote_terms_def Let_def index_at_def)

lemma sci_has_partial_quote:
  assumes "sci_has lib c s" and "bc_partial c = [a]" and "sci_validate lib s = Ok ()"
    and "bc_required c = [] \<and> m = amount_value (bc_offered c) \<or>
      (\<exists>ch. bc_required c = [ch] \<and> amount_token_id ch = amount_token_id (bc_offered c) \<and>
         amount_value ch \<le> amount_value (bc_offered c) \<and>
         m = amount_value (bc_offered c) - amount_value ch)"
  shows "quote_new lib now s (Some t) = Ok \<lparr>q_sci = s, q_id = quote_id_from_sci lib s,
    q_pair = Pair (amount_token_id (bc_offered c)) (amount_token_id a),
    q_base_range = (bc_min_fill c, m), q_max_counter_tokens = amount_value a, q_timestamp = t\<rparr>"
proof -
  obtain rules p where r: "sci_input_rules s = Some rules" "partial_fill_outputs rules = [p]"
      "reveal_amount lib p = Ok a" "length (required_outputs rules) = length (bc_required c)"
      "min_partial_fill_value rules = bc_min_fill c"
    using assms(1,2) by (auto simp: sci_has_def)
  have s: "pseudo_output_amount s = bc_offered c" "required_output_amounts s = bc_required c"
    using assms(1) by (simp_all add: sci_has_def)
  show ?thesis
    using assms(3,4)
    by (auto simp: quote_new_def quote_terms_def Let_def index_at_def r s checked_sub_def)
qed

lemma create_sci_quote:
  assumes bl: "build_lib_ok lib bl input content"
    and run: "create_sci lib bl base_token counter_token base_amount counter_amount env = (Ok s, env')"
  shows "quote_new lib now s (Some t) = Ok \<lparr>q_sci = s, q_id = quote_id_from_sci lib s,
      q_pair = Pair base_token counter_token, q_base_range = (base_amount, base_amount),
      q_max_counter_tokens = counter_amount, q_timestamp = t\<rparr>"
    and "\<exists>rules. sci_input_rules s = Some rules \<and> max_tombstone_block rules = 2000"
    and "pseudo_output_amount s = \<lparr>amount_value = base_amount, amount_token_id = base_token\<rparr>"
proof -
  obtain b e1 where b: "create_sci_builder bl base_token counter_token base_amount counter_amount env =
        (Ok b, e1)"
      "fst (builder_build bl b (fst e1)) = Ok s" and v: "sci_validate lib s = Ok ()"
    using run unfolding create_sci_def by (auto simp: then_do_eq_Ok unwrap_rng_eq_Ok)
  note c = create_sci_builder_content [OF bl b(1)]
  have has: "sci_has lib (content b) s" by (rule build_lib_okD(10) [OF bl b(2)])
  show "quote_new lib now s (Some t) = Ok \<lparr>q_sci = s, q_id = quote_id_from_sci lib s,
      q_pair = Pair base_token counter_token, q_base_range = (base_amount, base_amount),
      q_max_counter_tokens = counter_amount, q_timestamp = t\<rparr>"
    using sci_has_full_quote [OF has c(2,3) v] c(1) by simp
  show "\<exists>rules. sci_input_rules s = Some rules \<and> max_tombstone_block rules = 2000"
    using has c(4) by (auto simp: sci_has_def)
  show "pseudo_output_amount s = \<lparr>amount_value = base_amount, amount_token_id = base_token\<rparr>"
    using has c(1) by (simp add: sci_has_def)
qed

lemma create_partial_sci_quote:
  assumes bl: "build_lib_ok lib bl input content" and change: "change \<le> offered"
    and run: "create_partial_sci lib bl base_token counter_token offered least change counter_amount env = (Ok s, env')"
  shows "quote_new lib now s (Some t) = Ok \<lparr>q_sci = s, q_id = quote_id_from_sci lib s,
      q_pair = Pair base_token counter_token, q_base_range = (least, offered - change),
      q_max_counter_tokens = counter_amount, q_timestamp = t\<rparr>"
    and "pseudo_output_amount s = \<lparr>amount_value = offered, amount_token_id = base_token\<rparr>"
proof -
  let ?a = "\<lambda>v. \<lparr>amount_value = v, amount_token_id = base_token\<rparr>"
  let ?c = "\<lparr>amount_value = counter_amount, amount_token_id = counter_token\<rparr>"
  obtain acct cred e1 b1 b2 r1 b3 r2 b4 r3 where 1: "offered_input bl (?a offered) env = (Ok (acct, cred), e1)"
      "builder_new bl cred = Ok b1"
      "fst (builder_add_partial_fill_change_output bl (?a offered) acct b1 (fst e1)) = Ok b2"
      "if 0 < change then fst (builder_add_required_change_output bl (?a change) acct b2 r1) = Ok b3 else b3 = b2"
      "fst (builder_add_partial_fill_output bl ?c acct b3 r2) = Ok b4"
      "fst (builder_build bl (builder_set_min_partial_fill_value bl least b4) r3) = Ok s"
      "sci_validate lib s = Ok ()"
    using run unfolding create_partial_sci_def Let_def
    by (cases "0 < change") (auto simp: then_do_eq_Ok unwrap_rng_eq_Ok)
  note laws = build_lib_okD [OF bl]
  let ?b = "builder_set_min_partial_fill_value bl least b4"
  have has: "sci_has lib (content ?b) s" by (rule laws(10) [OF 1(6)])
  have c3: "bc_offered (content b3) = ?a offered" "bc_partial (content b3) = []"
      "bc_required (content b3) = (if 0 < change then [?a change] else [])"
    using offered_input_amount [OF bl 1(1)] laws(3) [OF 1(2)] laws(7) [OF 1(3)] 1(4) laws(5)
    by (auto split: if_splits)
  have c: "bc_offered (content ?b) = ?a offered" "bc_partial (content ?b) = [?c]"
      "bc_required (content ?b) = (if 0 < change then [?a change] else [])" "bc_min_fill (content ?b) = least"
    using c3 laws(6) [OF 1(5)] laws(9) [of least b4] by simp_all
  have "bc_required (content ?b) = [] \<and> offered - change = amount_value (bc_offered (content ?b)) \<or>
      (\<exists>ch. bc_required (content ?b) = [ch] \<and> amount_token_id ch = amount_token_id (bc_offered (content ?b)) \<and>
         amount_value ch \<le> amount_value (bc_offered (content ?b)) \<and>
         offered - change = amount_value (bc_offered (content ?b)) - amount_value ch)"
    using c change by (simp add: word_gt_0)
  from sci_has_partial_quote [OF has c(2) 1(7) this]
  show "quote_new lib now s (Some t) = Ok \<lparr>q_sci = s, q_id = quote_id_from_sci lib s,
      q_pair = Pair base_token counter_token, q_base_range = (least, offered - change),
      q_max_counter_tokens = counter_amount, q_timestamp = t\<rparr>"
    using c(1,4) by simp
  show "pseudo_output_amount s = ?a offered"
    using has c(1) by (simp add: sci_has_def)
qed

section \<open>The quotes as functions of the SCIs\<close>

definition made_quote :: "mc_lib \<Rightarrow> sci \<Rightarrow> pair \<Rightarrow> u64 \<Rightarrow> u64 \<Rightarrow> u64 \<Rightarrow> u64 \<Rightarrow> quote" where
  "made_quote lib s p lo hi y t = \<lparr>q_sci = s, q_id = sci_digest32 lib s, q_pair = p, q_base_range = (lo, hi),
     q_max_counter_tokens = y, q_timestamp = t\<rparr>"

definition offers :: "mc_lib \<Rightarrow> sci \<Rightarrow> pair \<Rightarrow> u64 \<Rightarrow> u64 \<Rightarrow> u64 \<Rightarrow> bool" where
  "offers lib s p lo hi y \<longleftrightarrow> (\<forall>now t. quote_new lib now s (Some t) = Ok (made_quote lib s p lo hi y t))"

definition tombstone_of :: "sci \<Rightarrow> u64 \<Rightarrow> bool" where
  "tombstone_of s n \<longleftrightarrow> (\<exists>rules. sci_input_rules s = Some rules \<and> max_tombstone_block rules = n)"

lemma made_quote_simps [simp]:
  "q_sci (made_quote lib s p lo hi y t) = s" "q_id (made_quote lib s p lo hi y t) = sci_digest32 lib s"
  "q_pair (made_quote lib s p lo hi y t) = p" "q_base_range (made_quote lib s p lo hi y t) = (lo, hi)"
  "q_max_counter_tokens (made_quote lib s p lo hi y t) = y" "q_timestamp (made_quote lib s p lo hi y t) = t"
  "max_base_tokens (made_quote lib s p lo hi y t) = hi"
  "rated (made_quote lib s p lo hi y t) \<longleftrightarrow> hi \<noteq> 0 \<or> y \<noteq> 0"
  by (simp_all add: made_quote_def max_base_tokens_def rated_def)

lemma made_quote_tombstone [simp]: "tombstone_of s n \<Longrightarrow> quote_tombstone (made_quote lib s p lo hi y t) = n"
  by (auto simp: tombstone_of_def quote_tombstone_def)

lemma made_quote_eq [simp]:
  "made_quote lib s p lo hi y t = made_quote lib s' p' lo' hi' y' t' \<longleftrightarrow>
     s = s' \<and> p = p' \<and> lo = lo' \<and> hi = hi' \<and> y = y' \<and> t = t'"
  by (auto simp: made_quote_def)

lemma create_sci_offers:
  assumes "build_lib_ok lib bl input content"
    and "create_sci lib bl base_token counter_token x y env = (Ok s, env')"
  shows "offers lib s (Pair base_token counter_token) x x y" and "tombstone_of s 2000"
    and "pseudo_output_amount s = \<lparr>amount_value = x, amount_token_id = base_token\<rparr>"
  using create_sci_quote [OF assms]
  by (simp_all add: offers_def made_quote_def quote_id_from_sci_def tombstone_of_def)

lemma create_partial_sci_offers:
  assumes "build_lib_ok lib bl input content"
    and "create_partial_sci lib bl base_token counter_token x least 0 y env = (Ok s, env')"
  shows "offers lib s (Pair base_token counter_token) least x y"
    and "pseudo_output_amount s = \<lparr>amount_value = x, amount_token_id = base_token\<rparr>"
  using create_partial_sci_quote [OF assms(1) _ assms(2)]
  by (simp_all add: offers_def made_quote_def quote_id_from_sci_def)

section \<open>Fresh keys\<close>

text \<open>
  For as many SCIs as the budget of the random numbers allows, building succeeds, the SCI is valid,
  and no SCI built before has its key image or its digest. An SCI with a partial fill output needs the
  change output.
\<close>

definition keeps_keys :: "('r \<Rightarrow> sci set) \<Rightarrow> ('r \<Rightarrow> nat) \<Rightarrow> 'r \<Rightarrow> 'r \<Rightarrow> bool" where
  "keeps_keys built budget r r' \<longleftrightarrow> built r \<subseteq> built r' \<and> budget r \<le> budget r'"

definition fresh_key :: "mc_lib \<Rightarrow> sci set \<Rightarrow> sci \<Rightarrow> bool" where
  "fresh_key lib S s \<longleftrightarrow>
     (\<forall>x\<in>S. sci_key_image x \<noteq> sci_key_image s \<and> sci_digest32 lib x \<noteq> sci_digest32 lib s)"

definition build_fresh ::
  "mc_lib \<Rightarrow> ('r, 'c, 'b, 'l) build_lib \<Rightarrow> ('b \<Rightarrow> builder_content) \<Rightarrow> ('r \<Rightarrow> sci set) \<Rightarrow> ('r \<Rightarrow> nat) \<Rightarrow> bool" where
  "build_fresh lib bl content built budget \<longleftrightarrow>
     (\<forall>r. keeps_keys built budget r (snd (account_random bl r))) \<and>
     (\<forall>a acct r. keeps_keys built budget r (snd (get_input_credentials bl a acct r)) \<and>
        is_ok (builder_new bl (fst (get_input_credentials bl a acct r)))) \<and>
     (\<forall>a acct b r. keeps_keys built budget r (snd (builder_add_required_output bl a acct b r)) \<and>
        is_ok (fst (builder_add_required_output bl a acct b r))) \<and>
     (\<forall>a acct b r. keeps_keys built budget r (snd (builder_add_partial_fill_output bl a acct b r)) \<and>
        is_ok (fst (builder_add_partial_fill_output bl a acct b r))) \<and>
     (\<forall>a acct b r. keeps_keys built budget r (snd (builder_add_partial_fill_change_output bl a acct b r)) \<and>
        is_ok (fst (builder_add_partial_fill_change_output bl a acct b r))) \<and>
     (\<forall>b r. 0 < budget r \<longrightarrow> bc_partial (content b) = [] \<or> bc_change (content b) \<noteq> None \<longrightarrow>
        (\<exists>s r'. builder_build bl b r = (Ok s, r') \<and> sci_validate lib s = Ok () \<and> fresh_key lib (built r) s \<and>
           insert s (built r) \<subseteq> built r' \<and> budget r \<le> Suc (budget r')))"

lemma build_freshD:
  assumes "build_fresh lib bl content built budget"
  shows "keeps_keys built budget r (snd (account_random bl r))"
    and "keeps_keys built budget r (snd (get_input_credentials bl a acct r))"
    and "\<exists>b. builder_new bl (fst (get_input_credentials bl a acct r)) = Ok b"
    and "\<exists>b' r'. builder_add_required_output bl a acct b r = (Ok b', r') \<and> keeps_keys built budget r r'"
    and "\<exists>b' r'. builder_add_partial_fill_output bl a acct b r = (Ok b', r') \<and> keeps_keys built budget r r'"
    and "\<exists>b' r'. builder_add_partial_fill_change_output bl a acct b r = (Ok b', r') \<and> keeps_keys built budget r r'"
    and "0 < budget r \<Longrightarrow> bc_partial (content b) = [] \<or> bc_change (content b) \<noteq> None \<Longrightarrow>
      \<exists>s r'. builder_build bl b r = (Ok s, r') \<and> sci_validate lib s = Ok () \<and> fresh_key lib (built r) s \<and>
        insert s (built r) \<subseteq> built r' \<and> budget r \<le> Suc (budget r')"
proof -
  have pair: "\<exists>b' r'. x = (Ok b', r') \<and> keeps_keys built budget r r'"
    if "keeps_keys built budget r (snd x)" "is_ok (fst x)" for x :: "('z, string) result \<times> _"
    using that by (cases x) (auto simp: is_ok_iff)
  note a = assms [unfolded build_fresh_def]
  show "keeps_keys built budget r (snd (account_random bl r))"
    "keeps_keys built budget r (snd (get_input_credentials bl a acct r))"
    "\<exists>b. builder_new bl (fst (get_input_credentials bl a acct r)) = Ok b"
    using a by (simp_all add: is_ok_iff)
  show "\<exists>b' r'. builder_add_required_output bl a acct b r = (Ok b', r') \<and> keeps_keys built budget r r'"
    "\<exists>b' r'. builder_add_partial_fill_output bl a acct b r = (Ok b', r') \<and> keeps_keys built budget r r'"
    "\<exists>b' r'. builder_add_partial_fill_change_output bl a acct b r = (Ok b', r') \<and> keeps_keys built budget r r'"
    by (rule pair; use a in simp)+
  show "\<exists>s r'. builder_build bl b r = (Ok s, r') \<and> sci_validate lib s = Ok () \<and> fresh_key lib (built r) s \<and>
      insert s (built r) \<subseteq> built r' \<and> budget r \<le> Suc (budget r')"
    if "0 < budget r" "bc_partial (content b) = [] \<or> bc_change (content b) \<noteq> None"
    using a that by blast
qed

lemma keeps_keys_trans:
  "keeps_keys built budget r r' \<Longrightarrow> keeps_keys built budget r' r'' \<Longrightarrow> keeps_keys built budget r r''"
  by (auto simp: keeps_keys_def)

definition built_fresh ::
  "mc_lib \<Rightarrow> ('r \<Rightarrow> sci set) \<Rightarrow> ('r \<Rightarrow> nat) \<Rightarrow> 'r \<Rightarrow> sci \<Rightarrow> 'r \<Rightarrow> bool" where
  "built_fresh lib built budget r s r' \<longleftrightarrow>
     fresh_key lib (built r) s \<and> insert s (built r) \<subseteq> built r' \<and> budget r \<le> Suc (budget r')"

lemma built_fresh_later:
  "keeps_keys built budget r r1 \<Longrightarrow> built_fresh lib built budget r1 s r' \<Longrightarrow> built_fresh lib built budget r s r'"
  by (auto simp: built_fresh_def keeps_keys_def fresh_key_def)

text \<open>
  The ledger, when there is one: the outputs of a ring can be appended, and the credentials are as good
  with the indexes of the ledger.
\<close>

definition ledger_ready ::
  "('r, 'c, 'b, 'l) build_lib \<Rightarrow> ('r \<Rightarrow> sci set) \<Rightarrow> ('r \<Rightarrow> nat) \<Rightarrow> 'l option \<Rightarrow> bool" where
  "ledger_ready bl built budget l \<longleftrightarrow> l = None \<or>
     (\<forall>txs r l. is_ok (ledger_num_txos bl l) \<and> is_ok (fst (add_txos_to_ledger bl txs r l)) \<and>
        keeps_keys built budget r (fst (snd (add_txos_to_ledger bl txs r l)))) \<and>
     (\<forall>cred is. is_ok (builder_new bl cred) \<longrightarrow> is_ok (builder_new bl (cred\<lparr>cr_proof_indices := is\<rparr>)))"

lemma ledger_ready_None [simp]: "ledger_ready bl built budget None"
  by (simp add: ledger_ready_def)

lemma ledger_ready_Some:
  assumes "ledger_ready bl built budget (Some l)"
  shows "\<exists>n. ledger_num_txos bl l' = Ok n"
    and "\<exists>r' l''. add_txos_to_ledger bl txs r l' = (Ok (), r', l'') \<and> keeps_keys built budget r r'"
    and "builder_new bl cred = Ok b \<Longrightarrow> \<exists>b. builder_new bl (cred\<lparr>cr_proof_indices := is\<rparr>) = Ok b"
    and "ledger_ready bl built budget (Some l')"
proof -
  note a = assms [unfolded ledger_ready_def, simplified]
  show "\<exists>n. ledger_num_txos bl l' = Ok n" using a by (simp add: is_ok_iff)
  have "is_ok (fst (add_txos_to_ledger bl txs r l'))"
      "keeps_keys built budget r (fst (snd (add_txos_to_ledger bl txs r l')))" using a by blast+
  then show "\<exists>r' l''. add_txos_to_ledger bl txs r l' = (Ok (), r', l'') \<and> keeps_keys built budget r r'"
    by (cases "add_txos_to_ledger bl txs r l'") (auto simp: is_ok_iff)
  show "\<exists>b. builder_new bl (cred\<lparr>cr_proof_indices := is\<rparr>) = Ok b" if "builder_new bl cred = Ok b"
    using a that by (metis is_ok_iff)
  show "ledger_ready bl built budget (Some l')" using a by (simp add: ledger_ready_def)
qed

lemma offered_input_total:
  assumes fresh: "build_fresh lib bl content built budget" and l: "ledger_ready bl built budget l"
  shows "\<exists>acct cred r' l' b. offered_input bl a (r, l) = (Ok (acct, cred), r', l') \<and>
    builder_new bl cred = Ok b \<and> keeps_keys built budget r r' \<and> ledger_ready bl built budget l' \<and> (l' = None \<longleftrightarrow> l = None)"
proof -
  obtain acct r1 where acct: "account_random bl r = (acct, r1)" by fastforce
  obtain cred r2 where cred: "get_input_credentials bl a acct r1 = (cred, r2)" by fastforce
  obtain b where keys: "keeps_keys built budget r r1" "keeps_keys built budget r1 r2" and b: "builder_new bl cred = Ok b"
    using build_freshD(1) [OF fresh, of r] build_freshD(2) [OF fresh, of r1 a acct] acct cred
      build_freshD(3) [OF fresh, of a acct r1]
    by auto
  note keys2 = keeps_keys_trans [OF keys]
  show ?thesis
  proof (cases l)
    case None
    with acct cred b keys2 show ?thesis by (simp add: offered_input_def)
  next
    case (Some l0)
    note ready = ledger_ready_Some [OF l [unfolded Some]]
    obtain n where n: "ledger_num_txos bl l0 = Ok n" using ready(1) by blast
    let ?cred = "cred\<lparr>cr_proof_indices := map (\<lambda>index. n + of_nat index) [0..<length (cr_proof_indices cred)]\<rparr>"
    obtain r3 l3 where w: "add_txos_to_ledger bl (cr_ring ?cred) r2 l0 = (Ok (), r3, l3)" "keeps_keys built budget r2 r3"
      using ready(2) by blast
    have "offered_input bl a (r, l) = (Ok (acct, ?cred), r3, Some l3)"
      using acct cred n w(1) Some by (simp add: offered_input_def)
    with ready(3) [OF b] ready(4) [of l3] keeps_keys_trans [OF keys2 w(2)] Some show ?thesis by blast
  qed
qed

lemma create_sci_builder_total:
  assumes fresh: "build_fresh lib bl content built budget" and l: "ledger_ready bl built budget l"
  shows "\<exists>b r' l'. create_sci_builder bl bt ct x y (r, l) = (Ok b, r', l') \<and> keeps_keys built budget r r' \<and>
    ledger_ready bl built budget l' \<and> (l' = None \<longleftrightarrow> l = None)"
proof -
  obtain acct cred r1 l' b1 where 1: "offered_input bl \<lparr>amount_value = x, amount_token_id = bt\<rparr> (r, l) =
      (Ok (acct, cred), r1, l')" "builder_new bl cred = Ok b1" "keeps_keys built budget r r1"
      "ledger_ready bl built budget l'" "l' = None \<longleftrightarrow> l = None"
    using offered_input_total [OF assms] by blast
  obtain b2 r2 where "builder_add_required_output bl \<lparr>amount_value = y, amount_token_id = ct\<rparr> acct b1 r1 = (Ok b2, r2)"
      "keeps_keys built budget r1 r2"
    using build_freshD(4) [OF fresh] by blast
  with 1 show ?thesis
    using keeps_keys_trans [OF 1(3)] by (simp add: create_sci_builder_def unwrap_rng_def)
qed

lemma builder_build_total:
  assumes "build_fresh lib bl content built budget" and "0 < budget r"
    and "bc_partial (content b) = [] \<or> bc_change (content b) \<noteq> None"
  shows "\<exists>s r'. unwrap_rng (builder_build bl b) (r, l) = (Ok s, r', l) \<and> sci_validate lib s = Ok () \<and>
    built_fresh lib built budget r s r'"
  using build_freshD(7) [OF assms] by (fastforce simp: unwrap_rng_def built_fresh_def)

lemma create_sci_total:
  assumes fresh: "build_fresh lib bl content built budget" and ok: "build_lib_ok lib bl input content"
    and r: "0 < budget r" and l: "ledger_ready bl built budget l"
  shows "\<exists>s r' l'. create_sci lib bl bt ct x y (r, l) = (Ok s, r', l') \<and> built_fresh lib built budget r s r' \<and>
    ledger_ready bl built budget l' \<and> (l' = None \<longleftrightarrow> l = None)"
proof -
  obtain b r1 l' where b: "create_sci_builder bl bt ct x y (r, l) = (Ok b, r1, l')" "keeps_keys built budget r r1"
      "ledger_ready bl built budget l'" "l' = None \<longleftrightarrow> l = None"
    using create_sci_builder_total [OF fresh l] by blast
  have "0 < budget r1" "bc_partial (content b) = []"
    using r b(2) create_sci_builder_content(3) [OF ok b(1)] by (auto simp: keeps_keys_def)
  then obtain s r' where "unwrap_rng (builder_build bl b) (r1, l') = (Ok s, r', l')"
      "sci_validate lib s = Ok ()" "built_fresh lib built budget r1 s r'"
    using builder_build_total [OF fresh, of r1 b l'] by auto
  with b built_fresh_later [OF b(2)] show ?thesis
    by (simp add: create_sci_def)
qed

lemma create_partial_sci_total:
  assumes fresh: "build_fresh lib bl content built budget" and ok: "build_lib_ok lib bl input content"
    and r: "0 < budget r" and l: "ledger_ready bl built budget l"
  shows "\<exists>s r' l'. create_partial_sci lib bl bt ct x least 0 y (r, l) = (Ok s, r', l') \<and>
    built_fresh lib built budget r s r' \<and> ledger_ready bl built budget l' \<and> (l' = None \<longleftrightarrow> l = None)"
proof -
  let ?a = "\<lparr>amount_value = x, amount_token_id = bt\<rparr>" and ?c = "\<lparr>amount_value = y, amount_token_id = ct\<rparr>"
  obtain acct cred r1 l' b1 where 1: "offered_input bl ?a (r, l) = (Ok (acct, cred), r1, l')"
      "builder_new bl cred = Ok b1" "keeps_keys built budget r r1"
      "ledger_ready bl built budget l'" "l' = None \<longleftrightarrow> l = None"
    using offered_input_total [OF fresh l] by blast
  obtain b2 r2 where 2: "builder_add_partial_fill_change_output bl ?a acct b1 r1 = (Ok b2, r2)"
      "keeps_keys built budget r1 r2"
    using build_freshD(6) [OF fresh] by blast
  obtain b3 r3 where 3: "builder_add_partial_fill_output bl ?c acct b2 r2 = (Ok b3, r3)"
      "keeps_keys built budget r2 r3"
    using build_freshD(5) [OF fresh] by blast
  have keys: "keeps_keys built budget r r3"
    by (rule keeps_keys_trans [OF 1(3) keeps_keys_trans [OF 2(2) 3(2)]])
  let ?b = "builder_set_min_partial_fill_value bl least b3"
  have "bc_change (content ?b) = Some ?a"
    using build_lib_okD(9) [OF ok, of least b3] build_lib_okD(6) [OF ok, of ?c acct b2 r2 b3] 3(1)
      build_lib_okD(7) [OF ok, of ?a acct b1 r1 b2] 2(1) by simp
  moreover have "0 < budget r3" using r keys by (simp add: keeps_keys_def)
  ultimately obtain s r' where "unwrap_rng (builder_build bl ?b) (r3, l') = (Ok s, r', l')"
      "sci_validate lib s = Ok ()" "built_fresh lib built budget r3 s r'"
    using builder_build_total [OF fresh, of r3 ?b l'] by auto
  with 1 2 3 built_fresh_later [OF keys] show ?thesis
    by (simp add: create_partial_sci_def unwrap_rng_def)
qed

section \<open>A sample builder\<close>

text \<open>
  The random numbers count up and number the keys; a builder is its content. Amounts are revealed from
  their encoding, and the digest has the key image and the indexes of the ring.
\<close>

definition sample_test_lib :: mc_lib where
  "sample_test_lib = sample_lib
     \<lparr>sci_validate := (\<lambda>s. if sci_rest s = [] then sci_validate sample_lib s
        else Err ''RingSignature(LengthMismatch(22, 21))''),
      reveal_amount := (\<lambda>r. case dec_amount (revealed_rest r) of
        Some (a, _) \<Rightarrow> Ok a | None \<Rightarrow> Err ''InvalidAmountShare''),
      sci_digest32 := (\<lambda>s. take 32 (sci_key_image s @ map ucast (tx_out_global_indices s) @ replicate 32 0))\<rparr>"

definition sample_sci :: "nat \<Rightarrow> builder_content \<Rightarrow> sci" where
  "sample_sci k c =
     \<lparr>ring = [sample_tx_out (of_nat k)],
      sci_input_rules = Some \<lparr>required_outputs = map (\<lambda>_. sample_tx_out 0) (bc_required c),
        max_tombstone_block = bc_tombstone c,
        partial_fill_outputs = map (\<lambda>a. \<lparr>revealed_output = sample_tx_out 1, revealed_rest = enc_amount a\<rparr>) (bc_partial c),
        partial_fill_change = None, min_partial_fill_value = bc_min_fill c\<rparr>,
      tx_out_global_indices = [of_nat k], pseudo_output_amount = bc_offered c,
      required_output_amounts = bc_required c, sci_key_image = [of_nat k], sci_rest = []\<rparr>"

definition sample_build_lib :: "(nat, amount, builder_content, unit) build_lib" where
  "sample_build_lib =
     \<lparr>account_random = (\<lambda>r. ([], r)),
      get_input_credentials = (\<lambda>a acct r.
        (\<lparr>cr_ring = [sample_tx_out (of_nat r)], cr_proof_indices = [0], cr_secrets = a\<rparr>, r)),
      ledger_num_txos = (\<lambda>_. Ok 0), add_txos_to_ledger = (\<lambda>txs r l. (Ok (), r, l)),
      builder_new = (\<lambda>cred. Ok \<lparr>bc_offered = cr_secrets cred, bc_required = [], bc_partial = [],
        bc_change = None, bc_tombstone = 0, bc_min_fill = 0\<rparr>),
      builder_add_required_output = (\<lambda>a acct c r. (Ok (c\<lparr>bc_required := bc_required c @ [a]\<rparr>), r)),
      builder_add_required_change_output = (\<lambda>a acct c r. (Ok (c\<lparr>bc_required := bc_required c @ [a]\<rparr>), r)),
      builder_add_partial_fill_output = (\<lambda>a acct c r. (Ok (c\<lparr>bc_partial := bc_partial c @ [a]\<rparr>), r)),
      builder_add_partial_fill_change_output = (\<lambda>a acct c r. (Ok (c\<lparr>bc_change := Some a\<rparr>), r)),
      builder_set_tombstone_block = (\<lambda>n c. c\<lparr>bc_tombstone := n\<rparr>),
      builder_set_min_partial_fill_value = (\<lambda>n c. c\<lparr>bc_min_fill := n\<rparr>),
      builder_build = (\<lambda>c r. (Ok (sample_sci r c), Suc r))\<rparr>"

definition sample_built :: "nat \<Rightarrow> sci set" where
  "sample_built r = {s. \<exists>k c. k < r \<and> s = sample_sci k c}"

lemma sample_test_lib_ok: "mc_lib_ok sample_test_lib"
  by (auto simp: mc_lib_ok_def sample_test_lib_def sample_lib_def split: option.splits list.splits if_splits)

lemma sample_build_lib_ok: "build_lib_ok sample_test_lib sample_build_lib cr_secrets (\<lambda>c. c)"
proof -
  have "dec_amount (enc_amount a) = Some (a, [])" for a
    using self_delimiting_amount unfolding self_delimiting_def by (metis append_Nil2)
  then show ?thesis
    by (simp add: build_lib_ok_def sample_build_lib_def sci_has_def sample_sci_def sample_test_lib_def comp_def)
qed

lemma sample_build_fresh:
  "build_fresh sample_test_lib sample_build_lib (\<lambda>c. c) sample_built (\<lambda>r. 200 - r)"
proof -
  have "fresh_key sample_test_lib (sample_built r) (sample_sci r c)" if "r < 200" for r c
  proof -
    have "(of_nat k :: u8) \<noteq> of_nat r" if "k < r" for k
    proof
      assume "(of_nat k :: u8) = of_nat r"
      then have "unat (of_nat k :: u8) = unat (of_nat r :: u8)" by simp
      with that \<open>r < 200\<close> show False by (simp add: unat_of_nat)
    qed
    then show ?thesis
      by (auto simp: fresh_key_def sample_built_def sample_sci_def sample_test_lib_def numeral_eq_Suc)
  qed
  then show ?thesis
    by (auto simp: build_fresh_def sample_build_lib_def keeps_keys_def sample_test_lib_def sample_lib_def
        sample_sci_def sample_built_def less_Suc_eq)
qed

end
