(* ===== verification/Sqlite_Reliable.thy ===== *)
theory Sqlite_Reliable
  imports Sqlite_Instance
begin

text \<open>
  The persistent book is reliable when its inner book is and the engine works: the only error of an
  insertion is a duplicate identifier, deletions and lookups succeed, and a transaction returns what its
  closure returns. Every error of a method is then one of the contract: a duplicate, or a quote that is
  not there.
\<close>

definition runs_closure ::
  "('d \<Rightarrow> sql_row set) \<Rightarrow> (('d \<times> 'b \<Rightarrow> ('a, sqlite_error) result \<times> 'd \<times> 'b) \<Rightarrow> 'd \<times> 'b \<Rightarrow>
     ('a, sqlite_error) result \<times> 'd \<times> 'b) \<Rightarrow> bool" where
  "runs_closure rows tx \<longleftrightarrow> (\<forall>f d b. \<exists>d1. rows d1 = rows d \<and> fst (tx f (d, b)) = fst (f (d1, b)))"

locale working_sqlite_on = reliable_sqlite_on lib ops abs inv eng rows codec
  for lib and ops :: "'b quote_book_ops" and abs inv and eng :: "('d, 'b) sql_engine" and rows codec +
  assumes insert_up: "sql_insert eng row d = (Err e, d') \<Longrightarrow> \<exists>m. e = UniqueViolation m"
    and delete_up: "is_ok (fst (sql_delete eng P d))" and first_up: "is_ok (sql_first eng P d)"
    and tx_up: "runs_closure rows (tx_unit eng)" "runs_closure rows (tx_quote eng)"
      "runs_closure rows (tx_quotes eng)"
begin

text \<open>The result of a method is the result of its closure on a table with the same rows.\<close>

lemma method_result:
  assumes tx: "runs_closure rows tx"
  shows "\<exists>d1. rows d1 = rows d \<and>
    fst (map_err_st (book_error eng) (then_do (get_conn eng (d, b)) (\<lambda>_ st. tx f st))) =
      map_err (book_error eng) (fst (f (d1, b)))"
proof -
  obtain dc where c: "pool_get eng d = (Ok (), dc)"
    using engine_up(1) [of d] by (cases "pool_get eng d") (auto simp: is_ok_iff)
  obtain d1 where "rows d1 = rows dc" "fst (tx f (dc, b)) = fst (f (d1, b))"
    using tx unfolding runs_closure_def by blast
  with c pool_law [OF c] show ?thesis
    by (intro exI [of _ d1], cases "tx f (dc, b)") (simp add: get_conn_def on_db_def)
qed

lemma deletes: "\<exists>n d'. sql_delete eng P d = (Ok n, d')"
  using delete_up [of P d] by (cases "sql_delete eng P d") (auto simp: is_ok_iff)

lemma insert_duplicate:
  assumes b: "inv b" and rows: "rows d = row_of_quote codec ` abs b"
    and err: "fst (insert_row lib codec eng q (d, b)) = Err e"
  shows "\<exists>x. e = QuoteBook (QuoteAlreadyExists x)"
proof -
  obtain r1 d1 where i: "sql_insert eng (row_of_quote codec q) d = (r1, d1)" by fastforce
  have "\<exists>e'. r1 = Err e'"
    using err i insert_law [OF i] by (cases r1) (simp_all add: insert_row_def)
  with i obtain m where r1: "r1 = Err (UniqueViolation m)"
    using insert_up by blast
  then have d1: "rows d1 = row_of_quote codec ` abs b" and dup: "q_id q \<in> q_id ` abs b"
    using insert_law [OF i] rows by (auto simp: image_iff)
  obtain row where row: "sql_first eng (\<lambda>r. row_id r = q_id q) d1 = Ok row"
    using first_up [of "\<lambda>r. row_id r = q_id q" d1] by (auto simp: is_ok_iff)
  with first_law [of d1 "\<lambda>r. row_id r = q_id q"] d1 dup
  obtain x where x: "row = Some (row_of_quote codec x)" "x \<in> abs b"
    by (cases row) auto
  have "quote_from_model codec (model_from_quote codec x) = Ok x"
    using x(2) inv_book [OF b] quote_from_model_from_quote [OF codec_law, of x] by (auto simp: book_inv_def)
  with err i r1 row x show ?thesis
    by (auto simp: insert_row_def insert_error_def get_by_id_def row_of_quote_def)
qed

lemma sqlite_add_reliable:
  assumes st: "sqlite_inv codec rows abs inv (d, b)" and q: "admissible q (abs b)"
    and run: "fst (sqlite_add_quote lib codec eng ops q (d, b)) = Err e"
  shows "\<exists>x. e = QuoteAlreadyExists x"
proof -
  have b: "inv b" "rows d = row_of_quote codec ` abs b"
    using st by (simp_all add: sqlite_inv_def)
  let ?f = "\<lambda>st. then_do (insert_row lib codec eng q st) (\<lambda>_ st. on_book (add_quote ops q) st)"
  obtain d1 where d1: "rows d1 = rows d"
      "fst (sqlite_add_quote lib codec eng ops q (d, b)) = map_err (book_error eng) (fst (?f (d1, b)))"
    using method_result [OF tx_up(1)] unfolding sqlite_add_quote_def by blast
  obtain ri di bi where i: "insert_row lib codec eng q (d1, b) = (ri, di, bi)" by (metis prod_cases3)
  note il = insert_row_law [OF b(1) d1(1) [unfolded b(2)] q i]
  obtain ra ba where a: "add_quote ops q b = (ra, ba)" by fastforce
  show ?thesis
    using run d1(2) i il a add_reliable [OF b(1) q] insert_duplicate [OF b(1) d1(1) [unfolded b(2)], of q]
    by (cases ri; cases ra) (fastforce simp: on_book_def)+
qed

lemma sqlite_remove_id_reliable:
  assumes st: "sqlite_inv codec rows abs inv (d, b)"
    and run: "fst (sqlite_remove_quote_by_id eng ops i (d, b)) = Err e"
  shows "e = QuoteNotFound"
proof -
  have b: "inv b" "rows d = row_of_quote codec ` abs b"
    using st by (simp_all add: sqlite_inv_def)
  let ?f = "\<lambda>st. then_do (on_db (sql_delete eng (\<lambda>r. row_id r = i)) Diesel st) (\<lambda>num_deleted st.
      then_do (num_deleted_check num_deleted st) (\<lambda>_ st. on_book (remove_quote_by_id ops i) st))"
  obtain d1 where d1: "rows d1 = rows d"
      "fst (sqlite_remove_quote_by_id eng ops i (d, b)) = map_err (book_error eng) (fst (?f (d1, b)))"
    using method_result [OF tx_up(2)] unfolding sqlite_remove_quote_by_id_def by blast
  obtain n dd where del: "sql_delete eng (\<lambda>r. row_id r = i) d1 = (Ok n, dd)" using deletes by blast
  have "n = card {x \<in> abs b. q_id x = i}"
    using delete_rows(1) [OF b(1) d1(1) [unfolded b(2)] del] by simp
  also have "\<dots> \<le> 1"
    using inv_book [OF b(1)] by (auto simp: book_inv_def inj_on_def card_le_Suc0_iff_eq)
  finally have n: "n = 0 \<or> n = 1" by auto
  obtain ra ba where a: "remove_quote_by_id ops i b = (ra, ba)" by fastforce
  show ?thesis
    using run d1(2) del n a remove_id_reliable [OF b(1), of i]
    by (cases ra) (auto simp: on_db_def on_book_def num_deleted_check_def)
qed

lemma remove_both_reliable:
  assumes "\<not> is_err (fst (remove b))"
  shows "\<not> is_err (fst (map_err_st (book_error eng)
    (then_do (get_conn eng (d, b)) (\<lambda>_ st. tx_quotes eng (remove_both eng P remove) st))))"
proof -
  obtain d1 where d1: "fst (map_err_st (book_error eng)
      (then_do (get_conn eng (d, b)) (\<lambda>_ st. tx_quotes eng (remove_both eng P remove) st))) =
        map_err (book_error eng) (fst (remove_both eng P remove (d1, b)))"
    using method_result [OF tx_up(3)] by blast
  obtain n dd where "sql_delete eng P d1 = (Ok n, dd)" using deletes by blast
  moreover obtain ra ba where "remove b = (ra, ba)" by fastforce
  ultimately show ?thesis
    using assms d1 by (cases ra) (auto simp: remove_both_def on_db_def on_book_def)
qed

end

sublocale working_sqlite_on \<subseteq> sqr: reliable_quote_book lib "sqlite_ops lib codec eng ops"
  "\<lambda>st. abs (snd st)" "sqlite_inv codec rows abs inv"
proof (unfold_locales, unfold sqlite_ops_simps, goal_cases)
  case (1 s q e s')
  then show ?case using sqlite_add_reliable [of "fst s" "snd s" q e] by simp
next
  case (2 s i e s')
  then show ?case using sqlite_remove_id_reliable [of "fst s" "snd s" i e] by simp
next
  case (3 s k)
  then show ?case
    using remove_both_reliable [of "remove_quotes_by_key_image ops k" "snd s" "fst s"]
      remove_key_image_reliable [of "snd s" k]
    by (simp add: sqlite_remove_quotes_by_key_image_def sqlite_inv_def)
next
  case (4 s n)
  then show ?case
    using remove_both_reliable [of "remove_quotes_by_tombstone_block ops n" "snd s" "fst s"]
      remove_tombstone_reliable [of "snd s" n]
    by (simp add: sqlite_remove_quotes_by_tombstone_block_def sqlite_inv_def)
qed (simp_all add: sqlite_inv_def getters_reliable)

lemma list_tx_runs: "runs_closure set list_tx"
  unfolding runs_closure_def list_tx_def
  by (intro allI exI conjI) (auto split: result.splits prod.splits)

interpretation wsq: working_sqlite_on lib "in_memory_ops lib" mem_abs mem_inv list_engine set
  sample_codec for lib
  by unfold_locales (auto simp: list_engine_def list_tx_runs split: if_splits)

end
