(* ===== verification/Test_Suite.thy ===== *)
theory Test_Suite
  imports Test_Utils Sqlite_Reliable
begin

text \<open>
  The conformance tests that every implementation of the trait \<open>QuoteBook\<close> has to pass
  (\<open>quote-book/test-suite/src/lib.rs\<close>), as functions of the implementation. A test returns \<open>Ok ()\<close>; a
  failed assertion or a failed \<open>unwrap\<close> is \<open>Panic\<close>. The ledger is optional; when there is one the book and
  the helpers that create SCIs use the same, which is given by how to read and to write it in the state of
  the book. The clock is a function from the number of the call to the time.

  The theorem is that the contract of the trait is enough: a book that satisfies it, and is reliable,
  passes every test.
\<close>

section \<open>Running a test\<close>

record ('r, 's) test_state =
  ts_rng :: 'r
  ts_book :: 's
  ts_calls :: nat

type_synonym ('s, 'l) ledger_access = "(('s \<Rightarrow> 'l) \<times> ('l \<Rightarrow> 's \<Rightarrow> 's)) option"

definition on_env ::
  "('r \<times> 'l option \<Rightarrow> ('a, error) result \<times> 'r \<times> 'l option) \<Rightarrow> ('s, 'l) ledger_access \<Rightarrow>
     ('r, 's) test_state \<Rightarrow> ('a, error) result \<times> ('r, 's) test_state" where
  "on_env f ldb st =
     (let (x, rng, ledger) = f (ts_rng st, map_option (\<lambda>(get, put). get (ts_book st)) ldb)
      in (x, st\<lparr>ts_rng := rng, ts_book :=
           (case (ldb, ledger) of (Some (get, put), Some l) \<Rightarrow> put l (ts_book st) | _ \<Rightarrow> ts_book st)\<rparr>))"

definition test_add_sci ::
  "mc_lib \<Rightarrow> 's quote_book_ops \<Rightarrow> (nat \<Rightarrow> int) \<Rightarrow> sci \<Rightarrow> ('r, 's) test_state \<Rightarrow>
     (quote, error) result \<times> ('r, 's) test_state" where
  "test_add_sci lib ops now s st =
     (let (r, b) = add_sci lib ops (now (ts_calls st)) s None (ts_book st)
      in (r, st\<lparr>ts_book := b, ts_calls := Suc (ts_calls st)\<rparr>))"

definition test_call ::
  "('s \<Rightarrow> ('a, error) result \<times> 's) \<Rightarrow> ('r, 's) test_state \<Rightarrow> ('a, error) result \<times> ('r, 's) test_state" where
  "test_call f st = (let (r, b) = f (ts_book st) in (r, st\<lparr>ts_book := b\<rparr>))"

definition test_read ::
  "('s \<Rightarrow> ('a, error) result) \<Rightarrow> ('r, 's) test_state \<Rightarrow> ('a, error) result \<times> ('r, 's) test_state" where
  "test_read f st = (f (ts_book st), st)"

definition unwrap :: "('a, error) result \<times> 'st \<Rightarrow> ('a, error) result \<times> 'st" where
  "unwrap x = (expect (fst x), snd x)"

definition unwrap_err :: "('a, error) result \<times> 'st \<Rightarrow> (error, error) result \<times> 'st" where
  "unwrap_err x = ((case fst x of Err e \<Rightarrow> Ok e | _ \<Rightarrow> Panic), snd x)"

definition check_that :: "bool \<Rightarrow> 'st \<Rightarrow> (unit, error) result \<times> 'st" where
  "check_that c st = (assert_that c, st)"

section \<open>The tests\<close>

definition test_pair :: pair where
  "test_pair = Pair 1 2"

definition suite_create_sci_builder ::
  "('r, 'c, 'b, 'l) build_lib \<Rightarrow> pair \<Rightarrow> u64 \<Rightarrow> u64 \<Rightarrow> ('s, 'l) ledger_access \<Rightarrow> ('r, 's) test_state \<Rightarrow>
     ('b, error) result \<times> ('r, 's) test_state" where
  "suite_create_sci_builder bl p base_amount counter_amount ldb =
     on_env (create_sci_builder bl (base_token_id p) (counter_token_id p) base_amount counter_amount) ldb"

definition suite_create_sci ::
  "mc_lib \<Rightarrow> ('r, 'c, 'b, 'l) build_lib \<Rightarrow> pair \<Rightarrow> u64 \<Rightarrow> u64 \<Rightarrow> ('s, 'l) ledger_access \<Rightarrow>
     ('r, 's) test_state \<Rightarrow> (sci, error) result \<times> ('r, 's) test_state" where
  "suite_create_sci lib bl p base_amount counter_amount ldb =
     on_env (create_sci lib bl (base_token_id p) (counter_token_id p) base_amount counter_amount) ldb"

definition suite_create_partial_sci ::
  "mc_lib \<Rightarrow> ('r, 'c, 'b, 'l) build_lib \<Rightarrow> pair \<Rightarrow> u64 \<Rightarrow> u64 \<Rightarrow> u64 \<Rightarrow> u64 \<Rightarrow> ('s, 'l) ledger_access \<Rightarrow>
     ('r, 's) test_state \<Rightarrow> (sci, error) result \<times> ('r, 's) test_state" where
  "suite_create_partial_sci lib bl p base_amount_offered min_base_fill_amount
     required_base_change_amount counter_amount ldb =
     on_env (create_partial_sci lib bl (base_token_id p) (counter_token_id p) base_amount_offered
       min_base_fill_amount required_base_change_amount counter_amount) ldb"

definition suite_build ::
  "('r, 'c, 'b, 'l) build_lib \<Rightarrow> ('s, 'l) ledger_access \<Rightarrow> 'b \<Rightarrow> ('r, 's) test_state \<Rightarrow>
     (sci, error) result \<times> ('r, 's) test_state" where
  "suite_build bl ldb builder = on_env (unwrap_rng (builder_build bl builder)) ldb"

definition all_amounts :: range_bounds where
  "all_amounts = (Unbounded, Unbounded)"

definition sci_tombstone :: "sci \<Rightarrow> (block_index, error) result" where
  "sci_tombstone s =
     (case sci_input_rules s of Some rules \<Rightarrow> Ok (max_tombstone_block rules) | None \<Rightarrow> Panic)"

definition basic_happy_flow ::
  "mc_lib \<Rightarrow> ('r, 'c, 'b, 'l) build_lib \<Rightarrow> 's quote_book_ops \<Rightarrow> (nat \<Rightarrow> int) \<Rightarrow> ('s, 'l) ledger_access \<Rightarrow>
     ('r, 's) test_state \<Rightarrow> (unit, error) result \<times> ('r, 's) test_state" where
  "basic_happy_flow lib bl ops now ldb st =
     then_do (suite_create_sci lib bl test_pair 10 20 ldb st) (\<lambda>s st.
     then_do (unwrap (test_add_sci lib ops now s st)) (\<lambda>quote st.
     then_do (unwrap (test_read (get_quotes ops test_pair all_amounts 0) st)) (\<lambda>quotes st.
     then_do (check_that (quotes = [quote]) st) (\<lambda>_ st.
     then_do (suite_create_sci lib bl test_pair 10 200 ldb st) (\<lambda>s st.
     then_do (unwrap (test_add_sci lib ops now s st)) (\<lambda>quote2 st.
     then_do (unwrap (test_read (get_quotes ops test_pair all_amounts 0) st)) (\<lambda>quotes st.
     then_do (check_that (quotes = [quote, quote2]) st) (\<lambda>_ st.
     then_do (unwrap (test_call (remove_quote_by_id ops (q_id quote)) st)) (\<lambda>removed st.
     then_do (check_that (quote = removed) st) (\<lambda>_ st.
     then_do (unwrap (test_read (get_quotes ops test_pair all_amounts 0) st)) (\<lambda>quotes st.
     then_do (check_that (quotes = [quote2]) st) (\<lambda>_ st.
     then_do (unwrap_err (test_call (remove_quote_by_id ops (q_id quote)) st)) (\<lambda>err st.
     then_do (check_that (err = QuoteNotFound) st) (\<lambda>_ st.
     then_do (unwrap (test_call (remove_quotes_by_key_image ops (quote_key_image quote)) st)) (\<lambda>quotes st.
     then_do (check_that (quotes = []) st) (\<lambda>_ st.
     then_do (unwrap (test_call (remove_quotes_by_key_image ops (quote_key_image quote2)) st)) (\<lambda>quotes st.
     then_do (check_that (quotes = [quote2]) st) (\<lambda>_ st.
     then_do (unwrap (test_read (get_quotes ops test_pair all_amounts 0) st)) (\<lambda>quotes st.
     then_do (check_that (quotes = []) st) (\<lambda>_ st.
     then_do (suite_create_sci lib bl test_pair 10 20 ldb st) (\<lambda>s st.
     then_do (unwrap (test_add_sci lib ops now s st)) (\<lambda>quote1 st.
     then_do (sci_tombstone (q_sci quote), st) (\<lambda>quote1_tombstone st.
     then_do (suite_create_sci_builder bl test_pair 10 20 ldb st) (\<lambda>sci_builder st.
     then_do (suite_build bl ldb (builder_set_tombstone_block bl (quote1_tombstone - 1) sci_builder) st) (\<lambda>sci2 st.
     then_do (unwrap (test_add_sci lib ops now sci2 st)) (\<lambda>quote2 st.
     then_do (suite_create_sci_builder bl test_pair 10 20 ldb st) (\<lambda>sci_builder st.
     then_do (suite_build bl ldb (builder_set_tombstone_block bl 0 sci_builder) st) (\<lambda>sci3 st.
     then_do (unwrap (test_add_sci lib ops now sci3 st)) (\<lambda>quote3 st.
     then_do (unwrap (test_call (remove_quotes_by_tombstone_block ops (quote1_tombstone - 1)) st)) (\<lambda>quotes st.
     then_do (check_that (quotes = [quote2]) st) (\<lambda>_ st.
     then_do (unwrap (test_call (remove_quotes_by_tombstone_block ops (quote1_tombstone - 1)) st)) (\<lambda>quotes st.
     then_do (check_that (quotes = []) st) (\<lambda>_ st.
     then_do (unwrap (test_call (remove_quotes_by_tombstone_block ops quote1_tombstone) st)) (\<lambda>quotes st.
     then_do (check_that (quotes = [quote1]) st) (\<lambda>_ st.
     then_do (unwrap (test_call (remove_quotes_by_tombstone_block ops quote1_tombstone) st)) (\<lambda>quotes st.
     then_do (check_that (quotes = []) st) (\<lambda>_ st.
     then_do (unwrap (test_read (get_quotes ops test_pair all_amounts 0) st)) (\<lambda>quotes st.
       check_that (quotes = [quote3]) st))))))))))))))))))))))))))))))))))))))"

text \<open>Removing a response of the signature is a function of the library.\<close>

definition cannot_add_invalid_sci ::
  "mc_lib \<Rightarrow> ('r, 'c, 'b, 'l) build_lib \<Rightarrow> (sci \<Rightarrow> sci) \<Rightarrow> 's quote_book_ops \<Rightarrow> (nat \<Rightarrow> int) \<Rightarrow>
     ('s, 'l) ledger_access \<Rightarrow> ('r, 's) test_state \<Rightarrow> (unit, error) result \<times> ('r, 's) test_state" where
  "cannot_add_invalid_sci lib bl pop_response ops now ldb st =
     then_do (suite_create_sci_builder bl test_pair 10 20 ldb st) (\<lambda>sci_builder st.
     then_do (on_env (\<lambda>(rng, l). let (recipient, rng) = account_random bl rng
         in unwrap_rng (builder_add_required_output bl
              \<lparr>amount_value = 10, amount_token_id = 3\<rparr> recipient sci_builder) (rng, l)) ldb st) (\<lambda>sci_builder st.
     then_do (suite_build bl ldb sci_builder st) (\<lambda>s st.
     then_do (unwrap_err (test_add_sci lib ops now s st)) (\<lambda>err st.
     then_do (check_that (err = UnsupportedSci ''Unsupported number of required/partial outputs 2/0'') st) (\<lambda>_ st.
     then_do (suite_create_sci lib bl test_pair 10 20 ldb st) (\<lambda>s st.
     then_do (unwrap_err (test_add_sci lib ops now (pop_response s) st)) (\<lambda>err st.
       check_that (err = Sci ''RingSignature(LengthMismatch(22, 21))'') st)))))))"

definition bump_first_index :: "sci \<Rightarrow> (sci, error) result" where
  "bump_first_index s =
     (case tx_out_global_indices s of
        [] \<Rightarrow> Panic
      | i # is \<Rightarrow> Ok (s\<lparr>tx_out_global_indices := (i + 1) # is\<rparr>))"

definition cannot_add_duplicate_sci ::
  "mc_lib \<Rightarrow> ('r, 'c, 'b, 'l) build_lib \<Rightarrow> 's quote_book_ops \<Rightarrow> (nat \<Rightarrow> int) \<Rightarrow> ('s, 'l) ledger_access \<Rightarrow>
     ('r, 's) test_state \<Rightarrow> (unit, error) result \<times> ('r, 's) test_state" where
  "cannot_add_duplicate_sci lib bl ops now ldb st =
     then_do (suite_create_sci lib bl test_pair 10 20 ldb st) (\<lambda>s st.
     then_do (unwrap (test_add_sci lib ops now s st)) (\<lambda>quote1 st.
     then_do (unwrap_err (test_add_sci lib ops now s st)) (\<lambda>err st.
     then_do (check_that (err = QuoteAlreadyExists quote1) st) (\<lambda>_ st.
     then_do (bump_first_index s, st) (\<lambda>sci2 st.
     then_do (unwrap_err (test_add_sci lib ops now sci2 st)) (\<lambda>err st.
     then_do (check_that (err = QuoteAlreadyExists quote1) st) (\<lambda>_ st.
     then_do (check_that (sci_key_image s = sci_key_image sci2) st) (\<lambda>_ st.
     then_do (unwrap (quote_new lib (now (ts_calls st)) sci2 None, st)) (\<lambda>quote2 st.
     then_do (check_that (q_id quote1 \<noteq> q_id quote2) st) (\<lambda>_ st.
       check_that (quote_key_image quote1 = quote_key_image quote2) st))))))))))"

definition pair_ten :: pair where
  "pair_ten = Pair 10 2"

definition pair_twenty :: pair where
  "pair_twenty = Pair 20 2"

definition from_amount :: "u64 \<Rightarrow> range_bounds" where
  "from_amount n = (Included n, Unbounded)"

definition check_quotes ::
  "'s quote_book_ops \<Rightarrow> pair \<Rightarrow> range_bounds \<Rightarrow> nat \<Rightarrow> quote list \<Rightarrow> ('r, 's) test_state \<Rightarrow>
     (unit, error) result \<times> ('r, 's) test_state" where
  "check_quotes ops p rng limit expected st =
     then_do (unwrap (test_read (get_quotes ops p rng limit) st)) (\<lambda>quotes st. check_that (quotes = expected) st)"

definition get_quotes_filtering_works ::
  "mc_lib \<Rightarrow> ('r, 'c, 'b, 'l) build_lib \<Rightarrow> 's quote_book_ops \<Rightarrow> (nat \<Rightarrow> int) \<Rightarrow> ('s, 'l) ledger_access \<Rightarrow>
     ('r, 's) test_state \<Rightarrow> (unit, error) result \<times> ('r, 's) test_state" where
  "get_quotes_filtering_works lib bl ops now ldb st =
     then_do (suite_create_sci lib bl test_pair 100 1000 ldb st) (\<lambda>s st.
     then_do (unwrap (test_add_sci lib ops now s st)) (\<lambda>p1_100_for_1000 st.
     then_do (suite_create_partial_sci lib bl pair_ten 100 1 0 1000 ldb st) (\<lambda>s st.
     then_do (unwrap (test_add_sci lib ops now s st)) (\<lambda>p2_100_for_1000 st.
     then_do (suite_create_partial_sci lib bl pair_ten 5 1 0 50 ldb st) (\<lambda>s st.
     then_do (unwrap (test_add_sci lib ops now s st)) (\<lambda>p2_5_for_50 st.
     then_do (suite_create_partial_sci lib bl pair_ten 50 1 0 5 ldb st) (\<lambda>s st.
     then_do (unwrap (test_add_sci lib ops now s st)) (\<lambda>p2_50_for_5 st.
     then_do (suite_create_sci lib bl pair_ten 50 3 ldb st) (\<lambda>s st.
     then_do (unwrap (test_add_sci lib ops now s st)) (\<lambda>p2_50_for_3 st.
     then_do (check_quotes ops test_pair all_amounts 0 [p1_100_for_1000] st) (\<lambda>_ st.
     then_do (check_quotes ops pair_ten all_amounts 0
       [p2_50_for_3, p2_50_for_5, p2_100_for_1000, p2_5_for_50] st) (\<lambda>_ st.
     then_do (check_quotes ops test_pair all_amounts 2 [p1_100_for_1000] st) (\<lambda>_ st.
     then_do (check_quotes ops pair_ten all_amounts 2 [p2_50_for_3, p2_50_for_5] st) (\<lambda>_ st.
     then_do (check_quotes ops test_pair (from_amount 10000) 2 [] st) (\<lambda>_ st.
     then_do (check_quotes ops pair_ten (from_amount 10000) 2 [] st) (\<lambda>_ st.
     then_do (check_quotes ops pair_ten (from_amount 50) 0 [p2_50_for_3, p2_50_for_5, p2_100_for_1000] st) (\<lambda>_ st.
     then_do (check_quotes ops pair_ten (from_amount 51) 0 [p2_100_for_1000] st) (\<lambda>_ st.
       check_quotes ops pair_ten (Included 50, Excluded 70) 0
         [p2_50_for_3, p2_50_for_5, p2_100_for_1000] st))))))))))))))))))"

definition get_quote_ids_works ::
  "mc_lib \<Rightarrow> ('r, 'c, 'b, 'l) build_lib \<Rightarrow> 's quote_book_ops \<Rightarrow> (nat \<Rightarrow> int) \<Rightarrow> ('s, 'l) ledger_access \<Rightarrow>
     ('r, 's) test_state \<Rightarrow> (unit, error) result \<times> ('r, 's) test_state" where
  "get_quote_ids_works lib bl ops now ldb st =
     then_do (suite_create_sci lib bl test_pair 100 1000 ldb st) (\<lambda>pair1_sci1 st.
     then_do (unwrap (test_add_sci lib ops now pair1_sci1 st)) (\<lambda>quote1 st.
     then_do (suite_create_sci lib bl test_pair 100 1000 ldb st) (\<lambda>pair1_sci2 st.
     then_do (unwrap (test_add_sci lib ops now pair1_sci2 st)) (\<lambda>quote2 st.
     then_do (suite_create_sci lib bl pair_ten 100 1000 ldb st) (\<lambda>pair2_sci3 st.
     then_do (unwrap (test_add_sci lib ops now pair2_sci3 st)) (\<lambda>quote3 st.
     then_do (unwrap (test_read (get_quote_ids ops None) st)) (\<lambda>quote_ids st.
     then_do (check_that ({q_id quote1, q_id quote2, q_id quote3} = set quote_ids) st) (\<lambda>_ st.
     then_do (unwrap (test_read (get_quote_ids ops (Some test_pair)) st)) (\<lambda>quote_ids st.
     then_do (check_that ({q_id quote1, q_id quote2} = set quote_ids) st) (\<lambda>_ st.
     then_do (unwrap (test_read (get_quote_ids ops (Some pair_ten)) st)) (\<lambda>quote_ids st.
     then_do (check_that ({q_id quote3, q_id quote3} = set quote_ids) st) (\<lambda>_ st.
     then_do (unwrap (test_read (get_quote_ids ops (Some pair_twenty)) st)) (\<lambda>quote_ids st.
       check_that (quote_ids = []) st)))))))))))))"

definition get_quote_by_id_works ::
  "mc_lib \<Rightarrow> ('r, 'c, 'b, 'l) build_lib \<Rightarrow> 's quote_book_ops \<Rightarrow> (nat \<Rightarrow> int) \<Rightarrow> ('s, 'l) ledger_access \<Rightarrow>
     ('r, 's) test_state \<Rightarrow> (unit, error) result \<times> ('r, 's) test_state" where
  "get_quote_by_id_works lib bl ops now ldb st =
     then_do (suite_create_sci lib bl test_pair 100 1000 ldb st) (\<lambda>sci1 st.
     then_do (unwrap (test_add_sci lib ops now sci1 st)) (\<lambda>quote1 st.
     then_do (suite_create_sci lib bl test_pair 100 1000 ldb st) (\<lambda>sci2 st.
     then_do (unwrap (quote_new lib (now (ts_calls st)) sci2 None, st)) (\<lambda>quote2 st.
     then_do (unwrap (test_read (get_quote_by_id ops (q_id quote1)) st)) (\<lambda>found st.
     then_do (check_that (found = Some quote1) st) (\<lambda>_ st.
     then_do (unwrap (test_read (get_quote_by_id ops (q_id quote2)) st)) (\<lambda>found st.
       check_that (found = None) st)))))))"

section \<open>Hypotheses on the libraries\<close>

text \<open>The test of the tombstone block, and a clock that advances during a test.\<close>

definition tombstone_documented :: "mc_lib \<Rightarrow> bool" where
  "tombstone_documented lib \<longleftrightarrow> (\<forall>current tombstone. current \<le> 100000 \<longrightarrow>
     (validate_tombstone lib current tombstone = None \<longleftrightarrow>
        current < tombstone \<and> tombstone \<le> current + 20160))"

definition clock_advances :: "(nat \<Rightarrow> int) \<Rightarrow> bool" where
  "clock_advances now \<longleftrightarrow> (\<forall>n<20. 0 \<le> now n \<and> now n < now (Suc n) \<and> now (Suc n) < 2 ^ 64)"

text \<open>
  The SCIs that were built: the ring is not empty; its indexes are part of the digest but are not
  validated; without its last response the signature of a ring of eleven is not valid.
\<close>

definition built_documented :: "mc_lib \<Rightarrow> (sci \<Rightarrow> sci) \<Rightarrow> sci set \<Rightarrow> bool" where
  "built_documented lib pop_response S \<longleftrightarrow> (\<forall>s\<in>S. \<exists>i is. tx_out_global_indices s = i # is \<and>
     sci_validate lib (s\<lparr>tx_out_global_indices := (i + 1) # is\<rparr>) = sci_validate lib s \<and>
     sci_digest32 lib (s\<lparr>tx_out_global_indices := (i + 1) # is\<rparr>) \<noteq> sci_digest32 lib s \<and>
     sci_validate lib (pop_response s) = Err ''RingSignature(LengthMismatch(22, 21))'')"

locale suite_setup = reliable_quote_book lib ops abs inv
  for lib and ops :: "'s quote_book_ops" and abs inv +
  fixes bl :: "('r, 'c, 'b, 'l) build_lib" and input content
    and built :: "'r \<Rightarrow> sci set" and budget :: "'r \<Rightarrow> nat" and now :: "nat \<Rightarrow> int" and pop_response
  assumes lib_ok: "mc_lib_ok lib" and build_ok: "build_lib_ok lib bl input content"
    and fresh: "build_fresh lib bl content built budget"
    and edits: "built_documented lib pop_response (built r)"
    and tombstones: "tombstone_documented lib" and clock: "clock_advances now"

section \<open>Rules for the steps of a test\<close>

definition passes :: "(unit, error) result \<times> 'st \<Rightarrow> bool" where
  "passes x \<longleftrightarrow> fst x = Ok ()"

definition time_at :: "(nat \<Rightarrow> int) \<Rightarrow> nat \<Rightarrow> u64" where
  "time_at now n = word_of_int (now n)"

text \<open>The book holds a set of quotes, made from SCIs that were built; so many more can be built.\<close>

definition book_holds ::
  "mc_lib \<Rightarrow> ('s \<Rightarrow> quote set) \<Rightarrow> ('s \<Rightarrow> bool) \<Rightarrow> ('r \<Rightarrow> sci set) \<Rightarrow> ('r \<Rightarrow> nat) \<Rightarrow>
     quote set \<Rightarrow> nat \<Rightarrow> nat \<Rightarrow> ('r, 's) test_state \<Rightarrow> bool" where
  "book_holds lib contents ok built budget B n m st \<longleftrightarrow>
     ok (ts_book st) \<and> contents (ts_book st) = B \<and> ts_calls st = n \<and> m \<le> budget (ts_rng st) \<and>
     (\<forall>x\<in>B. q_sci x \<in> built (ts_rng st) \<and> q_id x = sci_digest32 lib (q_sci x))"

text \<open>An SCI that was built and has nothing in common with the quotes of the book.\<close>

definition fresh_in :: "mc_lib \<Rightarrow> quote set \<Rightarrow> sci \<Rightarrow> bool" where
  "fresh_in lib B s \<longleftrightarrow> (\<forall>x\<in>B. q_sci x \<noteq> s \<and> sci_key_image (q_sci x) \<noteq> sci_key_image s \<and>
     sci_digest32 lib (q_sci x) \<noteq> sci_digest32 lib s)"

lemma fresh_in_simps [simp]:
  "fresh_in lib {} s"
  "fresh_in lib (insert x B) s \<longleftrightarrow> (q_sci x \<noteq> s \<and> s \<noteq> q_sci x) \<and>
     (sci_key_image (q_sci x) \<noteq> sci_key_image s \<and> sci_key_image s \<noteq> sci_key_image (q_sci x)) \<and>
     (sci_digest32 lib (q_sci x) \<noteq> sci_digest32 lib s \<and> sci_digest32 lib s \<noteq> sci_digest32 lib (q_sci x)) \<and>
     fresh_in lib B s"
  by (auto simp: fresh_in_def)

definition select :: "('a \<Rightarrow> bool) \<Rightarrow> 'a set \<Rightarrow> 'a set" where
  "select P B = {x \<in> B. P x}"

lemma select_simps [simp]:
  "select P {} = {}" "select P (insert a B) = (if P a then insert a (select P B) else select P B)"
  by (auto simp: select_def)

lemma passes_check [simp]: "passes (check_that c st) \<longleftrightarrow> c"
  by (simp add: passes_def check_that_def)

lemma passes_then_check [simp]: "c \<Longrightarrow> then_do (check_that c st) f = f () st"
  by (simp add: check_that_def assert_that_def)

lemma check_passes: "c \<Longrightarrow> passes (f () st) \<Longrightarrow> passes (then_do (check_that c st) f)"
  by simp

lemma passes_unwrap: "fst x = Ok a \<Longrightarrow> passes (f a (snd x)) \<Longrightarrow> passes (then_do (unwrap x) f)"
  by (cases x) (simp add: unwrap_def)

lemma passes_unwrap_err: "fst x = Err e \<Longrightarrow> passes (f e (snd x)) \<Longrightarrow> passes (then_do (unwrap_err x) f)"
  by (cases x) (simp add: unwrap_err_def)

lemma clock_advances_time:
  assumes "clock_advances now" and "n < 20"
  shows "system_time_nanos (now n) = Ok (time_at now n)"
  using assms by (fastforce simp: system_time_nanos_def clock_advances_def time_at_def)

lemma time_at_less:
  assumes "clock_advances now" and "i < j" and "j < 20"
  shows "time_at now i < time_at now j"
proof -
  have step: "now k < now (Suc k)" if "k < 20" for k
    using that assms(1) by (simp add: clock_advances_def)
  have range: "0 \<le> now k \<and> now k < 2 ^ 64" if "k < 20" for k
    using that assms(1) step [of k] by (fastforce simp: clock_advances_def)
  have "now i < now j" using assms(2,3)
  proof (induction j)
    case (Suc j)
    then show ?case using step [of j] by (cases "i = j") auto
  qed simp
  moreover have "uint (time_at now k) = now k" if "k < 20" for k
    using range [OF that] by (simp add: time_at_def uint_word_of_int)
  ultimately show ?thesis
    using assms(2,3) by (simp add: word_less_def)
qed

lemma quote_cmp_sorted_unique:
  assumes "quotes_sorted xs" and "quotes_sorted ys" and "set xs = set ys"
  shows "xs = ys"
  using assms
proof (induction xs arbitrary: ys)
  case (Cons x xs)
  then obtain y ys' where ys: "ys = y # ys'" by (cases ys) auto
  have asym: "quote_cmp a b = Less \<Longrightarrow> quote_cmp b a \<noteq> Less" for a b
    by (metis quote_cmp_swap ordering.distinct(3))
  have "x = y"
  proof (rule ccontr)
    assume "x \<noteq> y"
    then have "x \<in> set ys'" "y \<in> set xs"
      using Cons.prems(3) ys by auto
    with Cons.prems(1,2) ys asym [of x y] show False by auto
  qed
  moreover have "x \<notin> set xs" "y \<notin> set ys'"
    using Cons.prems(1,2) ys by auto
  ultimately have "set xs = set ys'"
    using Cons.prems(3) ys by (simp add: insert_ident)
  with Cons.IH [of ys'] Cons.prems ys \<open>x = y\<close> show ?case by simp
qed simp

context suite_setup
begin

abbreviation "holds \<equiv> book_holds lib abs inv built budget"

lemma time_less: "i < j \<Longrightarrow> j < 20 \<Longrightarrow> time_at now i < time_at now j"
  by (rule time_at_less [OF clock])

lemma holds_fresh_in: "holds B n m st \<Longrightarrow> fresh_key lib (built (ts_rng st)) s \<Longrightarrow> fresh_in lib B s"
  by (auto simp: book_holds_def fresh_key_def fresh_in_def)

lemma holds_built:
  assumes "holds B n (Suc m) st" and "built_fresh lib built budget (ts_rng st) s r'"
  shows "holds B n m (st\<lparr>ts_rng := r'\<rparr>)" and "fresh_in lib B s" and "s \<in> built r'"
  using assms holds_fresh_in [OF assms(1)] by (auto simp: book_holds_def built_fresh_def)

lemma create_passes:
  assumes st: "holds B n (Suc m) st"
    and f: "\<And>s st'. \<lbrakk>holds B n m st'; s \<in> built (ts_rng st'); fresh_in lib B s; offers lib s p x x y;
      tombstone_of s 2000\<rbrakk> \<Longrightarrow> passes (f s st')"
  shows "passes (then_do (suite_create_sci lib bl p x y None st) f)"
proof -
  let ?bt = "base_token_id p" and ?ct = "counter_token_id p"
  have "0 < budget (ts_rng st)" using st by (simp add: book_holds_def)
  from create_sci_total [OF fresh build_ok this ledger_ready_None, of ?bt ?ct x y] obtain s r' where
    s: "create_sci lib bl ?bt ?ct x y (ts_rng st, None) = (Ok s, r', None)"
      "built_fresh lib built budget (ts_rng st) s r'" by blast
  have "offers lib s p x x y" "tombstone_of s 2000"
    using create_sci_offers [OF build_ok s(1)] by simp_all
  then show ?thesis
    using f [OF holds_built(1) [OF st s(2)]] holds_built(2,3) [OF st s(2)] s(1)
    by (simp add: suite_create_sci_def on_env_def)
qed

lemma create_partial_passes:
  assumes st: "holds B n (Suc m) st"
    and f: "\<And>s st'. \<lbrakk>holds B n m st'; s \<in> built (ts_rng st'); fresh_in lib B s; offers lib s p least x y\<rbrakk>
      \<Longrightarrow> passes (f s st')"
  shows "passes (then_do (suite_create_partial_sci lib bl p x least 0 y None st) f)"
proof -
  let ?bt = "base_token_id p" and ?ct = "counter_token_id p"
  have "0 < budget (ts_rng st)" using st by (simp add: book_holds_def)
  from create_partial_sci_total [OF fresh build_ok this ledger_ready_None, of ?bt ?ct x least y] obtain s r' where
    s: "create_partial_sci lib bl ?bt ?ct x least 0 y (ts_rng st, None) = (Ok s, r', None)"
      "built_fresh lib built budget (ts_rng st) s r'" by blast
  have "offers lib s p least x y"
    using create_partial_sci_offers [OF build_ok s(1)] by simp
  then show ?thesis
    using f [OF holds_built(1) [OF st s(2)]] holds_built(2,3) [OF st s(2)] s(1)
    by (simp add: suite_create_partial_sci_def on_env_def)
qed

lemma builder_passes:
  assumes st: "holds B n m st"
    and f: "\<And>b st'. \<lbrakk>holds B n m st'; bc_offered (content b) = \<lparr>amount_value = x, amount_token_id = base_token_id p\<rparr>;
      bc_required (content b) = [\<lparr>amount_value = y, amount_token_id = counter_token_id p\<rparr>];
      bc_partial (content b) = []\<rbrakk> \<Longrightarrow> passes (f b st')"
  shows "passes (then_do (suite_create_sci_builder bl p x y None st) f)"
proof -
  let ?bt = "base_token_id p" and ?ct = "counter_token_id p"
  obtain b r' where b: "create_sci_builder bl ?bt ?ct x y (ts_rng st, None) = (Ok b, r', None)"
      "keeps_keys built budget (ts_rng st) r'"
    using create_sci_builder_total [OF fresh ledger_ready_None] by blast
  have "holds B n m (st\<lparr>ts_rng := r'\<rparr>)"
    using st b(2) by (auto simp: book_holds_def keeps_keys_def)
  then show ?thesis
    using f create_sci_builder_content(1-3) [OF build_ok b(1)] b(1)
    by (simp add: suite_create_sci_builder_def on_env_def)
qed

lemma build_passes:
  assumes st: "holds B n (Suc m) st" and b: "bc_partial (content b) = []"
    and f: "\<And>s st'. \<lbrakk>holds B n m st'; s \<in> built (ts_rng st'); fresh_in lib B s; sci_validate lib s = Ok ();
      sci_has lib (content b) s\<rbrakk> \<Longrightarrow> passes (f s st')"
  shows "passes (then_do (suite_build bl None b st) f)"
proof -
  have "0 < budget (ts_rng st)" using st by (simp add: book_holds_def)
  from builder_build_total [OF fresh this, of b "None :: 'l option"] obtain s r' where
    s: "unwrap_rng (builder_build bl b) (ts_rng st, None :: 'l option) = (Ok s, r', None)"
      "sci_validate lib s = Ok ()" "built_fresh lib built budget (ts_rng st) s r'" using b by auto
  have "sci_has lib (content b) s"
    using build_lib_okD(10) [OF build_ok, of b "ts_rng st" s] s(1) by (simp add: unwrap_rng_eq_Ok)
  then show ?thesis
    using f [OF holds_built(1) [OF st s(3)]] holds_built(2,3) [OF st s(3)] s(1,2)
    by (simp add: suite_build_def on_env_def)
qed

end

context suite_setup
begin

lemma made_quote_now:
  assumes "offers lib s p lo hi y" and "n < 20"
  shows "quote_new lib (now n) s None = Ok (made_quote lib s p lo hi y (time_at now n))"
  using assms clock_advances_time [OF clock assms(2)] by (simp add: offers_def quote_new_def)

lemma built_offers:
  assumes "sci_has lib c s" and "sci_validate lib s = Ok ()" and "bc_required c = [a]" and "bc_partial c = []"
  shows "offers lib s (Pair (amount_token_id (bc_offered c)) (amount_token_id a))
      (amount_value (bc_offered c)) (amount_value (bc_offered c)) (amount_value a)"
    and "tombstone_of s (bc_tombstone c)"
  using assms sci_has_full_quote [OF assms(1,3,4,2)]
  by (auto simp: offers_def made_quote_def quote_id_from_sci_def tombstone_of_def sci_has_def)

lemma made_quote_admissible:
  assumes "holds B n m st" and "hi \<noteq> 0 \<or> y \<noteq> 0"
    and "\<forall>x\<in>B. sci_digest32 lib (q_sci x) = sci_digest32 lib s \<longrightarrow> q_pair x = p \<and> sci_key_image (q_sci x) = sci_key_image s"
  shows "admissible (made_quote lib s p lo hi y t) (abs (ts_book st))"
  using assms mc_lib_okD(3) [OF lib_ok] by (auto simp: admissible_def book_holds_def clash_def)

lemma add_passes:
  assumes st: "holds B n m st" and s: "s \<in> built (ts_rng st)" "fresh_in lib B s" "offers lib s p lo hi y"
    and n: "n < 20" and rated: "hi \<noteq> 0 \<or> y \<noteq> 0"
    and f: "\<And>st'. holds (insert (made_quote lib s p lo hi y (time_at now n)) B) (Suc n) m st' \<Longrightarrow>
      passes (f (made_quote lib s p lo hi y (time_at now n)) st')"
  shows "passes (then_do (unwrap (test_add_sci lib ops now s st)) f)"
proof -
  let ?q = "made_quote lib s p lo hi y (time_at now n)"
  have b: "inv (ts_book st)" "abs (ts_book st) = B" "ts_calls st = n" using st by (simp_all add: book_holds_def)
  obtain r b' where a: "add_quote ops ?q (ts_book st) = (r, b')" by fastforce
  have adm: "admissible ?q (abs (ts_book st))"
    by (rule made_quote_admissible [OF st rated]) (use s(2) in \<open>auto simp: fresh_in_def\<close>)
  have "\<forall>x\<in>abs (ts_book st). \<not> clash ?q x"
    using s(2) b(2) by (fastforce simp: fresh_in_def clash_def)
  with add_decided [OF b(1) adm] a have r: "r = Ok ()" by simp
  have "test_add_sci lib ops now s st = (Ok ?q, st\<lparr>ts_book := b', ts_calls := Suc n\<rparr>)"
    using made_quote_now [OF s(3) n] b(3) a r by (simp add: test_add_sci_def add_sci_def)
  moreover have "holds (insert ?q B) (Suc n) m (st\<lparr>ts_book := b', ts_calls := Suc n\<rparr>)"
    using add_law [OF b(1) adm a] r st s(1) by (simp add: book_holds_def add_spec_def)
  ultimately show ?thesis
    using f by (simp add: unwrap_def)
qed

lemma add_refused_passes:
  assumes st: "holds B n m st" and n: "n < 20" and e: "quote_new lib (now n) s None = Err e"
    and f: "\<And>st'. holds B (Suc n) m st' \<Longrightarrow> passes (f e st')"
  shows "passes (then_do (unwrap_err (test_add_sci lib ops now s st)) f)"
  using st e f by (simp add: test_add_sci_def add_sci_def unwrap_err_def book_holds_def)

lemma add_duplicate_passes:
  assumes st: "holds {x} n m st" and s: "offers lib s (q_pair x) lo hi y" "sci_key_image s = sci_key_image (q_sci x)"
    and n: "n < 20" and rated: "hi \<noteq> 0 \<or> y \<noteq> 0"
    and f: "\<And>st'. holds {x} (Suc n) m st' \<Longrightarrow> passes (f (QuoteAlreadyExists x) st')"
  shows "passes (then_do (unwrap_err (test_add_sci lib ops now s st)) f)"
proof -
  let ?q = "made_quote lib s (q_pair x) lo hi y (time_at now n)"
  have b: "inv (ts_book st)" "abs (ts_book st) = {x}" "ts_calls st = n" using st by (simp_all add: book_holds_def)
  obtain r b' where a: "add_quote ops ?q (ts_book st) = (r, b')" by fastforce
  have adm: "admissible ?q (abs (ts_book st))"
    by (rule made_quote_admissible [OF st rated]) (use s(2) in simp)
  have "clash ?q x" using s(2) by (simp add: clash_def)
  then have r: "r = Err (QuoteAlreadyExists x)" "inv b'" "abs b' = {x}"
    using add_law [OF b(1) adm a] add_reliable [OF b(1) adm] a b(2) by (cases r; auto simp: add_spec_def)+
  have "test_add_sci lib ops now s st =
      (Err (QuoteAlreadyExists x), st\<lparr>ts_book := b', ts_calls := Suc n\<rparr>)"
    using made_quote_now [OF s(1) n] b(3) a r by (simp add: test_add_sci_def add_sci_def)
  moreover have "holds {x} (Suc n) m (st\<lparr>ts_book := b', ts_calls := Suc n\<rparr>)"
    using r st by (simp add: book_holds_def)
  ultimately show ?thesis
    using f by (simp add: unwrap_err_def)
qed

text \<open>Reads leave the state as it is; the order of the quotes decides the list.\<close>

lemma get_quotes_result:
  assumes st: "holds B n m st" and xs: "quotes_sorted xs"
    "set xs = select (\<lambda>x. q_pair x = p \<and> range_overlaps rng (range_inclusive (q_base_range x))) B"
  shows "get_quotes ops p rng limit (ts_book st) = Ok (limited limit xs)"
proof -
  have b: "inv (ts_book st)" "abs (ts_book st) = B" using st by (simp_all add: book_holds_def)
  obtain qs where qs: "get_quotes ops p rng limit (ts_book st) = Ok qs" using get_quotes_ok [OF b(1)] by blast
  then obtain full where "qs = limited limit full" "quotes_sorted full"
      "set full = select (\<lambda>x. q_pair x = p \<and> range_overlaps rng (range_inclusive (q_base_range x))) B"
    using get_quotes_law [OF b(1), of p rng limit] b(2) by (auto simp: get_quotes_spec_def select_def)
  with qs quote_cmp_sorted_unique [OF xs(1), of full] xs(2) show ?thesis by simp
qed

lemma get_quotes_passes:
  assumes "holds B n m st" and "limited limit xs = ys" and "quotes_sorted xs"
    and "set xs = select (\<lambda>x. q_pair x = p \<and> range_overlaps rng (range_inclusive (q_base_range x))) B"
    and "passes (f () st)"
  shows "passes (then_do (unwrap (test_read (get_quotes ops p rng limit) st))
    (\<lambda>quotes st. then_do (check_that (quotes = ys) st) f))"
  using assms(2,5) get_quotes_result [OF assms(1,3,4)] by (simp add: test_read_def unwrap_def)

lemma get_last_passes:
  assumes "holds B n m st" and "quotes_sorted xs"
    and "set xs = select (\<lambda>x. q_pair x = p \<and> range_overlaps rng (range_inclusive (q_base_range x))) B"
  shows "passes (then_do (unwrap (test_read (get_quotes ops p rng 0) st)) (\<lambda>quotes st. check_that (quotes = xs) st))"
  using get_quotes_result [OF assms, of 0] by (simp add: test_read_def unwrap_def limited_def)

lemma check_quotes_result:
  assumes "holds B n m st" and "limited limit xs = ys" and "quotes_sorted xs"
    and "set xs = select (\<lambda>x. q_pair x = p \<and> range_overlaps rng (range_inclusive (q_base_range x))) B"
  shows "check_quotes ops p rng limit ys st = (Ok (), st)"
  using assms(2) get_quotes_result [OF assms(1,3,4)]
  by (simp add: check_quotes_def test_read_def unwrap_def check_that_def assert_that_def)

lemma get_quote_ids_passes:
  assumes st: "holds B n m st"
    and f: "\<And>ids. set ids = q_id ` select (\<lambda>x. po = None \<or> po = Some (q_pair x)) B \<Longrightarrow> passes (f ids st)"
  shows "passes (then_do (unwrap (test_read (get_quote_ids ops po) st)) f)"
proof -
  have b: "inv (ts_book st)" "abs (ts_book st) = B" using st by (simp_all add: book_holds_def)
  obtain ids where "get_quote_ids ops po (ts_book st) = Ok ids"
    using getters_reliable(2) [OF b(1), of po] no_panic(6) [OF b(1), of po]
    by (cases "get_quote_ids ops po (ts_book st)") auto
  with get_quote_ids_law [OF b(1), of po] b(2) f show ?thesis
    by (simp add: get_quote_ids_spec_def test_read_def unwrap_def select_def)
qed

lemma get_quote_by_id_passes:
  assumes st: "holds B n m st"
    and found: "\<And>x. x \<in> B \<Longrightarrow> q_id x = i \<Longrightarrow> passes (f (Some x) st)"
    and missing: "\<forall>x\<in>B. q_id x \<noteq> i \<Longrightarrow> passes (f None st)"
  shows "passes (then_do (unwrap (test_read (get_quote_by_id ops i) st)) f)"
proof -
  have b: "inv (ts_book st)" "abs (ts_book st) = B" using st by (simp_all add: book_holds_def)
  obtain res where "get_quote_by_id ops i (ts_book st) = Ok res" using get_quote_by_id_ok [OF b(1)] by blast
  with get_quote_by_id_law [OF b(1), of i] b(2) found missing show ?thesis
    by (auto simp: get_quote_by_id_spec_def test_read_def unwrap_def split: option.splits)
qed

end

context suite_setup
begin

lemma remove_id_passes:
  assumes st: "holds B n m st" and q: "q \<in> B" 
    and f: "\<And>st'. holds (select (\<lambda>x. x \<noteq> q) B) n m st' \<Longrightarrow> passes (f q st')"
  shows "passes (then_do (unwrap (test_call (remove_quote_by_id ops (q_id q)) st)) f)"
proof -
  have b: "inv (ts_book st)" "abs (ts_book st) = B" using st by (simp_all add: book_holds_def)
  obtain r b' where a: "remove_quote_by_id ops (q_id q) (ts_book st) = (r, b')" by fastforce
  have "is_ok r" using remove_id_decided [OF b(1), of "q_id q"] a b(2) q by simp
  then obtain x where r: "r = Ok x" by (auto simp: is_ok_iff)
  then have x: "inv b'" "x \<in> B" "q_id x = q_id q" "abs b' = B - {x}"
    using remove_id_law [OF b(1) a] b(2) by (simp_all add: remove_id_spec_def)
  moreover have "x = q"
    using inv_book [OF b(1)] b(2) x(2,3) q by (auto simp: book_inv_def inj_on_def)
  ultimately have "holds (select (\<lambda>x. x \<noteq> q) B) n m (st\<lparr>ts_book := b'\<rparr>)"
    using st by (auto simp: book_holds_def select_def)
  with f a r \<open>x = q\<close> show ?thesis by (simp add: test_call_def unwrap_def)
qed

lemma remove_id_missing_passes:
  assumes st: "holds B n m st" and i: "\<forall>x\<in>B. q_id x \<noteq> i"
    and f: "\<And>st'. holds B n m st' \<Longrightarrow> passes (f QuoteNotFound st')"
  shows "passes (then_do (unwrap_err (test_call (remove_quote_by_id ops i) st)) f)"
proof -
  have b: "inv (ts_book st)" "abs (ts_book st) = B" using st by (simp_all add: book_holds_def)
  obtain r b' where a: "remove_quote_by_id ops i (ts_book st) = (r, b')" by fastforce
  have "\<not> is_ok r" using remove_id_decided [OF b(1), of i] a b(2) i by auto
  then have r: "r = Err QuoteNotFound" "inv b'" "abs b' = B"
    using remove_id_law [OF b(1) a] remove_id_reliable [OF b(1), of i] a b(2)
    by (cases r; auto simp: remove_id_spec_def)+
  then have "holds B n m (st\<lparr>ts_book := b'\<rparr>)"
    using st by (simp add: book_holds_def)
  with f a r show ?thesis by (simp add: test_call_def unwrap_err_def)
qed

text \<open>At most one quote is removed, so the order of the result does not matter.\<close>

lemma remove_where_passes:
  assumes st: "holds B n m st" and a: "op (ts_book st) = (r, b')"
    and spec: "inv b' \<and> remove_where_spec P B r (abs b')" and reliable: "\<not> is_err r"
    and ys: "length ys \<le> 1" "set ys = select P B"
    and f: "\<And>st'. holds (select (\<lambda>x. \<not> P x) B) n m st' \<Longrightarrow> passes (f () st')"
  shows "passes (then_do (unwrap (test_call op st)) (\<lambda>quotes st. then_do (check_that (quotes = ys) st) f))"
proof -
  obtain qs where r: "r = Ok qs" "distinct qs" "set qs = set ys" "abs b' = select (\<lambda>x. \<not> P x) B"
    using spec reliable ys(2) by (cases r) (auto simp: remove_where_spec_def select_def)
  have "length qs = card (set ys)" using distinct_card [OF r(2)] r(3) by simp
  with ys(1) r(2,3) have "qs = ys"
    by (cases ys; cases qs) (auto simp: le_Suc_eq)
  moreover have "holds (select (\<lambda>x. \<not> P x) B) n m (st\<lparr>ts_book := b'\<rparr>)"
    using st spec r(4) by (auto simp: book_holds_def select_def)
  ultimately show ?thesis
    using f a r(1) by (simp add: test_call_def unwrap_def)
qed

lemma remove_key_image_passes:
  assumes st: "holds B n m st" and ys: "length ys \<le> 1" "set ys = select (\<lambda>x. sci_key_image (q_sci x) = k) B"
    and f: "\<And>st'. holds (select (\<lambda>x. sci_key_image (q_sci x) \<noteq> k) B) n m st' \<Longrightarrow> passes (f () st')"
  shows "passes (then_do (unwrap (test_call (remove_quotes_by_key_image ops k) st))
    (\<lambda>quotes st. then_do (check_that (quotes = ys) st) f))"
proof -
  obtain r b' where a: "remove_quotes_by_key_image ops k (ts_book st) = (r, b')" by fastforce
  have b: "inv (ts_book st)" "abs (ts_book st) = B" using st by (simp_all add: book_holds_def)
  show ?thesis
    using remove_key_image_law [OF b(1) a] remove_key_image_reliable [OF b(1), of k] a b(2)
    by (intro remove_where_passes [where op = "remove_quotes_by_key_image ops k" and
        P = "\<lambda>x. sci_key_image (q_sci x) = k" and f = f, OF st a _ _ ys]) (simp_all add: f)
qed

lemma remove_tombstone_passes:
  assumes st: "holds B n m st" and k: "k \<le> 3000" and B: "\<forall>x\<in>B. quote_tombstone x \<le> 3000"
    and ys: "length ys \<le> 1" "set ys = select (expired_at k) B"
    and f: "\<And>st'. holds (select (\<lambda>x. \<not> expired_at k x) B) n m st' \<Longrightarrow> passes (f () st')"
  shows "passes (then_do (unwrap (test_call (remove_quotes_by_tombstone_block ops k) st))
    (\<lambda>quotes st. then_do (check_that (quotes = ys) st) f))"
proof -
  obtain r b' where a: "remove_quotes_by_tombstone_block ops k (ts_book st) = (r, b')" by fastforce
  have b: "inv (ts_book st)" "abs (ts_book st) = B" using st by (simp_all add: book_holds_def)
  have "k \<le> 100000" "unat k < 2 ^ 63" using k by (auto simp: word_le_nat_alt)
  moreover have "past_tombstone lib k x \<longleftrightarrow> expired_at k x" "unat (quote_tombstone x) < 2 ^ 63" if "x \<in> B" for x
  proof -
    have t: "quote_tombstone x \<le> 3000" using B that by auto
    then have "quote_tombstone x \<le> k + 20160"
      using k by (simp add: word_le_nat_alt unat_word_ariths)
    then show "past_tombstone lib k x \<longleftrightarrow> expired_at k x"
      using tombstones \<open>k \<le> 100000\<close>
      by (auto simp: tombstone_documented_def past_tombstone_def expired_at_def not_less)
    show "unat (quote_tombstone x) < 2 ^ 63"
      using t by (simp add: word_le_nat_alt)
  qed
  ultimately have reg: "tombstones_regular lib k (abs (ts_book st))"
    using b(2) by (simp add: tombstones_regular_def)
  show ?thesis
    using remove_tombstone_law [OF b(1) reg a] remove_tombstone_reliable [OF b(1), of k] a b(2)
    by (intro remove_where_passes [where op = "remove_quotes_by_tombstone_block ops k" and
        P = "expired_at k" and f = f, OF st a _ _ ys]) (simp_all add: f)
qed

end

lemma limited_zero: "limited 0 xs = xs"
  by (simp add: limited_def)

section \<open>The tests pass\<close>

context suite_setup
begin

lemma unwrap_quote_new_passes:
  assumes "offers lib s p lo hi y" and "holds B n m st" and "n < 20"
    and "passes (f (made_quote lib s p lo hi y (time_at now n)) st)"
  shows "passes (then_do (unwrap (quote_new lib (now (ts_calls st)) s None, st)) f)"
  using assms(2,4) made_quote_now [OF assms(1,3)] by (simp add: book_holds_def unwrap_def)

lemma get_quote_by_id_works_passes:
  assumes "holds {} 0 (Suc (Suc m)) st"
  shows "passes (get_quote_by_id_works lib bl ops now None st)"
  unfolding get_quote_by_id_works_def
  apply (rule create_passes, rule assms)
  apply (rule add_passes, assumption+, simp, simp)
  apply (rule create_passes, assumption)
  apply (rule unwrap_quote_new_passes, assumption+, simp)
  apply (rule get_quote_by_id_passes, assumption)
   apply (simp)
   apply (rule get_quote_by_id_passes, assumption)
  apply simp_all
  done

lemma get_quote_ids_works_passes:
  assumes "holds {} 0 (Suc (Suc (Suc m))) st"
  shows "passes (get_quote_ids_works lib bl ops now None st)"
  unfolding get_quote_ids_works_def
  apply (rule create_passes, rule assms)
  apply (rule add_passes, assumption+, simp, simp)
  apply (rule create_passes, assumption)
  apply (rule add_passes, assumption+, simp, simp)
  apply (rule create_passes, assumption)
  apply (rule add_passes, assumption+, simp, simp)
  apply (rule get_quote_ids_passes, assumption, simp add: insert_commute)
  apply (rule get_quote_ids_passes, assumption, simp add: test_pair_def pair_ten_def insert_commute)
  apply (rule get_quote_ids_passes, assumption, simp add: test_pair_def pair_ten_def insert_commute)
  apply (rule get_quote_ids_passes, assumption, simp add: test_pair_def pair_ten_def pair_twenty_def insert_commute)
  done

end

context suite_setup
begin

lemmas suite_simps = quote_cmp_Less rate_le_def range_overlaps_def range_inclusive_def limited_def time_less
  test_pair_def pair_ten_def all_amounts_def from_amount_def insert_commute

lemma check_quotes_passes:
  assumes "holds B n m st" and "limited limit ys = ys" and "quotes_sorted ys"
    and "set ys = select (\<lambda>x. q_pair x = p \<and> range_overlaps rng (range_inclusive (q_base_range x))) B"
    and "passes (f () st)"
  shows "passes (then_do (check_quotes ops p rng limit ys st) f)"
  using check_quotes_result [OF assms(1-4)] assms(5) by simp

lemma check_last_quotes_passes:
  assumes "holds B n m st" and "limited limit ys = ys" and "quotes_sorted ys"
    and "set ys = select (\<lambda>x. q_pair x = p \<and> range_overlaps rng (range_inclusive (q_base_range x))) B"
  shows "passes (check_quotes ops p rng limit ys st)"
  using check_quotes_result [OF assms] by (simp add: passes_def)

lemma check_first_quotes_passes:
  assumes "holds B n m st" and "quotes_sorted (ys @ zs)" and "length ys = limit" and "limit \<noteq> 0"
    and "set (ys @ zs) = select (\<lambda>x. q_pair x = p \<and> range_overlaps rng (range_inclusive (q_base_range x))) B"
    and "passes (f () st)"
  shows "passes (then_do (check_quotes ops p rng limit ys st) f)"
  using check_quotes_result [OF assms(1) _ assms(2,5), of limit ys] assms(3,4,6) by (simp add: limited_def)

lemma get_quotes_filtering_works_passes:
  assumes "holds {} 0 (Suc (Suc (Suc (Suc (Suc m))))) st"
  shows "passes (get_quotes_filtering_works lib bl ops now None st)"
  using assms unfolding get_quotes_filtering_works_def
  apply -
  apply (((rule create_passes | rule create_partial_passes), assumption, rule add_passes, assumption+, simp, simp)+)
  apply ((rule check_quotes_passes, assumption, (simp add: suite_simps; fail), (simp add: suite_simps; fail),
        (simp add: suite_simps; fail))+)
  subgoal for s1 _ _ s2 _ _ s3
    apply (rule check_first_quotes_passes [where zs = "[made_quote lib s2 pair_ten 1 100 1000 (time_at now (Suc 0)),
      made_quote lib s3 pair_ten 1 5 50 (time_at now (Suc (Suc 0)))]"], assumption, (simp add: suite_simps; fail)+)
    apply ((rule check_quotes_passes, assumption, (simp add: suite_simps; fail), (simp add: suite_simps; fail),
        (simp add: suite_simps; fail))+)
    apply (rule check_last_quotes_passes, assumption, simp_all add: suite_simps saturating_sub_def)
    done
  done

end

context suite_setup
begin

lemma extra_output_passes:
  assumes st: "holds B n m st"
    and f: "\<And>b' st'. \<lbrakk>holds B n m st'; content b' = (content b)\<lparr>bc_required := bc_required (content b) @ [a]\<rparr>\<rbrakk>
      \<Longrightarrow> passes (f b' st')"
  shows "passes (then_do (on_env (\<lambda>(rng, l). let (recipient, rng) = account_random bl rng
    in unwrap_rng (builder_add_required_output bl a recipient b) (rng, l)) None st) f)"
proof -
  obtain acct r1 where acct: "account_random bl (ts_rng st) = (acct, r1)" by fastforce
  obtain b' r' where b': "builder_add_required_output bl a acct b r1 = (Ok b', r')" "keeps_keys built budget r1 r'"
    using build_freshD(4) [OF fresh] by blast
  have "keeps_keys built budget (ts_rng st) r'"
    using build_freshD(1) [OF fresh, of "ts_rng st"] acct keeps_keys_trans [OF _ b'(2)] by simp
  then have "holds B n m (st\<lparr>ts_rng := r'\<rparr>)"
    using st by (auto simp: book_holds_def keeps_keys_def)
  then show ?thesis
    using f build_lib_okD(4) [OF build_ok, of a acct b r1 b'] b'(1) acct by (simp add: on_env_def unwrap_rng_def)
qed

lemma show_two_zero: "show_nat (Suc (Suc 0)) = ''2''" "show_nat 0 = ''0''"
  by (simp_all add: show_nat.simps char_of_def bit_0)

lemma built_unsupported:
  assumes "sci_has lib c s" and "sci_validate lib s = Ok ()" and "bc_required c = [a, a']" and "bc_partial c = []"
    and "n < 20"
  shows "quote_new lib (now n) s None =
    Err (UnsupportedSci ''Unsupported number of required/partial outputs 2/0'')"
  using assms clock_advances_time [OF clock assms(5)]
  by (auto simp: sci_has_def quote_new_def quote_terms_def unsupported_outputs_def show_two_zero Let_def)

lemma popped_invalid:
  assumes "s \<in> built r" and "n < 20"
  shows "quote_new lib (now n) (pop_response s) None = Err (Sci ''RingSignature(LengthMismatch(22, 21))'')"
  using assms edits [of r] clock_advances_time [OF clock assms(2)]
  by (auto simp: built_documented_def quote_new_def)

lemma cannot_add_invalid_sci_passes:
  assumes "holds {} 0 (Suc (Suc m)) st"
  shows "passes (cannot_add_invalid_sci lib bl pop_response ops now None st)"
  using assms unfolding cannot_add_invalid_sci_def
  apply -
  apply (rule builder_passes, assumption)
  apply (rule extra_output_passes, assumption)
  apply (rule build_passes, assumption, simp)
  apply (rule add_refused_passes, assumption, simp, rule built_unsupported, assumption+, simp, simp, simp)
  apply (simp, rule create_passes, assumption)
  apply (rule add_refused_passes, assumption, simp, rule popped_invalid, assumption, simp)
  apply simp
  done

lemma bumped_offers:
  assumes "offers lib s p lo hi y" and "sci_validate lib (s\<lparr>tx_out_global_indices := is\<rparr>) = sci_validate lib s"
  shows "offers lib (s\<lparr>tx_out_global_indices := is\<rparr>) p lo hi y"
proof -
  let ?s = "s\<lparr>tx_out_global_indices := is\<rparr>"
  have eq: "pseudo_output_amount ?s = pseudo_output_amount s" "required_output_amounts ?s = required_output_amounts s"
    by simp_all
  have terms: "quote_terms lib ?s rules = quote_terms lib s rules" for rules
    unfolding quote_terms_def eq by (rule refl)
  show ?thesis
    unfolding offers_def
  proof (intro allI)
    fix now t
    have "quote_new lib now s (Some t) = Ok (made_quote lib s p lo hi y t)"
      using assms(1) by (simp add: offers_def)
    then show "quote_new lib now (s\<lparr>tx_out_global_indices := is\<rparr>) (Some t) =
        Ok (made_quote lib (s\<lparr>tx_out_global_indices := is\<rparr>) p lo hi y t)"
      unfolding quote_new_eq_Ok by (simp add: terms assms(2) made_quote_def quote_id_from_sci_def)
  qed
qed

lemma bump_passes:
  assumes "holds B n m st" and "s \<in> built (ts_rng st)" and "offers lib s p lo hi y"
    and "\<And>s'. \<lbrakk>offers lib s' p lo hi y; sci_key_image s' = sci_key_image s; sci_digest32 lib s' \<noteq> sci_digest32 lib s\<rbrakk>
      \<Longrightarrow> passes (f s' st)"
  shows "passes (then_do (bump_first_index s, st) f)"
proof -
  obtain i "is" where i: "tx_out_global_indices s = i # is"
      "sci_validate lib (s\<lparr>tx_out_global_indices := (i + 1) # is\<rparr>) = sci_validate lib s"
      "sci_digest32 lib (s\<lparr>tx_out_global_indices := (i + 1) # is\<rparr>) \<noteq> sci_digest32 lib s"
    using edits [of "ts_rng st"] assms(2) unfolding built_documented_def by blast
  then show ?thesis
    using assms(4) [OF bumped_offers [OF assms(3) i(2)]] by (simp add: bump_first_index_def)
qed

lemma cannot_add_duplicate_sci_passes:
  assumes "holds {} 0 (Suc m) st"
  shows "passes (cannot_add_duplicate_sci lib bl ops now None st)"
  using assms unfolding cannot_add_duplicate_sci_def
  apply -
  apply (rule create_passes, assumption)
  apply (rule add_passes, assumption+, simp, simp)
  apply (rule add_duplicate_passes, assumption, simp, simp, simp, simp, simp)
  apply (rule bump_passes, assumption)
    apply (simp add: book_holds_def)
   apply assumption
  apply (rule add_duplicate_passes, assumption, simp, simp, simp, simp, simp)
  apply (rule unwrap_quote_new_passes, assumption+, simp, simp)
  done

end

context suite_setup
begin

lemma tombstone_passes:
  "tombstone_of s n \<Longrightarrow> passes (f n st) \<Longrightarrow> passes (then_do (sci_tombstone s, st) f)"
  by (auto simp: tombstone_of_def sci_tombstone_def)

lemma build_at_passes:
  assumes st: "holds B n (Suc m) st"
    and f: "\<And>s st'. \<lbrakk>holds B n m st'; s \<in> built (ts_rng st'); fresh_in lib B s; offers lib s p x x y;
      tombstone_of s k\<rbrakk> \<Longrightarrow> passes (f s st')"
  shows "passes (then_do (suite_create_sci_builder bl p x y None st)
    (\<lambda>b st. then_do (suite_build bl None (builder_set_tombstone_block bl k b) st) f))"
proof (rule builder_passes [OF st])
  fix b st' assume b: "holds B n (Suc m) st'"
      "bc_offered (content b) = \<lparr>amount_value = x, amount_token_id = base_token_id p\<rparr>"
      "bc_required (content b) = [\<lparr>amount_value = y, amount_token_id = counter_token_id p\<rparr>]"
      "bc_partial (content b) = []"
  let ?b = "builder_set_tombstone_block bl k b"
  have c: "content ?b = (content b)\<lparr>bc_tombstone := k\<rparr>" by (rule build_lib_okD(8) [OF build_ok])
  show "passes (then_do (suite_build bl None ?b st') f)"
  proof (rule build_passes [OF b(1)])
    fix s st'' assume s: "holds B n m st''" "s \<in> built (ts_rng st'')" "fresh_in lib B s"
        "sci_validate lib s = Ok ()" "sci_has lib (content ?b) s"
    have "offers lib s p x x y" "tombstone_of s k"
      using built_offers [OF s(5,4)] b c by simp_all
    with s show "passes (f s st'')" by (intro f)
  qed (use b c in simp)
qed

lemmas get_all_passes = get_quotes_passes [where limit = 0, OF _ limited_zero]

lemma basic_happy_flow_passes:
  assumes "holds {} 0 (Suc (Suc (Suc (Suc (Suc m))))) st"
  shows "passes (basic_happy_flow lib bl ops now None st)"
  using assms unfolding basic_happy_flow_def
  apply -
  apply (rule create_passes, assumption, rule add_passes, assumption+, simp, (simp; fail))
  apply (rule get_all_passes, assumption, (simp; fail), (simp add: suite_simps; fail))
  apply (rule create_passes, assumption, rule add_passes, assumption+, simp, (simp; fail))
  apply (rule get_all_passes, assumption, simp add: suite_simps, (simp add: suite_simps; fail))
  apply (rule remove_id_passes, assumption, (simp; fail), rule check_passes, rule refl)
  apply (rule get_all_passes, assumption, (simp; fail), (simp add: suite_simps; fail))
  apply (rule remove_id_missing_passes, assumption, (simp; fail), rule check_passes, rule refl)
  apply (rule remove_key_image_passes, assumption, (simp; fail), (simp; fail))
  apply (rule remove_key_image_passes, assumption, (simp; fail), (simp; fail))
  apply (rule get_all_passes, assumption, (simp; fail), (simp; fail))
  apply (rule create_passes, assumption, rule add_passes, assumption+, simp, (simp; fail))
  apply (rule tombstone_passes, simp only: made_quote_simps)
  apply (rule build_at_passes, assumption, rule add_passes, assumption+, simp, (simp; fail))
  apply (rule build_at_passes, assumption, rule add_passes, assumption+, simp, (simp; fail))
  apply ((rule remove_tombstone_passes, assumption, (simp; fail), (simp; fail), (simp; fail),
      (simp add: expired_at_def; fail))+)
  apply (rule get_last_passes, assumption)
  apply (simp_all add: suite_simps expired_at_def)
  done

end

section \<open>The implementations\<close>

definition suite_start :: "'r \<Rightarrow> 's \<Rightarrow> ('r, 's) test_state" where
  "suite_start r b = \<lparr>ts_rng = r, ts_book = b, ts_calls = 0\<rparr>"

definition sample_pop :: "sci \<Rightarrow> sci" where
  "sample_pop s = s\<lparr>sci_rest := [0]\<rparr>"

lemma sample_built_documented: "built_documented sample_test_lib sample_pop (sample_built r)"
proof -
  have "(take_bit 64 x + 1) mod 256 = (x + 1) mod 256" for x :: int
    using mod_mod_cancel [of 256 "2 ^ 64" x] mod_add_left_eq [of "take_bit 64 x" 256 1] mod_add_left_eq [of x 256 1]
    by (simp add: take_bit_eq_mod)
  then have "(ucast (x + 1 :: u64) :: u8) = ucast x + 1" for x :: u64
    by transfer (simp add: take_bit_eq_mod mod_mod_cancel)
  then show ?thesis
    by (auto simp: built_documented_def sample_built_def sample_sci_def sample_pop_def sample_test_lib_def
        sample_lib_def numeral_eq_Suc)
qed

lemma sample_tombstones: "tombstone_documented sample_test_lib"
  by (auto simp: tombstone_documented_def sample_test_lib_def sample_lib_def)

lemma sample_clock: "clock_advances int"
  by (auto simp: clock_advances_def)

interpretation mem_suite: suite_setup sample_test_lib "in_memory_ops sample_test_lib" mem_abs mem_inv
  sample_build_lib cr_secrets "\<lambda>c. c" sample_built "\<lambda>r. 200 - r" int sample_pop
  by unfold_locales (rule sample_test_lib_ok sample_build_lib_ok sample_build_fresh sample_built_documented
      sample_tombstones sample_clock)+

interpretation sql_suite: suite_setup sample_test_lib
  "sqlite_ops sample_test_lib sample_codec list_engine (in_memory_ops sample_test_lib)"
  "\<lambda>st. mem_abs (snd st)" "sqlite_inv sample_codec set mem_abs mem_inv"
  sample_build_lib cr_secrets "\<lambda>c. c" sample_built "\<lambda>r. 200 - r" int sample_pop
  by (intro suite_setup.intro wsq.sqr.reliable_quote_book_axioms
      suite_setup.axioms(2) [OF mem_suite.suite_setup_axioms])

section \<open>Properties\<close>

text \<open>
  C18: The contract of the trait implies the conformance tests. A book that keeps the contract and whose
  only errors are those of the contract passes every test of the suite, when it starts empty: adding,
  searching with ranges and limits, the order of the rates with the earlier quote first, removing by
  identifier, key image and tombstone block, refusing invalid and duplicate SCIs, and listing identifiers.
\<close>

theorem conformance_suite:
  assumes "suite_setup lib ops contents invf bl input content built budget now pop_response"
    and "invf b" and "contents b = {}" and "5 \<le> budget r"
  shows "fst (basic_happy_flow lib bl ops now None (suite_start r b)) = Ok () \<and>
    fst (cannot_add_invalid_sci lib bl pop_response ops now None (suite_start r b)) = Ok () \<and>
    fst (cannot_add_duplicate_sci lib bl ops now None (suite_start r b)) = Ok () \<and>
    fst (get_quotes_filtering_works lib bl ops now None (suite_start r b)) = Ok () \<and>
    fst (get_quote_ids_works lib bl ops now None (suite_start r b)) = Ok () \<and>
    fst (get_quote_by_id_works lib bl ops now None (suite_start r b)) = Ok ()"
proof -
  have h: "book_holds lib contents invf built budget {} 0 m (suite_start r b)" if "m \<le> 5" for m
    using assms(2-4) that by (simp add: book_holds_def suite_start_def)
  note tests = suite_setup.basic_happy_flow_passes suite_setup.cannot_add_invalid_sci_passes
    suite_setup.cannot_add_duplicate_sci_passes suite_setup.get_quotes_filtering_works_passes
    suite_setup.get_quote_ids_works_passes suite_setup.get_quote_by_id_works_passes
  have "fst (basic_happy_flow lib bl ops now None (suite_start r b)) = Ok ()"
    "fst (cannot_add_invalid_sci lib bl pop_response ops now None (suite_start r b)) = Ok ()"
    "fst (cannot_add_duplicate_sci lib bl ops now None (suite_start r b)) = Ok ()"
    "fst (get_quotes_filtering_works lib bl ops now None (suite_start r b)) = Ok ()"
    "fst (get_quote_ids_works lib bl ops now None (suite_start r b)) = Ok ()"
    "fst (get_quote_by_id_works lib bl ops now None (suite_start r b)) = Ok ()"
    by (rule tests [OF assms(1), where m = 0, unfolded passes_def], rule h, simp)+
  then show ?thesis by blast
qed

theorem conformance_suite_witness:
  "fst (get_quotes_filtering_works sample_test_lib sample_build_lib
      (sqlite_ops sample_test_lib sample_codec list_engine (in_memory_ops sample_test_lib)) int None
      (suite_start 0 ([], in_memory_default))) = Ok () \<and>
   fst (basic_happy_flow sample_test_lib sample_build_lib (in_memory_ops sample_test_lib) int None
      (suite_start 0 in_memory_default)) = Ok ()"
  using conformance_suite [OF sql_suite.suite_setup_axioms, of "([], in_memory_default)" 0]
    conformance_suite [OF mem_suite.suite_setup_axioms, of in_memory_default 0]
  by (simp add: sqlite_inv_def mem_inv_default)

end
