(* ===== verification/Spec2Isabelle.thy ===== *)
theory Spec2Isabelle
  imports Server_System Bot_Main Test_Suite Test_Cli
begin

text \<open>
  A verification of the DEQS, the decentralized quoting service of MobileCoin: a server that collects
  signed offers to swap one token for another, and a bot that makes such offers.

  \<^bold>\<open>The program.\<close> An offer is a signed contingent input, an SCI: an input that whoever fulfils its
  conditions may spend. A \<^emph>\<open>quote\<close> is an SCI read as an offer of a range of base tokens for counter
  tokens (crate \<open>quote-book/api\<close>). A \<^emph>\<open>quote book\<close> keeps quotes; the trait \<open>QuoteBook\<close> has three
  implementations, which the server stacks: one in memory, one that also writes an SQLite table and
  reloads it on start, and one that keeps the book consistent with the ledger through a background
  thread (crates \<open>quote-book/in-memory\<close>, \<open>sqlite\<close>, \<open>synchronized\<close>). The \<^emph>\<open>server\<close> (crate \<open>server\<close>) offers
  a gRPC API to submit, search and watch quotes, exchanges quotes with other servers by gossip and by
  a synchronization when two servers connect, and reports changes on a message bus. The crate \<open>p2p\<close>
  is its network layer: an event loop around libp2p and a client that sends it commands. The
  \<^emph>\<open>liquidity bot\<close> (crate \<open>liquidity-bot\<close>) scans the ledger for the outputs of one account with a
  small wallet, makes an SCI for each, submits them to a server and keeps them listed.

  \<^bold>\<open>How code is modelled.\<close> Every function of the sources is a HOL function at the top level of its
  theory, under its own name as far as possible. A Rust integer is a word of its width, so arithmetic
  wraps as in a release build (\<open>overflow-checks\<close> is off there). \<open>Result\<close> is the datatype \<open>result\<close> with the
  cases \<open>Ok\<close> and \<open>Err\<close> and a third, \<open>Panic\<close>, for failed assertions, \<open>expect\<close> and indices out of range; a
  function that changes its object returns the result together with the new state, also when it
  fails. A trait object is a record of its methods. Code of other crates (cryptography, the ledger
  database, SQLite through diesel, libp2p, gRPC, the serializers, the clock and random numbers) is a
  record of functions that the definitions take as an argument; what the sources rely on is a
  predicate (\<open>mc_lib_ok\<close>, \<open>codec_ok\<close>, \<open>api_lib_ok\<close>, \<open>p2p_lib_ok\<close>, \<open>wire_lib_ok\<close>, \<open>swarm_ids_ok\<close>, \<open>wallet_io_ok\<close>,
  \<open>external_api_ok\<close>) or a locale (\<open>sql_engine_laws\<close>, \<open>ledger_laws\<close>, \<open>healthy_ledger\<close>), and each has a concrete
  instance here. Concurrency is an order of steps: a list that says who runs next, or a step relation.
  Logging is left out.

  \<^bold>\<open>The theories.\<close>

  \<^item> \<open>Deqs_Prelude\<close>: integers, \<open>result\<close> and its combinators, with the collection \<open>result_simps\<close>.

  \<^item> \<open>Quote\<close> (\<open>quote-book/api/src/quote.rs\<close>, \<open>basic_types.rs\<close>, \<open>error.rs\<close>): creating a quote, the price of a
    fill, the order of quotes. Creation is total and well typed; the price is exact on every branch,
    monotone and fair; the order is a strict order by rate on quotes that have one.

  \<^item> \<open>Quote_Book_Spec\<close> (\<open>quote_book.rs\<close>): the trait, and its contract as the locale \<open>quote_book\<close> over the
    set of quotes a state stands for; \<open>reliable_quote_book\<close> adds that only documented errors occur.

  \<^item> \<open>In_Memory\<close>, \<open>Sqlite_Book\<close> with \<open>Byte_Codecs\<close> and \<open>Sqlite_Instance\<close>, \<open>Ledger\<close>, \<open>Synchronized_Book\<close>
    with \<open>Synchronized_System\<close>: the three books. Each satisfies the contract, the outer two for any inner
    book that does. The results are: what each operation of the first does exactly; that table and
    memory never diverge and a restart loses nothing; that a round of the background thread ends and
    removes exactly what it should, and that no interleaving leaves a spent or expired quote behind.

  \<^item> \<open>Api_Convert\<close>, \<open>Client_Service\<close> (\<open>api/src/convert\<close>, \<open>server/src/client_service.rs\<close>, \<open>grpc_server.rs\<close>,
    \<open>msg.rs\<close>): the gRPC handlers. A submission changes book and bus as it reports, for every order of
    the parallel additions; a search and the live updates are exact.

  \<^item> \<open>P2P_Client\<close>, \<open>Net_Event_Loop\<close> (\<open>p2p/src\<close>): client, wire format and event loop. Every command is
    answered once, an RPC response reaches the caller of its request, and messages survive the wire.

  \<^item> \<open>P2P_Rpc\<close>, \<open>P2P_Sync\<close>, \<open>P2P_Server\<close> (\<open>server/src/p2p\<close>, \<open>server.rs\<close>, \<open>metrics.rs\<close>): requests of peers,
    synchronization, gossip and the server's loop. Synchronization ends, converges with an honest
    peer and is harmless with any other; the loop survives its inputs.

  \<^item> \<open>Server_Main\<close> (\<open>config.rs\<close>, \<open>bin/main.rs\<close>, \<open>server.rs\<close>, \<open>grpc_server.rs\<close>, \<open>p2p/src/network_builder.rs\<close>,
    \<open>behaviour.rs\<close>): start-up. The locale \<open>deployment\<close> collects what the stack of books relies on; the
    minimum sizes of the command line are enforced.

  \<^item> \<open>Server_System\<close>: the running server. The relation \<open>deqs_step\<close> interleaves the gRPC handlers, the loop,
    the synchronization with peers and the background thread on one shared book. What \<open>main\<close> started
    serves the stored quotes, and in every reachable state table, memory, ledger and bus agree. A call
    of the book is one step there; the relation \<open>split_step\<close> of \<open>Synchronized_System\<close> separates the check
    of a quote from its insertion and shows what that changes.

  \<^item> \<open>Mini_Wallet\<close>, \<open>Liquidity_Bot\<close>, \<open>Bot_System\<close>, \<open>Bot_Main\<close> (\<open>liquidity-bot/src\<close>): wallet, bot task, both
    with a server, and \<open>main\<close> with the admin service. The wallet knows exactly the unspent outputs and
    catches up; the bot tracks each output once, prices it by its rate, lists what the book of the
    server holds, and hears of every output and of every spend.

  \<^item> \<open>Test_Utils\<close> (\<open>mc-test-utils\<close>), \<open>Sqlite_Reliable\<close>, \<open>Test_Suite\<close> (\<open>quote-book/test-suite\<close>): the helpers that
    build SCIs and the conformance tests of the trait. With a working engine the persistent book is
    reliable; every reliable book that keeps the contract passes the six tests (locale \<open>suite_setup\<close>,
    interpreted on the in-memory and on the persistent book). The tests are run without a ledger.

  \<^item> \<open>Test_Cli\<close> (\<open>test-cli/src/bin/main.rs\<close>): the command line client in front of a server. It prints the
    identifiers of exactly the quotes the book gained, and a search finds them.

  \<^bold>\<open>Bounds and loops.\<close> Loops over data are structural recursion. The retry loop of the background thread
  and the sampling of ring members may run forever and are partial functions into \<open>option\<close>; where a
  property says that they return it says so (\<open>sync_round_exact\<close>, \<open>bot_tracks_once\<close>, \<open>ring_sampling_exact\<close>).
  The loop that loads blocks takes fuel; one more than the number of blocks left is shown to be
  enough. Block counts are taken to be below \<open>2 ^ 63\<close>. Loops that serve until they are stopped (the
  server, the event loop, the bot, \<open>main\<close>) run over an arbitrary finite list of inputs, and the
  properties hold for all of them.

  \<^bold>\<open>Hypotheses on quotes.\<close> The contract speaks of \<^emph>\<open>admissible\<close> and \<^emph>\<open>coherent\<close> sets of quotes: the digest
  of different SCIs differs, and a quote does not offer 0 base tokens for 0 counter tokens, for which
  the order of quotes is no order. \<open>tombstones_regular\<close> keeps tombstone blocks in the range where the
  library test and the comparison of the table agree. The sections named \<open>Divergences\<close> show what
  happens outside these hypotheses, and where code and documentation differ.

  \<^bold>\<open>Not modelled.\<close> Logging, the registration of metrics with prometheus, the tests inside the crates and
  the end to end tests, the canned test server and the chat example, which only call modelled code;
  \<open>clap\<close> declarations and URI schemes, which have no code of their own; code that the
  Protobuf compiler generates; and spawning and joining threads and tasks, whose effects are the
  interleavings above. Time enters as an argument; timeouts and the intervals of timers are the
  presence of a tick in a list of inputs.
\<close>

end
